(* ===== verification/Prelude.thy ===== *)
theory Prelude
  imports Complex_Main "HOL-Library.Word" "HOL-Library.Log_Nat"
begin

text \<open>
  Shared vocabulary of the C-100 development: the machine types the firmware uses, the
  truncating conversions of C++, collections of rules that later theories extend and the
  generic lemmas on lists and words that several components need.
\<close>

unbundle bit_operations_syntax

section \<open>Machine types\<close>

type_synonym u8 = "8 word"
type_synonym u16 = "16 word"
type_synonym u32 = "32 word"
type_synonym u64 = "64 word"

text \<open>
  Signed fields (\<open>int16_t\<close>, \<open>int32_t\<close>) are kept as words too and read with \<open>sint\<close>.
\<close>

type_synonym i16 = "16 word"
type_synonym i32 = "32 word"

section \<open>Collections\<close>

named_theorems limit_defs \<open>numeric constants of the firmware\<close>
named_theorems f32_ops \<open>unfolding of binary32 operations to rounding\<close>
named_theorems enum_simps \<open>conversion between enums and their bytes\<close>

section \<open>Words\<close>

lemma word_xor_cancel_right [simp]: "a XOR c = b XOR c \<longleftrightarrow> a = b" for a b c :: "'a::len word"
  by (metis xor.assoc xor.right_neutral xor_self_eq)

lemma word_xor_cancel_left [simp]: "c XOR a = c XOR b \<longleftrightarrow> a = b" for a b c :: "'a::len word"
  by (metis xor.assoc xor.left_neutral xor_self_eq)

lemma bit_0xFF: "bit (0xFF :: int) n \<longleftrightarrow> n < 8"
proof -
  have "(0xFF :: int) = mask 8" by (simp add: mask_eq_exp_minus_1)
  then show ?thesis by (simp only: bit_mask_iff) simp
qed

lemma unat_u8_bound: "unat b < 256" for b :: u8
  using unsigned_less[of b] by simp

lemma unat_ucast_u8_u16 [simp]: "unat (ucast b :: u16) = unat b" for b :: u8
  using unat_u8_bound[of b] by (simp add: unsigned_ucast_eq take_bit_nat_eq_self)

lemma ucast_u8_u16_inverse: "unat x < 256 \<Longrightarrow> ucast (ucast x :: u8) = x" for x :: u16
  by (simp add: word_unat_eq_iff unsigned_ucast_eq unsigned_take_bit_eq take_bit_nat_eq_self)

lemma ucast_u16_u8 [simp]: "ucast (ucast b :: u16) = b" for b :: u8
  by (rule bit_word_eqI) (simp add: bit_simps)

lemma sint_16_bound: "\<bar>sint w\<bar> \<le> 2 ^ 15" for w :: i16
  using sint_range_size[of w] by (simp add: word_size abs_le_iff)

section \<open>Truncation\<close>

text \<open>A C++ cast from a floating-point value to an integer discards the fraction.\<close>

definition trunc :: "rat \<Rightarrow> int" where
  "trunc x = (if 0 \<le> x then floor x else - floor (- x))"

lemma trunc_of_int [simp]: "trunc (of_int n) = n"
  by (simp add: trunc_def)

lemma trunc_numeral [simp]: "trunc (numeral n) = numeral n" "trunc 0 = 0"
  by (simp_all add: trunc_def)

lemma trunc_mono: "x \<le> y \<Longrightarrow> trunc x \<le> trunc y"
  proof -
  assume xy: "x \<le> y"
  have mixed: "- floor (- x) \<le> floor y" if "x < 0" "0 \<le> y"
  proof -
    have "0 \<le> floor (- x)" "0 \<le> floor y" using that by simp_all
    then show ?thesis by linarith
  qed
  show ?thesis
    using xy mixed by (auto simp: trunc_def not_le floor_mono)
qed

section \<open>Lists and memory\<close>

text \<open>
  \<open>blit buf off bs\<close> is the effect of \<open>memcpy(buf + off, bs, len)\<close> on a fixed array.
\<close>

definition blit :: "'a list \<Rightarrow> nat \<Rightarrow> 'a list \<Rightarrow> 'a list" where
  "blit buf off bs = take off buf @ bs @ drop (off + length bs) buf"

lemma length_blit [simp]: "off + length bs \<le> length buf \<Longrightarrow> length (blit buf off bs) = length buf"
  by (simp add: blit_def)

lemma take_blit [simp]: "off \<le> length buf \<Longrightarrow> take off (blit buf off bs) = take off buf"
  by (simp add: blit_def)

lemma take_blit_end:
  "off \<le> length buf \<Longrightarrow> take (off + length bs) (blit buf off bs) = take off buf @ bs"
  by (simp add: blit_def)

lemma blit_0: "blit buf 0 bs = bs @ drop (length bs) buf"
  by (simp add: blit_def)

lemma take_drop_append_split:
  "n \<le> m \<Longrightarrow> take n (drop k xs) @ take (m - n) (drop (k + n) xs) = take m (drop k xs)"
  by (metis add.commute drop_drop le_add_diff_inverse take_add)

lemma take_Suc_snoc: "n < length xs \<Longrightarrow> take (Suc n) (xs[n := x]) = take n xs @ [x]"
  by (simp add: take_Suc_conv_app_nth)

end
