(* ===== verification/Binary32.thy ===== *)
theory Binary32
  imports Prelude
begin

text \<open>
  IEEE 754 binary32 arithmetic, the \<open>float\<close> of the firmware, on exact rationals. A finite
  \<open>float\<close> is the rational it denotes; every arithmetic operation computes the exact result
  and rounds it to the nearest value with a 24-bit significand and an exponent of at least
  \<open>- 149\<close>, ties to even. The model has no infinities and no NaN: the firmware's operands stay
  far below \<open>2 ^ 128\<close> and it divides by nonzero constants and counts only. The sign of zero is
  not represented; no comparison of the firmware depends on it.
\<close>

section \<open>Rounding to nearest even\<close>

type_synonym f32 = rat

definition round_even :: "rat \<Rightarrow> int" where
  "round_even y =
     (let f = floor y; d = y - of_int f
      in if d < 1 / 2 then f else if d > 1 / 2 then f + 1 else if even f then f else f + 1)"

definition binade :: "rat \<Rightarrow> int" where
  "binade x =
     (let (p, q) = quotient_of x; e = bitlen p - bitlen q
      in if 2 powi e \<le> x then e else e - 1)"

definition quantum :: "rat \<Rightarrow> rat" where
  "quantum x = 2 powi max (binade \<bar>x\<bar> - 23) (- 149)"

definition rnd :: "rat \<Rightarrow> rat" where
  "rnd x = (if x = 0 then 0 else of_int (round_even (x / quantum x)) * quantum x)"

section \<open>Properties of rounding\<close>

lemma round_even_of_int [simp]: "round_even (of_int n) = n"
  by (simp add: round_even_def)

lemma round_even_bounds: "of_int (round_even y) \<le> y + 1 / 2" "y - 1 / 2 \<le> of_int (round_even y)"
  unfolding round_even_def Let_def by (auto split: if_splits) linarith+

lemma round_even_mono:
  assumes "x \<le> y" shows "round_even x \<le> round_even y"
proof (cases "floor x = floor y")
  case True
  with assms show ?thesis
    unfolding round_even_def Let_def by auto
next
  case False
  with assms have "floor x + 1 \<le> floor y" by (metis add1_zle_eq floor_mono order_le_less)
  moreover have "round_even x \<le> floor x + 1" by (simp add: round_even_def Let_def)
  moreover have "floor y \<le> round_even y" by (simp add: round_even_def Let_def)
  ultimately show ?thesis by linarith
qed

lemma round_even_minus: "round_even (- y) = - round_even y"
proof (cases "y = of_int (floor y)")
  case True
  then obtain n where "y = of_int n" by blast
  then show ?thesis using round_even_of_int[of "-n"] by simp
next
  case False
  then have "floor (- y) = - floor y - 1" by linarith
  then show ?thesis
    unfolding round_even_def Let_def by auto
qed

lemma bitlen_sandwich:
  fixes p :: int
  assumes "0 < p"
  shows "(2::rat) powi (bitlen p - 1) \<le> of_int p" "of_int p < (2::rat) powi (bitlen p)"
proof -
  have "0 < bitlen p" using assms bitlen_eq_zero_iff[of p] bitlen_nonneg[of p] by linarith
  then obtain k where k: "bitlen p = 1 + int k"
    by (metis add.commute add1_zle_eq zle_iff_zadd add_0)
  have "2 ^ k \<le> p" "p < 2 ^ Suc k"
    using bitlen_bounds[OF assms] k by (simp_all add: nat_add_distrib)
  then have "(of_int (2 ^ k)::rat) \<le> of_int p" "(of_int p::rat) < of_int (2 ^ Suc k)"
    by (simp_all only: of_int_le_iff of_int_less_iff)
  then show "(2::rat) powi (bitlen p - 1) \<le> of_int p" "of_int p < (2::rat) powi (bitlen p)"
    using k by (simp_all add: power_int_add)
qed

lemma binade_bounds:
  assumes "0 < x"
  shows "2 powi binade x \<le> x" "x < 2 powi (binade x + 1)"
proof -
  obtain p q where pq: "quotient_of x = (p, q)" by fastforce
  have q: "0 < q" using pq by (rule quotient_of_denom_pos)
  have x: "x = of_int p / of_int q" using pq by (rule quotient_of_div)
  have p: "0 < p" using assms q x by (simp add: zero_less_divide_iff)
  let ?e = "bitlen p - bitlen q"
  have "x < 2 powi bitlen p / 2 powi (bitlen q - 1)"
    unfolding x using bitlen_sandwich[OF p] bitlen_sandwich[OF q] q p
    by (intro frac_less) auto
  also have "\<dots> = 2 powi (?e + 1)" by (simp add: power_int_diff power_int_add)
  finally have hi: "x < 2 powi (?e + 1)" .
  have "2 powi (?e - 1) = 2 powi (bitlen p - 1) / (2::rat) powi bitlen q"
    by (simp add: power_int_diff)
  also have "\<dots> \<le> x"
    unfolding x using bitlen_sandwich[OF p] bitlen_sandwich[OF q] q p
    by (intro frac_le) auto
  finally have lo: "2 powi (?e - 1) \<le> x" .
  show "2 powi binade x \<le> x" "x < 2 powi (binade x + 1)"
    using lo hi pq by (auto simp: binade_def Let_def)
qed

lemma powi_less_imp: "(2::rat) powi a < 2 powi b \<Longrightarrow> a < b"
  by (meson linorder_not_le one_le_numeral power_int_increasing)

lemma powi_le_imp: "(2::rat) powi a \<le> 2 powi b \<Longrightarrow> a \<le> b"
  by (metis linorder_not_le one_less_numeral_iff power_int_strict_increasing semiring_norm(76))

lemma binade_unique:
  assumes "2 powi e \<le> x" "x < 2 powi (e + 1)"
  shows "binade x = e"
proof -
  have "(0::rat) < 2 powi e" by simp
  then have x: "0 < x" using assms(1) by linarith
  have "2 powi e < (2::rat) powi (binade x + 1)" using assms(1) binade_bounds(2)[OF x] by linarith
  moreover have "2 powi binade x < (2::rat) powi (e + 1)" using assms(2) binade_bounds(1)[OF x] by linarith
  ultimately have "e < binade x + 1" "binade x < e + 1" by (simp_all only: powi_less_imp)
  then show ?thesis by simp
qed

lemma binade_mono: "0 < x \<Longrightarrow> x \<le> y \<Longrightarrow> binade x \<le> binade y"
proof -
  assume xy: "0 < x" "x \<le> y"
  then have "2 powi binade x < (2::rat) powi (binade y + 1)"
    using binade_bounds(1)[of x] binade_bounds(2)[of y] by linarith
  then show ?thesis using powi_less_imp by fastforce
qed

lemma quantum_pos [simp]: "0 < quantum x"
  by (simp add: quantum_def)

lemma quantum_nonneg [simp]: "0 \<le> quantum x" and quantum_neq_0 [simp]: "quantum x \<noteq> 0"
  using quantum_pos[of x] by linarith+

lemma quantum_minus [simp]: "quantum (- x) = quantum x"
  by (simp add: quantum_def)

lemma rnd_0 [simp]: "rnd 0 = 0" by (simp add: rnd_def)

lemma rnd_minus: "rnd (- x) = - rnd x"
  by (simp add: rnd_def round_even_minus flip: minus_divide_left)

text \<open>A value on the grid of its own binade is rounded to itself.\<close>

lemma rnd_grid:
  assumes "x = of_int n * 2 powi k" "\<bar>n\<bar> \<le> 2 ^ 24" "- 149 \<le> k"
  shows "rnd x = x"
proof (cases "x = 0")
  case False
  have big: "\<bar>x\<bar> \<le> 2 powi (k + 24)"
  proof -
    have "\<bar>of_int n :: rat\<bar> \<le> 2 ^ 24" using assms(2) by (metis of_int_abs of_int_le_iff of_int_numeral of_int_power)
    then show ?thesis unfolding assms(1) by (simp add: abs_mult power_int_add)
  qed
  have "\<exists>m::int. x = of_int m * quantum x"
  proof (cases "binade \<bar>x\<bar> - 23 \<le> k")
    case True
    define j where "j = nat (k - max (binade \<bar>x\<bar> - 23) (- 149))"
    have k: "k = int j + max (binade \<bar>x\<bar> - 23) (- 149)" using True assms(3) by (simp add: j_def)
    have "(2::rat) powi k = 2 ^ j * quantum x"
      unfolding quantum_def by (subst k) (simp add: power_int_add)
    then have "x = of_int (n * 2 ^ j) * quantum x" using assms(1) by simp
    then show ?thesis by blast
  next
    case far: False
    have "2 powi binade \<bar>x\<bar> \<le> (2::rat) powi (k + 24)"
      using binade_bounds(1)[of "\<bar>x\<bar>"] False big by simp
    then have "binade \<bar>x\<bar> \<le> k + 24" by (rule powi_le_imp)
    with far have b: "binade \<bar>x\<bar> = k + 24" by simp
    then have ax: "\<bar>x\<bar> = 2 powi (k + 24)" using binade_bounds(1)[of "\<bar>x\<bar>"] False big by simp
    have "quantum x = 2 powi (k + 1)" using b assms(3) by (simp add: quantum_def add.commute)
    then have "\<bar>x\<bar> = of_int (2 ^ 23) * quantum x" using ax by (simp add: power_int_add)
    then have "x = of_int (2 ^ 23) * quantum x \<or> x = of_int (- (2 ^ 23)) * quantum x"
      by (auto simp: abs_if split: if_splits)
    then show ?thesis by blast
  qed
  then obtain m where "x = of_int m * quantum x" by blast
  moreover have "quantum x \<noteq> 0" using quantum_pos[of x] by linarith
  ultimately have "x / quantum x = of_int m" by (metis nonzero_mult_div_cancel_right)
  then show ?thesis using \<open>x = of_int m * quantum x\<close> False by (simp add: rnd_def)
qed simp

lemma rnd_of_int: "\<bar>n\<bar> \<le> 2 ^ 24 \<Longrightarrow> rnd (of_int n) = of_int n"
  by (rule rnd_grid[of _ n 0]) simp_all

lemma rnd_pow2: "- 149 \<le> k \<Longrightarrow> rnd (2 powi k) = 2 powi k"
  by (rule rnd_grid[of _ 1 k]) simp_all

lemma rnd_nonneg: "0 \<le> x \<Longrightarrow> 0 \<le> rnd x"
proof -
  assume "0 \<le> x"
  then have "0 \<le> x / quantum x" using quantum_pos[of x] by simp
  then have "round_even 0 \<le> round_even (x / quantum x)" by (rule round_even_mono)
  moreover have "round_even 0 = 0" using round_even_of_int[of 0] by simp
  ultimately show ?thesis using quantum_pos[of x] by (simp add: rnd_def)
qed

text \<open>The rounding error is at most half a quantum.\<close>

lemma rnd_error: "\<bar>rnd x - x\<bar> \<le> quantum x / 2"
proof (cases "x = 0")
  case False
  define r where "r = round_even (x / quantum x)"
  have "of_int r \<le> x / quantum x + 1 / 2" "x / quantum x - 1 / 2 \<le> of_int r"
    unfolding r_def by (rule round_even_bounds)+
  then have "of_int r * quantum x \<le> (x / quantum x + 1 / 2) * quantum x"
    "(x / quantum x - 1 / 2) * quantum x \<le> of_int r * quantum x"
    by (simp_all add: mult_right_mono less_imp_le)
  moreover have "x / quantum x * quantum x = x" by simp
  ultimately have "of_int r * quantum x \<le> x + quantum x / 2" "x - quantum x / 2 \<le> of_int r * quantum x"
    by (simp_all add: distrib_right left_diff_distrib)
  moreover have "rnd x = of_int r * quantum x" using False by (simp add: rnd_def r_def)
  ultimately show ?thesis by (simp only: abs_le_iff) linarith
qed (simp add: less_imp_le)

lemma rnd_binade_hi: "0 < x \<Longrightarrow> - 150 \<le> binade x \<Longrightarrow> rnd x \<le> 2 powi (binade x + 1)"
proof -
  assume x: "0 < x" and b: "- 150 \<le> binade x"
  define e where "e = max (binade x - 23) (- 149)"
  define j where "j = nat (binade x + 1 - e)"
  have j: "binade x + 1 = int j + e" using b by (simp add: e_def j_def)
  have q: "quantum x = 2 powi e" using x by (simp add: quantum_def e_def)
  have "x / quantum x \<le> of_int (2 ^ j)"
    using binade_bounds(2)[OF x] unfolding q j by (simp add: power_int_add divide_le_eq)
  then have "round_even (x / quantum x) \<le> 2 ^ j" using round_even_mono by (metis round_even_of_int)
  then have "(of_int (round_even (x / quantum x)) :: rat) \<le> of_int (2 ^ j)" by (simp only: of_int_le_iff)
  then have "rnd x \<le> 2 ^ j * quantum x" using x by (simp add: rnd_def mult_right_mono less_imp_le)
  then show ?thesis unfolding q j by (simp add: power_int_add)
qed

lemma rnd_binade_lo: "0 < x \<Longrightarrow> - 149 \<le> binade x \<Longrightarrow> 2 powi binade x \<le> rnd x"
proof -
  assume x: "0 < x" and b: "- 149 \<le> binade x"
  define e where "e = max (binade x - 23) (- 149)"
  define j where "j = nat (binade x - e)"
  have j: "binade x = int j + e" using b by (simp add: e_def j_def)
  have q: "quantum x = 2 powi e" using x by (simp add: quantum_def e_def)
  have "of_int (2 ^ j) \<le> x / quantum x"
    using binade_bounds(1)[OF x] unfolding q j by (simp add: power_int_add le_divide_eq)
  then have "2 ^ j \<le> round_even (x / quantum x)" using round_even_mono by (metis round_even_of_int)
  then have "(of_int (2 ^ j) :: rat) \<le> of_int (round_even (x / quantum x))" by (simp only: of_int_le_iff)
  then have "2 ^ j * quantum x \<le> rnd x" using x by (simp add: rnd_def mult_right_mono less_imp_le)
  then show ?thesis unfolding q j by (simp add: power_int_add)
qed

lemma rnd_mono_pos:
  assumes "0 < x" "x \<le> y" shows "rnd x \<le> rnd y"
proof (cases "quantum x = quantum y")
  case True
  have "x / quantum x \<le> y / quantum y" using assms True by (simp add: divide_right_mono less_imp_le)
  then have "round_even (x / quantum x) \<le> round_even (y / quantum y)" by (rule round_even_mono)
  then show ?thesis using assms True quantum_pos[of y] by (simp add: rnd_def mult_right_mono less_imp_le)
next
  case False
  have "binade x \<le> binade y" using assms by (rule binade_mono)
  moreover from False have "binade x \<noteq> binade y" using assms by (auto simp: quantum_def)
  ultimately have b: "binade x + 1 \<le> binade y" "- 126 < binade y"
    using False assms by (auto simp: quantum_def max_def split: if_splits)
  show ?thesis
  proof (cases "- 150 \<le> binade x")
    case True
    have "rnd x \<le> 2 powi (binade x + 1)" using rnd_binade_hi assms True by simp
    also have "\<dots> \<le> 2 powi binade y" using b(1) by (simp add: power_int_increasing)
    also have "\<dots> \<le> rnd y" using rnd_binade_lo[of y] assms b by simp
    finally show ?thesis .
  next
    case small: False
    have "x \<le> 2 powi (binade x + 1)" using binade_bounds(2)[OF assms(1)] by simp
    also have "\<dots> \<le> 2 powi (- 150)" using small by (intro power_int_increasing) simp_all
    finally have "x \<le> 2 powi (- 150)" .
    moreover have "quantum x = 2 powi (- 149)" using small assms by (simp add: quantum_def)
    moreover have "\<bar>rnd x - x\<bar> \<le> quantum x / 2" by (rule rnd_error)
    moreover have "(2::rat) powi (- 149) = 2 * 2 powi (- 150)" using power_int_add[of "2::rat" 1 "- 150"] by simp
    ultimately have "rnd x \<le> 2 powi (- 149)" by linarith
    also have "\<dots> \<le> 2 powi binade y" using b by (intro power_int_increasing) simp_all
    also have "\<dots> \<le> rnd y" using rnd_binade_lo[of y] assms b by simp
    finally show ?thesis .
  qed
qed

lemma rnd_mono: "x \<le> y \<Longrightarrow> rnd x \<le> rnd y"
proof -
  assume xy: "x \<le> y"
  consider "0 < x" | "x \<le> 0" "0 \<le> y" | "y < 0" by linarith
  then show ?thesis
  proof cases
    case 1 then show ?thesis using xy by (rule rnd_mono_pos)
  next
    case 2
    then show ?thesis using rnd_nonneg[of y] rnd_nonneg[of "- x"] by (simp add: rnd_minus)
  next
    case 3
    then have "rnd (- y) \<le> rnd (- x)" using xy by (intro rnd_mono_pos) simp_all
    then show ?thesis by (simp add: rnd_minus)
  qed
qed

section \<open>Exactness of scaling by ten\<close>

lemma round_even_near:
  assumes "even n" "\<bar>w - of_int n\<bar> \<le> 1 / 2"
  shows "round_even w = n"
proof -
  have "floor w = n \<or> floor w = n - 1" using assms(2) by linarith
  moreover have "odd (n - 1)" using assms(1) by simp
  ultimately show ?thesis using assms unfolding round_even_def Let_def by auto
qed

lemma rnd_near_even:
  assumes "x \<noteq> 0" "quantum x = q" "y = of_int n * q" "even n" "\<bar>x - y\<bar> \<le> q / 2"
  shows "rnd x = y"
proof -
  have q: "0 < q" using assms(2) quantum_pos[of x] by simp
  have "x / q - of_int n = (x - y) / q" using q assms(3) by (simp add: field_simps)
  also have "\<bar>\<dots>\<bar> \<le> 1 / 2" using assms(5) q by (simp add: field_simps)
  finally have "round_even (x / q) = n" by (intro round_even_near assms(4)) simp
  then show ?thesis using assms by (simp add: rnd_def)
qed

lemma rnd_on_grid: "\<exists>m. rnd x = of_int m * quantum x"
  by (cases "x = 0") (auto simp: rnd_def intro: exI[of _ "0::int"])

lemma powi_2_add: "(2::rat) powi (a + numeral k) = 2 powi a * 2 ^ numeral k"
  by (simp add: power_int_add)

lemma powi_2_diff: "(2::rat) powi (a - numeral k) = 2 powi a / 2 ^ numeral k"
  by (simp add: power_int_diff)

lemma pow_powi_cancel: "e < 0 \<Longrightarrow> 2 ^ nat (- e) * (2::rat) powi e = 1"
  by (simp add: power_int_def power_inverse flip: power_mult_distrib)

text \<open>Dividing a 16-bit magnitude by ten and multiplying back is exact (Kahan).\<close>

lemma rnd_ten_cancel_pos:
  assumes d: "0 < d" "d \<le> 2 ^ 15"
  shows "rnd (rnd (of_int d / 10) * 10) = of_int d"
proof -
  define x :: rat where "x = of_int d / 10"
  define b where "b = binade x"
  define u :: rat where "u = 2 powi (b - 23)"
  have x: "0 < x" "1 / 10 \<le> x" "x \<le> 32768 / 10" using d by (simp_all add: x_def)
  have lo: "2 powi b \<le> x" and hi: "x < 2 * 2 powi b"
    using binade_bounds[OF x(1)] by (simp_all add: b_def power_int_add)
  have c: "(2::rat) powi - 4 = 1 / 16" "(2::rat) powi 12 = 4096" "(2::rat) powi (b + 1) = 2 * 2 powi b"
    by (simp add: power_int_minus_divide, simp, simp add: power_int_add)
  have b_lo: "- 4 \<le> b" using powi_less_imp[of "- 4" "b + 1"] hi x(2) unfolding c by linarith
  have b_hi: "b \<le> 11" using powi_less_imp[of b 12] lo x(3) unfolding c by linarith
  have u: "0 < u" "2 powi b = 2 ^ 23 * u" by (simp_all add: u_def powi_2_diff)
  have qx: "quantum x = u" using x b_lo by (simp add: quantum_def u_def flip: b_def)
  obtain m where m: "rnd x = of_int m * u" using rnd_on_grid[of x] qx by auto
  have err: "\<bar>of_int m * u - x\<bar> \<le> u / 2" using rnd_error[of x] m qx by simp
  define k where "k = d * 2 ^ nat (22 - b)"
  have k: "of_int d = of_int k * (2 * u)"
  proof -
    have "2 * u = 2 powi (b - 22)" by (simp add: u_def powi_2_diff)
    then have "2 ^ nat (22 - b) * (2 * u) = 1" using pow_powi_cancel[of "b - 22"] b_hi by simp
    then show ?thesis by (simp add: k_def mult.assoc)
  qed
  define z where "z = rnd x * 10"
  have dx: "of_int d = 10 * x" by (simp add: x_def)
  have z: "z = of_int (5 * m) * (2 * u)" by (simp add: z_def m)
  have diff: "\<bar>z - of_int d\<bar> = \<bar>of_int (5 * m - k)\<bar> * (2 * u)"
  proof -
    have "z - of_int d = of_int (5 * m - k) * (2 * u)" unfolding z k by (simp add: algebra_simps)
    then show ?thesis using u(1) by (simp add: abs_mult)
  qed
  have "z - of_int d = 10 * (of_int m * u - x)" by (simp add: z_def m dx)
  then have "\<bar>of_int (5 * m - k)\<bar> * (2 * u) \<le> (5 / 2) * (2 * u)"
    using err unfolding diff[symmetric] by (simp only: abs_mult) simp
  then have "\<bar>of_int (5 * m - k) :: rat\<bar> \<le> 5 / 2" by (rule mult_right_le_imp_le) (simp add: u(1))
  then have "\<bar>5 * m - k\<bar> \<le> 2" by linarith
  then have "\<bar>of_int (5 * m - k) :: rat\<bar> \<le> 2" by linarith
  then have zd: "\<bar>z - of_int d\<bar> \<le> 2 * (2 * u)"
    unfolding diff using u(1) by (intro mult_right_mono) simp_all
  have z_lo: "2 powi (b + 3) \<le> z" and z_hi: "z < 2 powi (b + 5)"
    using zd lo hi u unfolding dx by (simp_all add: powi_2_add abs_le_iff)
  have zpos: "0 < z" using z_lo less_le_trans[of 0 "2 powi (b + 3)" z] by simp
  have "binade z = b + 3 \<or> binade z = b + 4"
  proof (cases "z < 2 powi (b + 4)")
    case True then show ?thesis using z_lo binade_unique[of "b + 3" z] by (simp add: add.commute)
  next
    case False then show ?thesis using z_hi binade_unique[of "b + 4" z] by (simp add: add.commute)
  qed
  then obtain j where j: "binade z - 23 = j" "j = b - 20 \<or> j = b - 19" by force
  define n where "n = d * 2 ^ nat (- j)"
  have qz: "quantum z = 2 powi j" using zpos j b_lo by (auto simp: quantum_def)
  have "rnd z = of_int d"
  proof (rule rnd_near_even)
    show "z \<noteq> 0" using zpos by simp
    show "quantum z = 2 powi j" by (rule qz)
    show "(of_int d :: rat) = of_int n * 2 powi j"
    proof -
      have "2 ^ nat (- j) * (2::rat) powi j = 1" using j(2) b_hi by (intro pow_powi_cancel) auto
      then show ?thesis by (simp add: n_def mult.assoc)
    qed
    show "even n" using j(2) b_hi by (auto simp: n_def)
    have "8 * u \<le> 2 powi j" using j(2) u(1) by (auto simp: u_def powi_2_diff)
    then show "\<bar>z - of_int d\<bar> \<le> 2 powi j / 2" using zd by linarith
  qed
  then show ?thesis by (simp add: z_def x_def)
qed

lemma rnd_ten_cancel:
  assumes "\<bar>d\<bar> \<le> 2 ^ 15"
  shows "rnd (rnd (of_int d / 10) * 10) = of_int d"
proof -
  consider "d = 0" | "0 < d" | "0 < - d" by linarith
  then show ?thesis
  proof cases
    case 3
    then have "rnd (rnd (of_int (- d) / 10) * 10) = of_int (- d)"
      using assms by (intro rnd_ten_cancel_pos) simp_all
    then show ?thesis by (simp add: rnd_minus flip: minus_divide_left)
  qed (use assms in \<open>simp_all add: rnd_ten_cancel_pos\<close>)
qed

section \<open>Arithmetic\<close>

definition fadd :: "f32 \<Rightarrow> f32 \<Rightarrow> f32" where [f32_ops]: "fadd x y = rnd (x + y)"
definition fsub :: "f32 \<Rightarrow> f32 \<Rightarrow> f32" where [f32_ops]: "fsub x y = rnd (x - y)"
definition fmul :: "f32 \<Rightarrow> f32 \<Rightarrow> f32" where [f32_ops]: "fmul x y = rnd (x * y)"
definition fdiv :: "f32 \<Rightarrow> f32 \<Rightarrow> f32" where [f32_ops]: "fdiv x y = rnd (x / y)"

text \<open>Conversion of an integer value to \<open>float\<close>.\<close>

definition float_of :: "int \<Rightarrow> f32" where
  "float_of n = rnd (of_int n)"

section \<open>The contract of a rounding mode\<close>

text \<open>
  What the control code relies on: rounding is monotone, odd and exact on the integers up to
  \<open>2 ^ 24\<close>. The clamping and ramping arguments of the motor and heater controllers are proved
  from these three laws.
\<close>

locale rounding =
  fixes rd :: "rat \<Rightarrow> rat"
  assumes rd_mono: "x \<le> y \<Longrightarrow> rd x \<le> rd y"
    and rd_odd: "rd (- x) = - rd x"
    and rd_exact: "\<bar>n\<bar> \<le> 2 ^ 24 \<Longrightarrow> rd (of_int n) = of_int n"
begin

lemma rd_le: "\<bar>n\<bar> \<le> 2 ^ 24 \<Longrightarrow> x \<le> of_int n \<Longrightarrow> rd x \<le> of_int n"
  using rd_mono[of x "of_int n"] rd_exact[of n] by simp

lemma rd_ge: "\<bar>n\<bar> \<le> 2 ^ 24 \<Longrightarrow> of_int n \<le> x \<Longrightarrow> of_int n \<le> rd x"
  using rd_mono[of "of_int n" x] rd_exact[of n] by simp

lemma rd_zero [simp]: "rd 0 = 0"
  using rd_exact[of 0] by simp

lemma rd_one [simp]: "rd 1 = 1"
  using rd_exact[of 1] by simp

lemma rd_numeral: "numeral k \<le> (2 ^ 24 :: int) \<Longrightarrow> rd (numeral k) = numeral k"
  using rd_exact[of "numeral k"] by simp

lemma rd_pos_mono: "0 \<le> x \<Longrightarrow> 0 \<le> rd x"
  using rd_mono[of 0 x] by simp

lemma rd_neg_mono: "x \<le> 0 \<Longrightarrow> rd x \<le> 0"
  using rd_mono[of x 0] by simp

lemma rd_unit: "0 \<le> x \<Longrightarrow> x \<le> 1 \<Longrightarrow> 0 \<le> rd x \<and> rd x \<le> 1"
  using rd_mono[of 0 x] rd_mono[of x 1] by simp

end

interpretation b32: rounding rnd
  by unfold_locales (simp_all add: rnd_mono rnd_minus rnd_of_int)

lemma float_of_small [simp]: "\<bar>n\<bar> \<le> 2 ^ 24 \<Longrightarrow> float_of n = of_int n"
  by (simp add: float_of_def b32.rd_exact)

end
