(* ===== verification/Common.thy ===== *)
theory Common
  imports Binary32
begin

text \<open>
  \<open>src/common/result.h\<close>, \<open>time_types.h\<close>, \<open>units.h\<close> and the status names of \<open>logging.cpp\<close>.
  Shown here: millisecond time follows microsecond time across the 32-bit wrap-around, and a
  temperature survives the conversion to \<open>float\<close> degrees and back unchanged.
\<close>

section \<open>Status codes and results\<close>

datatype status =
  Ok | Timeout | CrcMismatch | Overflow | InvalidArgument | NotReady | HardwareFault | ProtocolError

fun status_name :: "status \<Rightarrow> string" where
  "status_name Ok = ''Ok''"
| "status_name Timeout = ''Timeout''"
| "status_name CrcMismatch = ''CrcMismatch''"
| "status_name Overflow = ''Overflow''"
| "status_name InvalidArgument = ''InvalidArgument''"
| "status_name NotReady = ''NotReady''"
| "status_name HardwareFault = ''HardwareFault''"
| "status_name ProtocolError = ''ProtocolError''"

text \<open>\<open>Result<T>\<close> holds a status and a value; an error carries the value-initialised \<open>T\<close>.\<close>

record 'a result =
  r_status :: status
  r_value :: 'a

definition result_ok :: "'a \<Rightarrow> 'a result" where
  "result_ok v = \<lparr>r_status = Ok, r_value = v\<rparr>"

definition result_err :: "status \<Rightarrow> 'a::zero result" where
  "result_err s = \<lparr>r_status = s, r_value = 0\<rparr>"

definition is_ok :: "'a result \<Rightarrow> bool" where
  "is_ok r \<longleftrightarrow> r_status r = Ok"

lemma is_ok_simps [simp]: "is_ok (result_ok v)" "r_value (result_ok v) = v"
  "is_ok (result_err s) \<longleftrightarrow> s = Ok"
  by (simp_all add: is_ok_def result_ok_def result_err_def)

section \<open>Time\<close>

type_synonym micros = u64
type_synonym millis = u32

definition to_millis :: "micros \<Rightarrow> millis" where
  "to_millis us = ucast (us div 1000)"

definition ms_to_us :: "u32 \<Rightarrow> micros" where
  "ms_to_us ms = ucast ms * 1000"

definition s_to_us :: "u32 \<Rightarrow> micros" where
  "s_to_us s = ucast s * 1000000"

section \<open>Units\<close>

type_synonym deci_celsius = i16
type_synonym rpm = u16
type_synonym grams = i32

definition to_celsius :: "deci_celsius \<Rightarrow> f32" where
  "to_celsius deci = fdiv (float_of (sint deci)) 10"

definition from_celsius :: "f32 \<Rightarrow> deci_celsius" where
  "from_celsius celsius = word_of_int (trunc (fmul celsius 10))"

section \<open>Properties\<close>

text \<open>
  While the 64-bit microsecond counter does not overflow, advancing it by one millisecond
  advances the 32-bit millisecond clock by exactly one, also across its wrap-around.
\<close>

lemma to_millis_advance:
  assumes "unat us + 1000 < 2 ^ 64"
  shows "to_millis (us + 1000) = to_millis us + 1"
proof -
  have "to_millis t = of_nat (unat (t div 1000))" for t
    by (simp add: to_millis_def)
  then have "to_millis t = of_nat (unat t div 1000)" for t
    by (simp only: unat_div) simp
  moreover have "unat (us + 1000) div 1000 = unat us div 1000 + 1"
    using assms by (simp add: unat_word_ariths)
  ultimately show ?thesis by simp
qed

lemma from_to_celsius [simp]: "from_celsius (to_celsius d) = d"
proof -
  obtain s where s: "sint d = s" "\<bar>s\<bar> \<le> 2 ^ 15"
    using sint_16_bound[of d] by simp
  then have "fmul (to_celsius d) 10 = of_int s"
    by (simp add: to_celsius_def f32_ops rnd_ten_cancel del: of_int_sint)
  then have "from_celsius (to_celsius d) = word_of_int s" by (simp add: from_celsius_def)
  then show ?thesis using s(1)[symmetric] by simp
qed

text \<open>The range of cooking temperatures survives the conversion.\<close>

lemma from_celsius_cooking:
  assumes "37 \<le> x" "x \<le> 160"
  shows "370 \<le> sint (from_celsius x) \<and> sint (from_celsius x) \<le> 1600"
proof -
  have "of_int 370 \<le> rnd (x * 10)" using assms by (intro b32.rd_ge) simp_all
  moreover have "rnd (x * 10) \<le> of_int 1600" using assms by (intro b32.rd_le) simp_all
  ultimately have "370 \<le> trunc (rnd (x * 10))" "trunc (rnd (x * 10)) \<le> 1600"
    using trunc_mono[of "of_int 370" "rnd (x * 10)"] trunc_mono[of "rnd (x * 10)" "of_int 1600"] by simp_all
  then show ?thesis
    unfolding from_celsius_def f32_ops by (simp add: sint_sbintrunc' signed_take_bit_int_eq_self)
qed

text \<open>
  Converting a 16-bit deci-degree reading to \<open>float\<close> degrees and back gives the reading
  itself, so the telemetry that \<open>SafetyMcu\<close> derives from its \<open>float\<close> input reports exactly what
  the sensor returned, although the cast truncates.
\<close>

theorem celsius_roundtrip: "from_celsius (to_celsius d) = d"
  by (rule from_to_celsius)

text \<open>Comparisons of a converted temperature with whole degrees are exact.\<close>

lemma rnd_sixteenth: "\<bar>n\<bar> \<le> 100000 \<Longrightarrow> rnd (of_int n / 16) = of_int n / 16"
  by (rule rnd_grid[of _ n "- 4"]) (simp_all add: power_int_minus_divide)

lemma rnd_tenth_less:
  assumes "\<bar>n\<bar> \<le> 4000"
  shows "rnd (of_int s / 10) < of_int n \<longleftrightarrow> s < 10 * n"
proof
  assume "rnd (of_int s / 10) < of_int n"
  then have "\<not> of_int n \<le> (of_int s / 10 :: rat)"
    using b32.rd_ge[of n "of_int s / 10"] assms by auto
  then have "(of_int s :: rat) < of_int (10 * n)" by simp
  then show "s < 10 * n" by (simp only: of_int_less_iff)
next
  assume "s < 10 * n"
  then have "(of_int s :: rat) \<le> of_int (10 * n - 1)" by (simp only: of_int_le_iff)
  then have "(of_int s / 10 :: rat) \<le> of_int (16 * n - 1) / 16" by simp
  then have "rnd (of_int s / 10) \<le> rnd (of_int (16 * n - 1) / 16)" by (rule b32.rd_mono)
  also have "\<dots> = of_int (16 * n - 1) / 16" using assms by (intro rnd_sixteenth) simp
  also have "\<dots> < of_int n" by simp
  finally show "rnd (of_int s / 10) < of_int n" .
qed

lemma rnd_tenth_greater:
  assumes "\<bar>n\<bar> \<le> 4000"
  shows "of_int n < rnd (of_int s / 10) \<longleftrightarrow> 10 * n < s"
  using rnd_tenth_less[of "- n" "- s"] assms by (simp add: b32.rd_odd)

lemma to_celsius_alt: "to_celsius d = rnd (of_int (sint d) / 10)"
proof -
  have "\<bar>sint d\<bar> \<le> 2 ^ 24" using sint_16_bound[of d] by simp
  then show ?thesis by (simp only: to_celsius_def f32_ops float_of_small)
qed

lemma to_celsius_less: "\<bar>n\<bar> \<le> 4000 \<Longrightarrow> to_celsius d < of_int n \<longleftrightarrow> sint d < 10 * n"
  by (simp only: to_celsius_alt rnd_tenth_less)

lemma to_celsius_greater: "\<bar>n\<bar> \<le> 4000 \<Longrightarrow> of_int n < to_celsius d \<longleftrightarrow> 10 * n < sint d"
  by (simp only: to_celsius_alt rnd_tenth_greater)

end
