(* ===== verification/C1link.thy ===== *)
theory C1link
  imports Common
begin

text \<open>
  \<open>src/protocol/c1link.h\<close>: the vocabulary of the C1-Link protocol. An \<open>enum class\<close> over
  \<open>uint8_t\<close> can hold every byte; \<open>MsgOther\<close> and \<open>FaultOther\<close> stand for the values without an
  enumerator, so that the casts of the parser and the client are total. Multi-byte fields are
  little-endian; a \<open>put\<close> function is modelled by the bytes it stores.
\<close>

section \<open>Constants\<close>

definition kSync0 :: u8 where [limit_defs]: "kSync0 = 0xA5"
definition kSync1 :: u8 where [limit_defs]: "kSync1 = 0x5A"
definition kVersion :: u8 where [limit_defs]: "kVersion = 0x10"
definition kMaxPayload :: nat where [limit_defs]: "kMaxPayload = 250"
definition kHeaderSize :: nat where [limit_defs]: "kHeaderSize = 8"
definition kCrcSize :: nat where [limit_defs]: "kCrcSize = 2"
definition kMaxFrameSize :: nat where [limit_defs]: "kMaxFrameSize = kHeaderSize + kMaxPayload + kCrcSize"
definition kTelemetryPayloadSize :: nat where [limit_defs]: "kTelemetryPayloadSize = 13"

definition kRampGentle :: u8 where [limit_defs]: "kRampGentle = 0"
definition kRampNormal :: u8 where [limit_defs]: "kRampNormal = 1"
definition kRampFast :: u8 where [limit_defs]: "kRampFast = 2"
definition kRampBurst :: u8 where [limit_defs]: "kRampBurst = 3"

definition kFlagLidClosed :: u8 where [limit_defs]: "kFlagLidClosed = 0x01"
definition kFlagLidLocked :: u8 where [limit_defs]: "kFlagLidLocked = 0x02"
definition kFlagHeaterOn :: u8 where [limit_defs]: "kFlagHeaterOn = 0x04"
definition kFlagMotorStalled :: u8 where [limit_defs]: "kFlagMotorStalled = 0x08"

section \<open>Enumerations\<close>

datatype frame_type = FtRequest | FtResponse | FtTelemetry | FtNack

fun byte_of_frame_type :: "frame_type \<Rightarrow> u8" where
  "byte_of_frame_type FtRequest = 0x01"
| "byte_of_frame_type FtResponse = 0x02"
| "byte_of_frame_type FtTelemetry = 0x03"
| "byte_of_frame_type FtNack = 0x04"

text \<open>The parser casts only bytes from 1 to 4 to a frame type.\<close>

definition frame_type_of_byte :: "u8 \<Rightarrow> frame_type" where
  "frame_type_of_byte b =
     (if b = 0x01 then FtRequest else if b = 0x02 then FtResponse
      else if b = 0x03 then FtTelemetry else FtNack)"

datatype msg_id =
  Ping | GetVersion | MotorSetTarget | MotorStop | HeaterSetTarget | HeaterOff | ScaleTare
  | ScaleRead | LidLock | LidUnlock | MsgTelemetry | MsgFault | MsgOther u8

fun byte_of_msg_id :: "msg_id \<Rightarrow> u8" where
  "byte_of_msg_id Ping = 0x01"
| "byte_of_msg_id GetVersion = 0x02"
| "byte_of_msg_id MotorSetTarget = 0x10"
| "byte_of_msg_id MotorStop = 0x11"
| "byte_of_msg_id HeaterSetTarget = 0x20"
| "byte_of_msg_id HeaterOff = 0x21"
| "byte_of_msg_id ScaleTare = 0x30"
| "byte_of_msg_id ScaleRead = 0x31"
| "byte_of_msg_id LidLock = 0x40"
| "byte_of_msg_id LidUnlock = 0x41"
| "byte_of_msg_id MsgTelemetry = 0x80"
| "byte_of_msg_id MsgFault = 0x81"
| "byte_of_msg_id (MsgOther b) = b"

definition named_msg_ids :: "msg_id list" where
  "named_msg_ids = [Ping, GetVersion, MotorSetTarget, MotorStop, HeaterSetTarget, HeaterOff,
     ScaleTare, ScaleRead, LidLock, LidUnlock, MsgTelemetry, MsgFault]"

definition msg_id_of_byte :: "u8 \<Rightarrow> msg_id" where
  "msg_id_of_byte b =
     (case find (\<lambda>m. byte_of_msg_id m = b) named_msg_ids of Some m \<Rightarrow> m | None \<Rightarrow> MsgOther b)"

text \<open>A message id as the parser produces it: \<open>MsgOther\<close> never hides a named one.\<close>

definition wf_msg_id :: "msg_id \<Rightarrow> bool" where
  "wf_msg_id m \<longleftrightarrow> msg_id_of_byte (byte_of_msg_id m) = m"

datatype fault_code =
  FaultNone | Overtemp | MotorStall | SensorFailure | LinkLost | FaultOther u8

fun byte_of_fault :: "fault_code \<Rightarrow> u8" where
  "byte_of_fault FaultNone = 0"
| "byte_of_fault Overtemp = 1"
| "byte_of_fault MotorStall = 2"
| "byte_of_fault SensorFailure = 3"
| "byte_of_fault LinkLost = 4"
| "byte_of_fault (FaultOther b) = b"

definition fault_of_byte :: "u8 \<Rightarrow> fault_code" where
  "fault_of_byte b =
     (if b = 0 then FaultNone else if b = 1 then Overtemp else if b = 2 then MotorStall
      else if b = 3 then SensorFailure else if b = 4 then LinkLost else FaultOther b)"

lemma frame_type_of_byte_inverse [enum_simps, simp]: "frame_type_of_byte (byte_of_frame_type t) = t"
  by (cases t) (simp_all add: frame_type_of_byte_def)

lemma byte_of_frame_type_of_byte:
  "1 \<le> b \<Longrightarrow> b \<le> 4 \<Longrightarrow> byte_of_frame_type (frame_type_of_byte b) = b"
proof -
  assume "1 \<le> b" "b \<le> 4"
  then have "unat b = 1 \<or> unat b = 2 \<or> unat b = 3 \<or> unat b = 4"
    by (auto simp: word_le_nat_alt)
  then show ?thesis by (auto simp: frame_type_of_byte_def word_unat_eq_iff)
qed

lemma byte_of_frame_type_range: "1 \<le> byte_of_frame_type t \<and> byte_of_frame_type t \<le> 4"
  by (cases t) simp_all

lemma byte_of_msg_id_of_byte [enum_simps, simp]: "byte_of_msg_id (msg_id_of_byte b) = b"
  by (auto simp: msg_id_of_byte_def find_Some_iff split: option.splits)

lemma wf_msg_id_of_byte [simp]: "wf_msg_id (msg_id_of_byte b)"
  by (simp add: wf_msg_id_def)

lemma wf_named: "m \<in> set named_msg_ids \<Longrightarrow> wf_msg_id m"
  by (auto simp: named_msg_ids_def wf_msg_id_def msg_id_of_byte_def)

lemma fault_of_byte_inverse [enum_simps]: "(\<And>b. f \<noteq> FaultOther b) \<Longrightarrow> fault_of_byte (byte_of_fault f) = f"
  by (cases f) (simp_all add: fault_of_byte_def)

section \<open>Frames\<close>

text \<open>\<open>Frame\<close>: the payload array always has \<open>kMaxPayload\<close> bytes, of which \<open>payload_len\<close> count.\<close>

record frame =
  f_type :: frame_type
  f_seq :: u8
  f_msg :: msg_id
  f_len :: u16
  f_payload :: "u8 list"

definition frame_init :: frame where
  "frame_init = \<lparr>f_type = FtRequest, f_seq = 0, f_msg = Ping, f_len = 0,
     f_payload = replicate kMaxPayload 0\<rparr>"

definition payload_bytes :: "frame \<Rightarrow> u8 list" where
  "payload_bytes f = take (unat (f_len f)) (f_payload f)"

section \<open>Little-endian fields\<close>

definition put_u16 :: "u16 \<Rightarrow> u8 list" where
  "put_u16 v = [ucast (v AND 0xFF), ucast (drop_bit 8 v)]"

definition get_u16 :: "u8 list \<Rightarrow> u16" where
  "get_u16 p = ucast (p ! 0) OR push_bit 8 (ucast (p ! 1))"

definition put_i16 :: "i16 \<Rightarrow> u8 list" where
  "put_i16 v = put_u16 v"

definition get_i16 :: "u8 list \<Rightarrow> i16" where
  "get_i16 p = get_u16 p"

definition put_u32 :: "u32 \<Rightarrow> u8 list" where
  "put_u32 v = [ucast (v AND 0xFF), ucast (drop_bit 8 v AND 0xFF), ucast (drop_bit 16 v AND 0xFF),
     ucast (drop_bit 24 v)]"

definition get_u32 :: "u8 list \<Rightarrow> u32" where
  "get_u32 p = ucast (p ! 0) OR push_bit 8 (ucast (p ! 1)) OR push_bit 16 (ucast (p ! 2)) OR
     push_bit 24 (ucast (p ! 3))"

definition put_i32 :: "i32 \<Rightarrow> u8 list" where
  "put_i32 v = put_u32 v"

definition get_i32 :: "u8 list \<Rightarrow> i32" where
  "get_i32 p = get_u32 p"

lemma length_put [simp]:
  "length (put_u16 v) = 2" "length (put_i16 v) = 2" "length (put_u32 w) = 4" "length (put_i32 w) = 4"
  by (simp_all add: put_u16_def put_i16_def put_u32_def put_i32_def)

lemma get_put_u16: "get_u16 (put_u16 v @ rest) = v"
proof (rule bit_word_eqI)
  fix n assume n: "n < LENGTH(16)"
  consider "n < 8" | "8 \<le> n" by linarith
  then show "bit (get_u16 (put_u16 v @ rest)) n = bit v n"
    by cases (use n in \<open>auto simp: get_u16_def put_u16_def bit_simps bit_0xFF\<close>)
qed

lemma get_put_u32: "get_u32 (put_u32 v @ rest) = v"
proof (rule bit_word_eqI)
  fix n assume n: "n < LENGTH(32)"
  consider "n < 8" | "8 \<le> n" "n < 16" | "16 \<le> n" "n < 24" | "24 \<le> n" by linarith
  then show "bit (get_u32 (put_u32 v @ rest)) n = bit v n"
    by cases (use n in \<open>auto simp: get_u32_def put_u32_def bit_simps bit_0xFF\<close>)
qed

text \<open>A two-byte field is determined by its bytes.\<close>

lemma put_get_u16: "put_u16 (ucast lo OR push_bit 8 (ucast hi)) = [lo, hi]"
proof -
  have "ucast ((ucast lo OR push_bit 8 (ucast hi) :: u16) AND 0xFF) = lo"
    by (rule bit_word_eqI) (auto simp: bit_simps bit_0xFF)
  moreover have "ucast (drop_bit 8 (ucast lo OR push_bit 8 (ucast hi) :: u16)) = hi"
    by (rule bit_word_eqI) (auto simp: bit_simps dest: bit_imp_le_length)
  ultimately show ?thesis by (simp add: put_u16_def)
qed

lemma get_u16_pair: "put_u16 v = [lo, hi] \<Longrightarrow> ucast lo OR push_bit 8 (ucast hi) = v"
  using get_put_u16[of v "[]"] by (simp add: get_u16_def)

section \<open>Telemetry\<close>

record telemetry_data =
  td_tick :: u32
  td_deci_celsius :: deci_celsius
  td_rpm :: rpm
  td_grams :: grams
  td_flags :: u8

definition encode_telemetry :: "telemetry_data \<Rightarrow> u8 list" where
  "encode_telemetry data = put_u32 (td_tick data) @ put_i16 (td_deci_celsius data) @
     put_u16 (td_rpm data) @ put_i32 (td_grams data) @ [td_flags data]"

lemma length_encode_telemetry [simp]: "length (encode_telemetry data) = kTelemetryPayloadSize"
  by (simp add: encode_telemetry_def kTelemetryPayloadSize_def)

text \<open>
  The telemetry payload has thirteen bytes and reading each field at its offset, as the
  application does, returns the value that was encoded, signed fields included.
\<close>

theorem telemetry_roundtrip:
  "length (encode_telemetry data) = 13 \<and>
   get_u32 (encode_telemetry data @ rest) = td_tick data \<and>
   get_i16 (drop 4 (encode_telemetry data @ rest)) = td_deci_celsius data \<and>
   get_u16 (drop 6 (encode_telemetry data @ rest)) = td_rpm data \<and>
   get_i32 (drop 8 (encode_telemetry data @ rest)) = td_grams data \<and>
   (encode_telemetry data @ rest) ! 12 = td_flags data"
  by (simp add: encode_telemetry_def get_i16_def put_i16_def get_i32_def put_i32_def get_put_u16
      get_put_u32 nth_append)

end
