(* ===== verification/Crc16.thy ===== *)
theory Crc16
  imports Prelude
begin

text \<open>
  \<open>src/common/crc16.cpp\<close>: the bitwise CRC-16/CCITT of C1-Link (polynomial \<open>0x1021\<close>, seed
  \<open>0xFFFF\<close>). Shown here: a checksum can be computed in pieces, the bit step is linear and
  injective, and therefore damage confined to two adjacent bytes always changes the checksum.
\<close>

section \<open>Definitions\<close>

text \<open>One turn of the inner loop, one turn of the outer loop, the whole loop.\<close>

definition crc16_bit :: "u16 \<Rightarrow> u16" where
  "crc16_bit crc =
     (if crc AND 0x8000 \<noteq> 0 then push_bit 1 crc XOR 0x1021 else push_bit 1 crc)"

definition crc16_byte :: "u16 \<Rightarrow> u8 \<Rightarrow> u16" where
  "crc16_byte crc byte = (crc16_bit ^^ 8) (crc XOR push_bit 8 (ucast byte))"

primrec crc16_ccitt :: "u8 list \<Rightarrow> u16 \<Rightarrow> u16" where
  "crc16_ccitt [] crc = crc"
| "crc16_ccitt (byte # data) crc = crc16_ccitt data (crc16_byte crc byte)"

section \<open>Algebra of the bit step\<close>

lemma crc16_ccitt_append [simp]:
  "crc16_ccitt (xs @ ys) crc = crc16_ccitt ys (crc16_ccitt xs crc)"
  by (induction xs arbitrary: crc) simp_all

lemma top_bit: "crc AND 0x8000 \<noteq> 0 \<longleftrightarrow> bit crc 15" for crc :: u16
proof -
  have "(0x8000 :: u16) = 2 ^ 15" by simp
  then show ?thesis by (simp only: and_exp_eq_0_iff_not_bit) simp
qed

lemma crc16_bit_alt: "crc16_bit crc = push_bit 1 crc XOR (if bit crc 15 then 0x1021 else 0)"
  by (simp add: crc16_bit_def top_bit)

lemma crc16_bit_xor: "crc16_bit (a XOR b) = crc16_bit a XOR crc16_bit b"
  by (simp add: crc16_bit_alt bit_xor_iff push_bit_xor xor.assoc xor.left_commute)

lemma crc16_bit_inj: "crc16_bit a = crc16_bit b \<longleftrightarrow> a = b"
proof
  assume eq: "crc16_bit a = crc16_bit b"
  have b0: "bit (crc16_bit c) 0 = bit c 15" for c
    by (simp add: crc16_bit_alt bit_simps bit_0 even_xor_iff)
  have top: "bit a 15 = bit b 15" using eq b0 by metis
  then have sh: "push_bit 1 a = push_bit 1 b"
    using eq by (auto simp: crc16_bit_alt split: if_splits)
  show "a = b"
  proof (rule bit_word_eqI)
    fix n assume n: "n < LENGTH(16)"
    show "bit a n = bit b n"
    proof (cases "n = 15")
      case False
      have "bit (push_bit 1 a) (Suc n) = bit (push_bit 1 b) (Suc n)" by (simp only: sh)
      then show ?thesis using n False unfolding bit_push_bit_iff by simp
    qed (simp add: top)
  qed
qed simp

lemma crc16_pow_xor: "(crc16_bit ^^ n) (a XOR b) = (crc16_bit ^^ n) a XOR (crc16_bit ^^ n) b"
  by (induction n) (simp_all add: crc16_bit_xor)

lemma crc16_pow_inj: "(crc16_bit ^^ n) a = (crc16_bit ^^ n) b \<longleftrightarrow> a = b"
  by (induction n) (simp_all add: crc16_bit_inj)

lemma crc16_pow_low: "n \<le> 8 \<Longrightarrow> (crc16_bit ^^ n) (ucast (b :: u8)) = push_bit n (ucast b)"
proof (induction n)
  case (Suc n)
  have "\<not> bit (push_bit n (ucast b) :: u16) 15" using Suc.prems
    by (auto simp: bit_simps dest: bit_imp_le_length)
  then show ?case using Suc by (simp add: crc16_bit_alt push_bit_double)
qed simp

lemma crc16_ccitt_inj_seed: "crc16_ccitt data a = crc16_ccitt data b \<longleftrightarrow> a = b"
  by (induction data arbitrary: a b) (simp_all add: crc16_byte_def crc16_pow_inj)

lemma crc16_two_bytes:
  "crc16_ccitt [b1, b2] crc = (crc16_bit ^^ 16) (crc XOR (push_bit 8 (ucast b1) XOR ucast b2))"
proof -
  have "crc16_ccitt [b1, b2] crc
      = (crc16_bit ^^ 8) ((crc16_bit ^^ 8) (crc XOR push_bit 8 (ucast b1)) XOR (crc16_bit ^^ 8) (ucast b2))"
    by (simp add: crc16_byte_def crc16_pow_low)
  also have "\<dots> = (crc16_bit ^^ (8 + 8)) (crc XOR push_bit 8 (ucast b1) XOR ucast b2)"
    by (simp only: crc16_pow_xor funpow_add comp_apply xor.assoc)
  finally show ?thesis by (simp add: xor.assoc)
qed

lemma byte_pair_inj:
  fixes a b c d :: u8
  assumes "push_bit 8 (ucast a) XOR ucast b = (push_bit 8 (ucast c) XOR ucast d :: u16)"
  shows "a = c" "b = d"
proof -
  have bits: "bit (push_bit 8 (ucast a) XOR ucast b :: u16) n =
        bit (push_bit 8 (ucast c) XOR ucast d :: u16) n" for n
    using assms by simp
  show "b = d"
  proof (rule bit_word_eqI)
    fix n assume "n < LENGTH(8)"
    then show "bit b n = bit d n" using bits[of n] by (simp add: bit_simps)
  qed
  show "a = c"
  proof (rule bit_word_eqI)
    fix n assume "n < LENGTH(8)"
    then show "bit a n = bit c n" using bits[of "n + 8"]
      by (auto simp: bit_simps dest: bit_imp_le_length)
  qed
qed

lemma crc16_byte_unfold:
  "crc16_byte crc byte = crc16_bit (crc16_bit (crc16_bit (crc16_bit (crc16_bit (crc16_bit (crc16_bit (crc16_bit (crc XOR push_bit 8 (ucast byte)))))))))"
  by (simp add: crc16_byte_def eval_nat_numeral)

section \<open>Properties\<close>

text \<open>The published check value of CRC-16/CCITT-FALSE, on the nine ASCII digits.\<close>

theorem crc16_ccitt_check:
  "crc16_ccitt [0x31, 0x32, 0x33, 0x34, 0x35, 0x36, 0x37, 0x38, 0x39] 0xFFFF = 0x29B1"
  by (simp add: crc16_byte_unfold crc16_bit_def)

text \<open>
  C39: two data blocks that agree except in two adjacent bytes have different checksums, from any
  seed: every burst of at most sixteen bits inside a byte pair is detected.
\<close>

theorem crc16_detects_byte_pair:
  assumes "(b1, b2) \<noteq> (c1, c2)"
  shows "crc16_ccitt (pre @ [b1, b2] @ post) seed \<noteq> crc16_ccitt (pre @ [c1, c2] @ post) seed"
proof
  assume "crc16_ccitt (pre @ [b1, b2] @ post) seed = crc16_ccitt (pre @ [c1, c2] @ post) seed"
  then have "crc16_ccitt [b1, b2] (crc16_ccitt pre seed) = crc16_ccitt [c1, c2] (crc16_ccitt pre seed)"
    by (simp only: crc16_ccitt_append crc16_ccitt_inj_seed)
  then have "push_bit 8 (ucast b1) XOR ucast b2 = (push_bit 8 (ucast c1) XOR ucast c2 :: u16)"
    by (simp only: crc16_two_bytes crc16_pow_inj word_xor_cancel_left)
  with assms show False using byte_pair_inj by blast
qed

theorem crc16_detects_byte_pair_witness:
  "(1 :: u8, 2 :: u8) \<noteq> (1, 3) \<and>
   crc16_ccitt ([7] @ [1, 2] @ [9]) 0xFFFF \<noteq> crc16_ccitt ([7] @ [1, 3] @ [9]) 0xFFFF"
proof -
  have h: "(1 :: u8, 2 :: u8) \<noteq> (1, 3)" by simp
  show ?thesis using h crc16_detects_byte_pair[OF h, of "[7]" "[9]" "0xFFFF"] by blast
qed

end
