(* ===== verification/Frame_Codec.thy ===== *)
theory Frame_Codec
  imports C1link Crc16
begin

text \<open>
  \<open>src/protocol/frame_writer.cpp\<close> and \<open>src/protocol/frame_parser.cpp\<close>. The parser is the byte-fed
  state machine of the source. Shown here: an accepted frame is always backed by a complete,
  correctly checksummed frame at the end of the byte stream (soundness), every written frame is
  accepted and reproduced (completeness), and the payload array is never overrun.
\<close>

section \<open>Writer\<close>

text \<open>
  The bytes stored in the caller's buffer; the empty list stands for the return value 0. The
  payload pointer and its length are the list \<open>data\<close>.
\<close>

definition frame_body :: "u8 \<Rightarrow> frame_type \<Rightarrow> u8 \<Rightarrow> msg_id \<Rightarrow> u8 list \<Rightarrow> u8 list" where
  "frame_body version ft seq msg data =
     [version, byte_of_frame_type ft, seq, byte_of_msg_id msg] @ put_u16 (of_nat (length data)) @ data"

definition write_frame :: "nat \<Rightarrow> frame_type \<Rightarrow> u8 \<Rightarrow> msg_id \<Rightarrow> u8 list \<Rightarrow> u8 list" where
  "write_frame out_cap ft seq msg data =
     (if length data > kMaxPayload \<or> out_cap < kHeaderSize + length data + kCrcSize then []
      else let body = frame_body kVersion ft seq msg data
           in [kSync0, kSync1] @ body @ put_u16 (crc16_ccitt body 0xFFFF))"

section \<open>Parser\<close>

datatype parser_state =
  PSync0 | PSync1 | PVersion | PType | PSeq | PMsgId | PLenLo | PLenHi | PPayload | PCrcLo | PCrcHi

record frame_parser =
  p_state :: parser_state
  p_frame :: frame
  p_expected :: u16
  p_received :: u16
  p_crc_lo :: u8
  p_crc :: u16

definition parser_init :: frame_parser where
  "parser_init = \<lparr>p_state = PSync0, p_frame = frame_init, p_expected = 0, p_received = 0,
     p_crc_lo = 0, p_crc = 0xFFFF\<rparr>"

definition in_progress :: "frame_parser \<Rightarrow> bool" where
  "in_progress p \<longleftrightarrow> p_state p \<noteq> PSync0"

definition parser_reset :: "frame_parser \<Rightarrow> frame_parser" where
  "parser_reset p = p\<lparr>p_state := PSync0, p_expected := 0, p_received := 0, p_crc := 0xFFFF\<rparr>"

definition resync :: "u8 \<Rightarrow> frame_parser \<Rightarrow> frame_parser" where
  "resync byte p =
     (let q = parser_reset p in if byte = kSync0 then q\<lparr>p_state := PSync1\<rparr> else q)"

text \<open>
  The running checksum covers every byte except sync and checksum bytes; \<open>feed\<close> updates it before
  it looks at the state. The flag \<open>has_out\<close> says that the caller passed a frame to fill.
\<close>

definition feed_crc :: "u8 \<Rightarrow> frame_parser \<Rightarrow> frame_parser" where
  "feed_crc byte p =
     (if p_state p \<noteq> PSync0 \<and> p_state p \<noteq> PSync1 \<and> p_state p \<noteq> PCrcLo \<and> p_state p \<noteq> PCrcHi
      then p\<lparr>p_crc := crc16_ccitt [byte] (p_crc p)\<rparr> else p)"

definition feed :: "bool \<Rightarrow> u8 \<Rightarrow> frame_parser \<Rightarrow> frame option \<times> frame_parser" where
  "feed has_out byte p0 =
     (let p = feed_crc byte p0
      in case p_state p of
           PSync0 \<Rightarrow> (None, if byte = kSync0 then p\<lparr>p_state := PSync1\<rparr> else p)
         | PSync1 \<Rightarrow> (None, p\<lparr>p_state := if byte = kSync1 then PVersion
                                    else if byte = kSync0 then PSync1 else PSync0\<rparr>)
         | PVersion \<Rightarrow> (None, if byte AND 0xF0 \<noteq> kVersion AND 0xF0 then resync byte p
                             else p\<lparr>p_state := PType\<rparr>)
         | PType \<Rightarrow> (None, if byte < 0x01 \<or> byte > 0x04 then resync byte p
                          else p\<lparr>p_frame := (p_frame p)\<lparr>f_type := frame_type_of_byte byte\<rparr>,
                                 p_state := PSeq\<rparr>)
         | PSeq \<Rightarrow> (None, p\<lparr>p_frame := (p_frame p)\<lparr>f_seq := byte\<rparr>, p_state := PMsgId\<rparr>)
         | PMsgId \<Rightarrow> (None, p\<lparr>p_frame := (p_frame p)\<lparr>f_msg := msg_id_of_byte byte\<rparr>,
                              p_state := PLenLo\<rparr>)
         | PLenLo \<Rightarrow> (None, p\<lparr>p_expected := ucast byte, p_state := PLenHi\<rparr>)
         | PLenHi \<Rightarrow>
             (let expected = p_expected p OR push_bit 8 (ucast byte)
              in (None, if unat expected > kMaxPayload then resync byte (p\<lparr>p_expected := expected\<rparr>)
                        else p\<lparr>p_expected := expected, p_received := 0,
                               p_state := if expected = 0 then PCrcLo else PPayload\<rparr>))
         | PPayload \<Rightarrow>
             (let data = if unat (p_received p) < kMaxPayload
                         then (f_payload (p_frame p))[unat (p_received p) := byte]
                         else f_payload (p_frame p);
                  received = p_received p + 1
              in (None, p\<lparr>p_frame := (p_frame p)\<lparr>f_payload := data\<rparr>, p_received := received,
                         p_state := if received = p_expected p then PCrcLo else PPayload\<rparr>))
         | PCrcLo \<Rightarrow> (None, p\<lparr>p_crc_lo := byte, p_state := PCrcHi\<rparr>)
         | PCrcHi \<Rightarrow>
             (let wire_crc = ucast (p_crc_lo p) OR push_bit 8 (ucast byte)
              in if p_crc p \<noteq> wire_crc then (None, resync byte p)
                 else let f = (p_frame p)\<lparr>f_len := p_expected p\<rparr>;
                          q = parser_reset (p\<lparr>p_frame := f\<rparr>)
                      in if has_out then (Some f, q) else (None, q)))"

text \<open>Feeding a block of bytes; the frames completed on the way, in order.\<close>

fun feed_all :: "u8 list \<Rightarrow> frame_parser \<Rightarrow> frame list \<times> frame_parser" where
  "feed_all [] p = ([], p)"
| "feed_all (b # bs) p =
     (case feed True b p of
        (out, p') \<Rightarrow> (case feed_all bs p' of
                       (fs, p'') \<Rightarrow> ((case out of None \<Rightarrow> fs | Some f \<Rightarrow> f # fs), p'')))"

section \<open>Soundness\<close>

text \<open>
  The parser invariant relates the state to the bytes \<open>bs\<close> received so far: from \<open>PVersion\<close> on,
  the stream ends with the sync bytes and the part of the frame body that was consumed, and the
  running checksum is the checksum of that part.
\<close>

definition consumed :: "u8 \<Rightarrow> frame_parser \<Rightarrow> u8 list" where
  "consumed v p =
     (let f = p_frame p; t = byte_of_frame_type (f_type f); m = byte_of_msg_id (f_msg f);
          len = put_u16 (p_expected p)
      in case p_state p of
           PType \<Rightarrow> [v]
         | PSeq \<Rightarrow> [v, t]
         | PMsgId \<Rightarrow> [v, t, f_seq f]
         | PLenLo \<Rightarrow> [v, t, f_seq f, m]
         | PLenHi \<Rightarrow> [v, t, f_seq f, m, ucast (p_expected p)]
         | PPayload \<Rightarrow> [v, t, f_seq f, m] @ len @ take (unat (p_received p)) (f_payload f)
         | PCrcLo \<Rightarrow> [v, t, f_seq f, m] @ len @ take (unat (p_expected p)) (f_payload f)
         | PCrcHi \<Rightarrow> [v, t, f_seq f, m] @ len @ take (unat (p_expected p)) (f_payload f)
         | _ \<Rightarrow> [])"

definition lengths_ok :: "frame_parser \<Rightarrow> bool" where
  "lengths_ok p \<longleftrightarrow> length (f_payload (p_frame p)) = kMaxPayload \<and>
     (p_state p = PLenHi \<longrightarrow> unat (p_expected p) < 256) \<and>
     (p_state p \<in> {PPayload, PCrcLo, PCrcHi} \<longrightarrow> unat (p_expected p) \<le> kMaxPayload) \<and>
     (p_state p = PPayload \<longrightarrow> p_received p < p_expected p)"

definition body_seen :: "u8 list \<Rightarrow> frame_parser \<Rightarrow> bool" where
  "body_seen bs p \<longleftrightarrow>
     (\<exists>pre v. bs = pre @ [kSync0, kSync1] @ consumed v p @
                (if p_state p = PCrcHi then [p_crc_lo p] else []) \<and>
              v AND 0xF0 = kVersion AND 0xF0 \<and> p_crc p = crc16_ccitt (consumed v p) 0xFFFF)"

definition parser_inv :: "u8 list \<Rightarrow> frame_parser \<Rightarrow> bool" where
  "parser_inv bs p \<longleftrightarrow> lengths_ok p \<and>
     (case p_state p of
        PSync0 \<Rightarrow> p_crc p = 0xFFFF
      | PSync1 \<Rightarrow> p_crc p = 0xFFFF \<and> (\<exists>pre. bs = pre @ [kSync0])
      | PVersion \<Rightarrow> p_crc p = 0xFFFF \<and> (\<exists>pre. bs = pre @ [kSync0, kSync1])
      | _ \<Rightarrow> body_seen bs p)"

text \<open>A stream that ends with a complete valid frame, and what the receiver is told about it.\<close>

definition ends_with_frame :: "u8 list \<Rightarrow> frame \<Rightarrow> bool" where
  "ends_with_frame bs f \<longleftrightarrow>
     (\<exists>pre v. let body = frame_body v (f_type f) (f_seq f) (f_msg f) (payload_bytes f)
              in v AND 0xF0 = kVersion AND 0xF0 \<and>
                 bs = pre @ [kSync0, kSync1] @ body @ put_u16 (crc16_ccitt body 0xFFFF))"

lemma parser_inv_init: "parser_inv [] parser_init"
  by (simp add: parser_inv_def lengths_ok_def parser_init_def frame_init_def)

lemma resync_inv: "length (f_payload (p_frame p)) = kMaxPayload \<Longrightarrow> parser_inv (bs @ [b]) (resync b p)"
  by (simp add: resync_def parser_inv_def parser_reset_def lengths_ok_def Let_def)

lemma reset_inv: "length (f_payload (p_frame p)) = kMaxPayload \<Longrightarrow> parser_inv bs (parser_reset p)"
  by (simp add: parser_inv_def parser_reset_def lengths_ok_def)

abbreviation body_states :: "parser_state set" where
  "body_states \<equiv> {PType, PSeq, PMsgId, PLenLo, PLenHi, PPayload, PCrcLo}"

lemma parser_inv_body:
  "p_state p \<in> body_states \<union> {PCrcHi} \<Longrightarrow> parser_inv bs p \<longleftrightarrow> lengths_ok p \<and> body_seen bs p"
  by (auto simp: parser_inv_def)

lemma parser_inv_lengths: "parser_inv bs p \<Longrightarrow> lengths_ok p"
  by (simp add: parser_inv_def)

text \<open>Consuming one body byte extends the consumed part and its checksum together.\<close>

lemma parser_inv_extend:
  assumes "parser_inv bs p" "p_state p \<in> body_states" "p_state q \<in> body_states" "lengths_ok q"
    "\<And>v. consumed v q = consumed v p @ [b]" "p_crc q = crc16_ccitt [b] (p_crc p)"
  shows "parser_inv (bs @ [b]) q"
proof -
  have "body_seen bs p" using assms(1,2) by (auto simp: parser_inv_body)
  then obtain pre v where "bs = pre @ [kSync0, kSync1] @ consumed v p"
    "v AND 0xF0 = kVersion AND 0xF0" "p_crc p = crc16_ccitt (consumed v p) 0xFFFF"
    using assms(2) by (auto simp: body_seen_def)
  then have "bs @ [b] = pre @ [kSync0, kSync1] @ consumed v q \<and> v AND 0xF0 = kVersion AND 0xF0 \<and>
      p_crc q = crc16_ccitt (consumed v q) 0xFFFF"
    using assms(5,6) by simp
  moreover have "p_state q \<noteq> PCrcHi" using assms(3) by auto
  ultimately have "body_seen (bs @ [b]) q" unfolding body_seen_def by auto
  then show ?thesis using assms(3,4) by (auto simp: parser_inv_body)
qed

lemmas feed_defs = feed_def feed_crc_def Let_def lengths_ok_def consumed_def

lemma feed_inv_sync:
  assumes "parser_inv bs p" "p_state p \<in> {PSync0, PSync1, PVersion}"
  shows "parser_inv (bs @ [b]) (snd (feed has_out b p))"
proof -
  have len: "length (f_payload (p_frame p)) = kMaxPayload"
    using parser_inv_lengths[OF assms(1)] by (simp add: lengths_ok_def)
  consider "p_state p = PSync0" | "p_state p = PSync1" | "p_state p = PVersion" using assms(2) by auto
  then show ?thesis
  proof cases
    case 3
    show ?thesis
    proof (cases "b AND 0xF0 = kVersion AND 0xF0")
      case True
      with 3 assms(1) show ?thesis by (auto simp: parser_inv_def body_seen_def feed_defs)
    next
      case False
      with 3 show ?thesis by (simp add: feed_defs resync_inv len)
    qed
  qed (use assms(1) in \<open>auto simp: parser_inv_def feed_defs\<close>)
qed

lemma feed_inv_header:
  assumes "parser_inv bs p" "p_state p \<in> {PType, PSeq, PMsgId, PLenLo}"
  shows "parser_inv (bs @ [b]) (snd (feed has_out b p))"
proof -
  have len: "length (f_payload (p_frame p)) = kMaxPayload"
    using parser_inv_lengths[OF assms(1)] by (simp add: lengths_ok_def)
  note ext = parser_inv_extend[OF assms(1)]
  consider "p_state p = PType" "b < 0x01 \<or> b > 0x04" | "p_state p = PType" "\<not> (b < 0x01 \<or> b > 0x04)"
    | "p_state p = PSeq" | "p_state p = PMsgId" | "p_state p = PLenLo"
    using assms(2) by blast
  then show ?thesis
  proof cases
    case 1
    then show ?thesis by (simp add: feed_def feed_crc_def Let_def resync_inv len)
  next
    case 2
    then have "1 \<le> b" "b \<le> 4" by (simp_all only: de_Morgan_disj not_less)
    with 2 show ?thesis by (intro ext) (simp_all add: feed_defs len byte_of_frame_type_of_byte)
  next
    case 3
    then show ?thesis by (intro ext) (simp_all add: feed_defs len)
  next
    case 4
    then show ?thesis by (intro ext) (simp_all add: feed_defs len)
  next
    case 5
    then show ?thesis by (intro ext) (simp_all add: feed_defs len unat_u8_bound)
  qed
qed

lemma feed_inv_len_hi:
  assumes "parser_inv bs p" "p_state p = PLenHi"
  shows "parser_inv (bs @ [b]) (snd (feed has_out b p))"
proof -
  have ok: "length (f_payload (p_frame p)) = kMaxPayload" "unat (p_expected p) < 256"
    using parser_inv_lengths[OF assms(1)] assms(2) by (simp_all add: lengths_ok_def)
  define lo :: u8 where "lo = ucast (p_expected p)"
  have lo: "p_expected p = ucast lo"
    using ok(2) by (simp add: lo_def ucast_u8_u16_inverse)
  show ?thesis
  proof (cases "unat (p_expected p OR push_bit 8 (ucast b)) > kMaxPayload")
    case True
    then show ?thesis using assms(2) by (simp add: feed_def feed_crc_def Let_def resync_inv ok)
  next
    case False
    then show ?thesis using assms(2) ok
      by (intro parser_inv_extend[OF assms(1)]) (simp_all add: feed_defs lo put_get_u16 word_gt_0)
  qed
qed

lemma received_step:
  fixes r e :: u16
  assumes "r < e" "unat e \<le> kMaxPayload"
  shows "unat (r + 1) = Suc (unat r)" "unat r < kMaxPayload" "r + 1 \<noteq> e \<Longrightarrow> r + 1 < e"
proof -
  have "unat r < unat e" using assms(1) by (simp add: word_less_nat_alt)
  then have s: "unat r + 1 < 2 ^ LENGTH(16)" using assms(2) by (simp add: limit_defs)
  then show u: "unat (r + 1) = Suc (unat r)" by (simp add: unat_word_ariths)
  show "unat r < kMaxPayload" using \<open>unat r < unat e\<close> assms(2) by simp
  assume "r + 1 \<noteq> e"
  then have "unat (r + 1) \<noteq> unat e" by (simp add: word_unat_eq_iff)
  then show "r + 1 < e" using u \<open>unat r < unat e\<close> by (simp add: word_less_nat_alt)
qed

lemma feed_inv_payload:
  assumes "parser_inv bs p" "p_state p = PPayload"
  shows "parser_inv (bs @ [b]) (snd (feed has_out b p))"
proof -
  have ok: "length (f_payload (p_frame p)) = kMaxPayload" "unat (p_expected p) \<le> kMaxPayload"
    "p_received p < p_expected p"
    using parser_inv_lengths[OF assms(1)] assms(2) by (simp_all add: lengths_ok_def)
  note r = received_step[OF ok(3,2)]
  have t: "take (Suc (unat (p_received p))) ((f_payload (p_frame p))[unat (p_received p) := b]) =
      take (unat (p_received p)) (f_payload (p_frame p)) @ [b]"
    using r(2) ok(1) by (intro take_Suc_snoc) simp
  show ?thesis
  proof (cases "p_received p + 1 = p_expected p")
    case True
    then have "unat (p_expected p) = Suc (unat (p_received p))" using r(1) by simp
    with True show ?thesis using assms(2) ok r(2) t
      by (intro parser_inv_extend[OF assms(1)]) (simp_all add: feed_defs)
  next
    case False
    then show ?thesis using assms(2) ok r t
      by (intro parser_inv_extend[OF assms(1)]) (simp_all add: feed_defs)
  qed
qed

lemma feed_inv_crc:
  assumes "parser_inv bs p" "p_state p \<in> {PCrcLo, PCrcHi}"
  shows "parser_inv (bs @ [b]) (snd (feed has_out b p))"
proof -
  have ok: "length (f_payload (p_frame p)) = kMaxPayload" "unat (p_expected p) \<le> kMaxPayload"
    using parser_inv_lengths[OF assms(1)] assms(2) by (auto simp: lengths_ok_def)
  show ?thesis
  proof (cases "p_state p = PCrcLo")
    case True
    then have "body_seen bs p" using assms(1) by (simp add: parser_inv_body)
    then have "body_seen (bs @ [b]) (p\<lparr>p_crc_lo := b, p_state := PCrcHi\<rparr>)"
      using True by (auto simp: body_seen_def consumed_def Let_def)
    then show ?thesis using True ok by (simp add: feed_def feed_crc_def parser_inv_body lengths_ok_def)
  next
    case False
    then show ?thesis using assms(2) ok
      by (simp add: feed_def feed_crc_def Let_def resync_inv reset_inv)
  qed
qed

lemma feed_inv: "parser_inv bs p \<Longrightarrow> parser_inv (bs @ [b]) (snd (feed has_out b p))"
  using feed_inv_sync feed_inv_header feed_inv_len_hi feed_inv_payload feed_inv_crc
  by (cases "p_state p") blast+

lemma feed_Some:
  assumes "feed has_out b p = (Some f, q)"
  shows "has_out" "p_state p = PCrcHi" "p_crc p = ucast (p_crc_lo p) OR push_bit 8 (ucast b)"
    "f = (p_frame p)\<lparr>f_len := p_expected p\<rparr>" "q = parser_reset (p\<lparr>p_frame := f\<rparr>)"
  using assms by (auto simp: feed_def feed_crc_def Let_def split: parser_state.splits if_splits)

lemma feed_sound:
  assumes "parser_inv bs p" "feed has_out b p = (Some f, q)"
  shows "ends_with_frame (bs @ [b]) f" "unat (f_len f) \<le> kMaxPayload" "length (f_payload f) = kMaxPayload"
proof -
  note s = feed_Some[OF assms(2)]
  have ok: "unat (p_expected p) \<le> kMaxPayload" "length (f_payload (p_frame p)) = kMaxPayload"
    and seen: "body_seen bs p"
    using assms(1) s(2) by (simp_all add: parser_inv_body lengths_ok_def)
  then show "unat (f_len f) \<le> kMaxPayload" "length (f_payload f) = kMaxPayload" by (simp_all add: s(4))
  have len: "length (payload_bytes f) = unat (p_expected p)"
    using ok by (simp add: payload_bytes_def s(4) min_def)
  have body: "consumed v p = frame_body v (f_type f) (f_seq f) (f_msg f) (payload_bytes f)" for v
    unfolding frame_body_def len by (simp add: consumed_def Let_def s(2) s(4) payload_bytes_def)
  have crc: "put_u16 (p_crc p) = [p_crc_lo p, b]" unfolding s(3) by (rule put_get_u16)
  from seen obtain pre v where "bs = pre @ [kSync0, kSync1] @ consumed v p @ [p_crc_lo p]"
    "v AND 0xF0 = kVersion AND 0xF0" "p_crc p = crc16_ccitt (consumed v p) 0xFFFF"
    using s(2) by (auto simp: body_seen_def)
  then show "ends_with_frame (bs @ [b]) f"
    unfolding ends_with_frame_def Let_def body[symmetric] using crc by fastforce
qed

section \<open>Completeness\<close>

lemma feed_all_append:
  "feed_all (xs @ ys) p =
     (case feed_all xs p of (fs, q) \<Rightarrow> case feed_all ys q of (gs, r) \<Rightarrow> (fs @ gs, r))"
  by (induction xs arbitrary: p) (auto split: prod.splits option.splits)

lemma feed_all_skip: "feed_all xs p = ([], q) \<Longrightarrow> feed_all (xs @ ys) p = feed_all ys q"
  by (simp add: feed_all_append split: prod.splits)

lemma feed_all_header:
  assumes "p_state p = PSync0" "p_crc p = 0xFFFF" "unat len \<le> kMaxPayload" "put_u16 len = [lo, hi]"
  shows "feed_all [kSync0, kSync1, kVersion, byte_of_frame_type ft, seq, m, lo, hi] p =
    ([], p\<lparr>p_frame := (p_frame p)\<lparr>f_type := ft, f_seq := seq, f_msg := msg_id_of_byte m\<rparr>,
            p_expected := len, p_received := 0,
            p_state := if len = 0 then PCrcLo else PPayload,
            p_crc := crc16_ccitt [kVersion, byte_of_frame_type ft, seq, m, lo, hi] 0xFFFF\<rparr>)"
proof -
  have len: "ucast lo OR push_bit 8 (ucast hi) = len" using assms(4) by (rule get_u16_pair)
  have ft: "\<not> (byte_of_frame_type ft < 1 \<or> byte_of_frame_type ft > 4)"
    using byte_of_frame_type_range[of ft] by auto
  have "\<not> kMaxPayload < unat len" using assms(3) by simp
  with ft len show ?thesis using assms(1,2) by (simp add: feed_def feed_crc_def Let_def)
qed

lemma blit_Suc: "r < length xs \<Longrightarrow> blit (xs[r := b]) (Suc r) bs = blit xs r (b # bs)"
  by (simp add: blit_def take_Suc_conv_app_nth)

lemma feed_all_payload:
  assumes "p_state p = PPayload" "data \<noteq> []" "unat (p_expected p) = unat (p_received p) + length data"
    "unat (p_expected p) \<le> kMaxPayload" "length (f_payload (p_frame p)) = kMaxPayload"
  shows "feed_all data p =
    ([], p\<lparr>p_frame := (p_frame p)\<lparr>f_payload := blit (f_payload (p_frame p)) (unat (p_received p)) data\<rparr>,
            p_received := p_expected p, p_state := PCrcLo, p_crc := crc16_ccitt data (p_crc p)\<rparr>)"
  using assms
proof (induction data arbitrary: p)
  case (Cons b data)
  have lt: "p_received p < p_expected p" using Cons.prems(3) by (simp add: word_less_nat_alt)
  note r = received_step[OF lt Cons.prems(4)]
  let ?q = "snd (feed True b p)"
  have q: "feed True b p = (None, ?q)"
    "?q = p\<lparr>p_frame := (p_frame p)\<lparr>f_payload := (f_payload (p_frame p))[unat (p_received p) := b]\<rparr>,
            p_received := p_received p + 1, p_crc := crc16_byte (p_crc p) b,
            p_state := if p_received p + 1 = p_expected p then PCrcLo else PPayload\<rparr>"
    using Cons.prems(1) r(2) by (simp_all add: feed_def feed_crc_def Let_def)
  show ?case
  proof (cases "data = []")
    case True
    then have "p_received p + 1 = p_expected p"
      using Cons.prems(3) r(1) by (simp add: word_unat_eq_iff)
    with True q r(2) Cons.prems(5) show ?thesis
      by (simp add: blit_def upd_conv_take_nth_drop)
  next
    case False
    then have "p_received p + 1 \<noteq> p_expected p"
      using Cons.prems(3) r(1) by (auto simp: word_unat_eq_iff)
    then have st: "p_state ?q = PPayload" using q(2) by simp
    have "feed_all data ?q = ([], ?q\<lparr>p_frame := (p_frame ?q)\<lparr>f_payload :=
        blit (f_payload (p_frame ?q)) (unat (p_received ?q)) data\<rparr>,
            p_received := p_expected ?q, p_state := PCrcLo, p_crc := crc16_ccitt data (p_crc ?q)\<rparr>)"
      using Cons.prems(3-5) False r(1) by (intro Cons.IH st) (simp_all add: q(2))
    moreover have "unat (p_received p + 1) = Suc (unat (p_received p))" by (rule r(1))
    ultimately show ?thesis using q r(2) Cons.prems(5) by (simp add: blit_Suc)
  qed
qed simp

lemma feed_crc_bytes:
  assumes "p_state p = PCrcLo" "put_u16 (p_crc p) = [lo, hi]"
  shows "feed True lo p = (None, p\<lparr>p_crc_lo := lo, p_state := PCrcHi\<rparr>)"
    "feed True hi (p\<lparr>p_crc_lo := lo, p_state := PCrcHi\<rparr>) =
      (Some ((p_frame p)\<lparr>f_len := p_expected p\<rparr>),
       parser_reset (p\<lparr>p_frame := (p_frame p)\<lparr>f_len := p_expected p\<rparr>, p_crc_lo := lo\<rparr>))"
proof -
  have "ucast lo OR push_bit 8 (ucast hi) = p_crc p" using assms(2) by (rule get_u16_pair)
  then show "feed True hi (p\<lparr>p_crc_lo := lo, p_state := PCrcHi\<rparr>) =
      (Some ((p_frame p)\<lparr>f_len := p_expected p\<rparr>),
       parser_reset (p\<lparr>p_frame := (p_frame p)\<lparr>f_len := p_expected p\<rparr>, p_crc_lo := lo\<rparr>))"
    by (simp add: feed_def feed_crc_def Let_def parser_reset_def)
qed (use assms in \<open>simp add: feed_def feed_crc_def Let_def\<close>)

definition parser_idle :: "frame_parser \<Rightarrow> bool" where
  "parser_idle p \<longleftrightarrow> p_state p = PSync0 \<and> p_crc p = 0xFFFF \<and> length (f_payload (p_frame p)) = kMaxPayload"

lemma parser_idle_iff: "parser_inv bs p \<Longrightarrow> parser_idle p \<longleftrightarrow> \<not> in_progress p"
  by (auto simp: parser_inv_def parser_idle_def in_progress_def lengths_ok_def split: parser_state.splits)

text \<open>The frame completes at the last of its bytes and at no earlier one.\<close>

lemma feed_write_frame:
  assumes idle: "parser_idle p" and len: "length data \<le> kMaxPayload"
    and cap: "kHeaderSize + length data + kCrcSize \<le> cap"
  shows "\<exists>bs b s f q. write_frame cap ft seq msg data = bs @ [b] \<and> feed_all bs p = ([], s) \<and>
    feed True b s = (Some f, q) \<and> parser_idle q \<and>
    f_type f = ft \<and> f_seq f = seq \<and> f_msg f = msg_id_of_byte (byte_of_msg_id msg) \<and>
    unat (f_len f) = length data \<and> payload_bytes f = data \<and> length (f_payload f) = kMaxPayload"
proof -
  define n :: u16 where "n = of_nat (length data)"
  have n: "unat n = length data" using len by (simp add: n_def unat_of_nat limit_defs)
  obtain lo hi where lh: "put_u16 n = [lo, hi]" by (simp add: put_u16_def)
  define hdr where "hdr = [kVersion, byte_of_frame_type ft, seq, byte_of_msg_id msg, lo, hi]"
  have body: "frame_body kVersion ft seq msg data = hdr @ data"
    using lh by (simp add: frame_body_def hdr_def flip: n_def)
  have w: "write_frame cap ft seq msg data =
      ([kSync0, kSync1] @ hdr) @ data @ put_u16 (crc16_ccitt (hdr @ data) 0xFFFF)"
    using len cap by (simp add: write_frame_def Let_def body)
  define q where "q = snd (feed_all ([kSync0, kSync1] @ hdr) p)"
  have q: "feed_all ([kSync0, kSync1] @ hdr) p = ([], q)"
    "q = p\<lparr>p_frame := (p_frame p)\<lparr>f_type := ft, f_seq := seq, f_msg := msg_id_of_byte (byte_of_msg_id msg)\<rparr>,
            p_expected := n, p_received := 0, p_state := if n = 0 then PCrcLo else PPayload,
            p_crc := crc16_ccitt hdr 0xFFFF\<rparr>"
    using feed_all_header[of p n lo hi ft seq "byte_of_msg_id msg"] idle n len lh
    by (simp_all add: parser_idle_def hdr_def q_def)
  define r where "r = snd (feed_all data q)"
  have r: "feed_all data q = ([], r)" "p_state r = PCrcLo" "p_crc r = crc16_ccitt (hdr @ data) 0xFFFF"
    "p_expected r = n" "f_type (p_frame r) = ft" "f_seq (p_frame r) = seq"
    "f_msg (p_frame r) = msg_id_of_byte (byte_of_msg_id msg)"
    "take (length data) (f_payload (p_frame r)) = data" "length (f_payload (p_frame r)) = kMaxPayload"
  proof (atomize (full), goal_cases)
    case 1
    show ?case
    proof (cases "data = []")
      case True
      then have "n = 0" by (simp add: n_def)
      then show ?thesis using True q(2) idle by (simp add: r_def parser_idle_def)
    next
      case False
      then have "n \<noteq> 0" using n by auto
      then show ?thesis using feed_all_payload[of q data] False q(2) idle n len
        by (simp add: r_def parser_idle_def blit_0)
    qed
  qed
  obtain clo chi where c: "put_u16 (p_crc r) = [clo, chi]" by (simp add: put_u16_def)
  let ?s = "r\<lparr>p_crc_lo := clo, p_state := PCrcHi\<rparr>"
  have "feed_all (([kSync0, kSync1] @ hdr) @ data @ [clo]) p = ([], ?s)"
    unfolding feed_all_skip[OF q(1)] feed_all_skip[OF r(1)] using feed_crc_bytes(1)[OF r(2) c] by simp
  moreover have "write_frame cap ft seq msg data = (([kSync0, kSync1] @ hdr) @ data @ [clo]) @ [chi]"
    unfolding w using c by (simp add: r(3))
  moreover have "feed True chi ?s = (Some ((p_frame r)\<lparr>f_len := n\<rparr>),
      parser_reset (r\<lparr>p_frame := (p_frame r)\<lparr>f_len := n\<rparr>, p_crc_lo := clo\<rparr>))"
    using feed_crc_bytes(2)[OF r(2) c] r(4) by simp
  moreover have "parser_idle (parser_reset (r\<lparr>p_frame := (p_frame r)\<lparr>f_len := n\<rparr>, p_crc_lo := clo\<rparr>))"
    using r(9) by (simp add: parser_idle_def parser_reset_def)
  moreover have "payload_bytes ((p_frame r)\<lparr>f_len := n\<rparr>) = data" using r(8) n by (simp add: payload_bytes_def)
  ultimately show ?thesis using r(5-9) n
    by (intro exI[of _ "([kSync0, kSync1] @ hdr) @ data @ [clo]"] exI[of _ chi] exI[of _ ?s]
        exI[of _ "(p_frame r)\<lparr>f_len := n\<rparr>"] exI conjI) (assumption | simp)+
qed

section \<open>Properties\<close>

lemma feed_all_inv: "parser_inv bs p \<Longrightarrow> parser_inv (bs @ cs) (snd (feed_all cs p))"
proof (induction cs arbitrary: bs p)
  case (Cons c cs)
  have "parser_inv (bs @ [c]) (snd (feed True c p))" using Cons.prems by (rule feed_inv)
  then have "parser_inv ((bs @ [c]) @ cs) (snd (feed_all cs (snd (feed True c p))))" by (rule Cons.IH)
  then show ?case by (auto split: prod.splits)
qed simp

text \<open>
  C36: soundness of the receiver. Whenever the parser, started in its initial state and fed any bytes
  \<open>bs\<close> and then \<open>b\<close>, delivers a frame, the stream ends with sync bytes, a body that spells exactly
  the delivered type, sequence, message id, length and payload under major version 1, and the
  checksum of that body. The payload is at most 250 bytes and the payload array keeps its size.
\<close>

theorem parser_sound:
  assumes "feed True b (snd (feed_all bs parser_init)) = (Some f, q)"
  shows "ends_with_frame (bs @ [b]) f \<and> unat (f_len f) \<le> 250 \<and> length (f_payload f) = 250"
proof -
  have "parser_inv bs (snd (feed_all bs parser_init))"
    using feed_all_inv[OF parser_inv_init, of bs] by simp
  from feed_sound[OF this assms] show ?thesis by (simp add: limit_defs)
qed

theorem parser_sound_witness:
  "\<exists>f q. feed True 0xd8 (snd (feed_all [0xA5, 0x5A, 0x10, 1, 7, 1, 0, 0, 0xd8] parser_init)) = (Some f, q) \<and>
     ends_with_frame [0xA5, 0x5A, 0x10, 1, 7, 1, 0, 0, 0xd8, 0xd8] f"
proof -
  have "\<exists>f q. feed True 0xd8 (snd (feed_all [0xA5, 0x5A, 0x10, 1, 7, 1, 0, 0, 0xd8] parser_init)) = (Some f, q)"
    by (simp add: feed_def feed_crc_def Let_def parser_init_def frame_init_def limit_defs crc16_byte_unfold
        crc16_bit_def)
  then obtain f q where "feed True 0xd8 (snd (feed_all [0xA5, 0x5A, 0x10, 1, 7, 1, 0, 0, 0xd8] parser_init)) = (Some f, q)"
    by blast
  with parser_sound[OF this] show ?thesis by simp
qed

text \<open>
  C37: completeness of the receiver. Feeding an idle parser the bytes of a written frame delivers
  exactly one frame, with the written type, sequence, message id and payload, and leaves the parser
  idle, ready for the next frame.
\<close>

theorem write_frame_parse_roundtrip:
  assumes "parser_idle p" "length data \<le> 250" "length data + 10 \<le> cap" "wf_msg_id msg"
  shows "\<exists>f q. feed_all (write_frame cap ft seq msg data) p = ([f], q) \<and> parser_idle q \<and>
    f_type f = ft \<and> f_seq f = seq \<and> f_msg f = msg \<and> unat (f_len f) = length data \<and>
    payload_bytes f = data"
proof -
  have "length data \<le> kMaxPayload" "kHeaderSize + length data + kCrcSize \<le> cap"
    using assms(2,3) by (simp_all add: limit_defs)
  from feed_write_frame[OF assms(1) this, of ft seq msg] assms(4) show ?thesis
    by (auto simp: wf_msg_id_def feed_all_append)
qed

theorem write_frame_parse_roundtrip_witness:
  "\<exists>f q. feed_all (write_frame 260 FtRequest 9 MotorSetTarget [0x10, 0x27, 1]) parser_init = ([f], q) \<and>
     parser_idle q \<and> f_type f = FtRequest \<and> f_seq f = 9 \<and> f_msg f = MotorSetTarget \<and>
     payload_bytes f = [0x10, 0x27, 1]"
proof -
  have i: "parser_idle parser_init" by (simp add: parser_idle_def parser_init_def frame_init_def)
  have m: "wf_msg_id MotorSetTarget" by (rule wf_named) (simp add: named_msg_ids_def)
  show ?thesis
    using write_frame_parse_roundtrip[OF i _ _ m, of "[0x10, 0x27, 1]" 260 FtRequest 9] by auto
qed

end
