(* ===== verification/Ring_Buffer.thy ===== *)
theory Ring_Buffer
  imports Prelude
begin

text \<open>
  \<open>src/common/ring_buffer.h\<close>: the fixed-capacity byte queue. The contract of a bounded queue is
  the locale \<open>bounded_fifo\<close>; the ring buffer is shown to satisfy it through its abstraction to
  the list of queued bytes. The template parameter \<open>Capacity\<close> is the argument \<open>cap\<close>.
\<close>

section \<open>The contract of a bounded queue\<close>

text \<open>
  Writing a block byte by byte until the queue refuses one is the loop of
  \<open>InMemoryTransport::Endpoint::write\<close> (\<open>src/sim/in_memory_transport.h\<close>); it is defined for
  any \<open>push\<close>.
\<close>

fun write_all :: "(u8 \<Rightarrow> 'q \<Rightarrow> bool \<times> 'q) \<Rightarrow> u8 list \<Rightarrow> 'q \<Rightarrow> nat \<times> 'q" where
  "write_all push [] q = (0, q)"
| "write_all push (b # bs) q =
     (case push b q of
        (True, q') \<Rightarrow> (case write_all push bs q' of (n, q'') \<Rightarrow> (Suc n, q''))
      | (False, q') \<Rightarrow> (0, q'))"

locale bounded_fifo =
  fixes push :: "u8 \<Rightarrow> 'q \<Rightarrow> bool \<times> 'q"
    and pop :: "'q \<Rightarrow> u8 option \<times> 'q"
    and contents :: "'q \<Rightarrow> u8 list"
    and invar :: "'q \<Rightarrow> bool"
    and room :: nat
  assumes push_ok: "invar q \<Longrightarrow> length (contents q) < room \<Longrightarrow>
      \<exists>q'. push b q = (True, q') \<and> invar q' \<and> contents q' = contents q @ [b]"
    and push_full: "invar q \<Longrightarrow> length (contents q) = room \<Longrightarrow> push b q = (False, q)"
    and pop_empty: "invar q \<Longrightarrow> contents q = [] \<Longrightarrow> pop q = (None, q)"
    and pop_ok: "invar q \<Longrightarrow> contents q = b # bs \<Longrightarrow>
      \<exists>q'. pop q = (Some b, q') \<and> invar q' \<and> contents q' = bs"
    and contents_bound: "invar q \<Longrightarrow> length (contents q) \<le> room"
begin

text \<open>A block write stores the longest prefix that fits, in order.\<close>

lemma write_all_stores:
  assumes "invar q"
  shows "\<exists>q'. write_all push bs q = (min (length bs) (room - length (contents q)), q') \<and>
           invar q' \<and> contents q' = contents q @ take (room - length (contents q)) bs"
  using assms
proof (induction bs arbitrary: q)
  case (Cons b bs)
  show ?case
  proof (cases "length (contents q) < room")
    case True
    then obtain q' where q': "push b q = (True, q')" "invar q'" "contents q' = contents q @ [b]"
      using push_ok[OF Cons.prems] by blast
    then obtain q'' where "write_all push bs q' = (min (length bs) (room - length (contents q')), q'')"
      "invar q''" "contents q'' = contents q' @ take (room - length (contents q')) bs"
      using Cons.IH by blast
    with q' True show ?thesis by (auto simp: take_Cons' min_def)
  next
    case False
    then have full: "length (contents q) = room" using contents_bound[OF Cons.prems] by simp
    show ?thesis using push_full[OF Cons.prems full] full Cons.prems by simp
  qed
qed simp

end

section \<open>The ring buffer\<close>

record ring =
  buf :: "u8 list"
  head :: nat
  tail :: nat
  count :: nat

definition ring_init :: "nat \<Rightarrow> ring" where
  "ring_init cap = \<lparr>buf = replicate cap 0, head = 0, tail = 0, count = 0\<rparr>"

definition ring_push :: "nat \<Rightarrow> u8 \<Rightarrow> ring \<Rightarrow> bool \<times> ring" where
  "ring_push cap byte r =
     (if count r = cap then (False, r)
      else (True, r\<lparr>buf := (buf r)[head r := byte], head := (head r + 1) mod cap,
                    count := count r + 1\<rparr>))"

definition ring_pop :: "nat \<Rightarrow> ring \<Rightarrow> u8 option \<times> ring" where
  "ring_pop cap r =
     (if count r = 0 then (None, r)
      else (Some (buf r ! tail r), r\<lparr>tail := (tail r + 1) mod cap, count := count r - 1\<rparr>))"

definition ring_empty :: "ring \<Rightarrow> bool" where
  "ring_empty r \<longleftrightarrow> count r = 0"

definition ring_size :: "ring \<Rightarrow> nat" where
  "ring_size r = count r"

section \<open>Invariant and abstraction\<close>

definition ring_inv :: "nat \<Rightarrow> ring \<Rightarrow> bool" where
  "ring_inv cap r \<longleftrightarrow> 2 \<le> cap \<and> length (buf r) = cap \<and> tail r < cap \<and> count r \<le> cap \<and>
     head r = (tail r + count r) mod cap"

definition ring_contents :: "ring \<Rightarrow> u8 list" where
  "ring_contents r = map (\<lambda>i. buf r ! ((tail r + i) mod length (buf r))) [0..<count r]"

lemma length_ring_contents [simp]: "length (ring_contents r) = count r"
  by (simp add: ring_contents_def)

lemma ring_contents_Nil_iff: "ring_contents r = [] \<longleftrightarrow> count r = 0"
  by (simp add: ring_contents_def)

lemma ring_inv_init: "2 \<le> cap \<Longrightarrow> ring_inv cap (ring_init cap)"
  by (simp add: ring_inv_def ring_init_def)

lemma ring_contents_init [simp]: "ring_contents (ring_init cap) = []"
  by (simp add: ring_contents_def ring_init_def)

lemma ring_slots_distinct:
  fixes t n i cap :: nat
  assumes "i < n" "n < cap"
  shows "(t + i) mod cap \<noteq> (t + n) mod cap"
proof
  assume "(t + i) mod cap = (t + n) mod cap"
  then have "cap dvd (t + n) - (t + i)" using assms by (intro mod_eq_dvd_iff_nat[THEN iffD1]) simp_all
  then show False using assms by (auto dest: dvd_imp_le)
qed

lemma ring_push_contents:
  assumes "ring_inv cap r" "count r < cap"
  shows "\<exists>r'. ring_push cap b r = (True, r') \<and> ring_inv cap r' \<and> ring_contents r' = ring_contents r @ [b]"
proof -
  let ?r = "snd (ring_push cap b r)"
  from assms have inv: "2 \<le> cap" "length (buf r) = cap" "head r = (tail r + count r) mod cap"
    by (simp_all add: ring_inv_def)
  then have "head r < cap" by simp
  have "ring_contents ?r = map (\<lambda>i. (buf r)[head r := b] ! ((tail r + i) mod cap)) [0..<Suc (count r)]"
    using assms inv by (simp add: ring_push_def ring_contents_def)
  also have "\<dots> = map (\<lambda>i. (buf r)[head r := b] ! ((tail r + i) mod cap)) [0..<count r] @ [b]"
    using inv \<open>head r < cap\<close> by simp
  also have "map (\<lambda>i. (buf r)[head r := b] ! ((tail r + i) mod cap)) [0..<count r] = ring_contents r"
    unfolding ring_contents_def inv(2)
  proof (rule map_cong[OF refl])
    fix i assume "i \<in> set [0..<count r]"
    then have "head r \<noteq> (tail r + i) mod cap"
      unfolding inv(3) using ring_slots_distinct[of i "count r" cap "tail r"] assms(2) by simp
    then show "(buf r)[head r := b] ! ((tail r + i) mod cap) = buf r ! ((tail r + i) mod cap)" by simp
  qed
  finally have "ring_contents ?r = ring_contents r @ [b]" .
  moreover have "ring_inv cap ?r"
    using assms by (simp add: ring_inv_def ring_push_def mod_Suc_eq)
  ultimately show ?thesis using assms(2) by (simp add: ring_push_def)
qed

lemma ring_pop_contents:
  assumes "ring_inv cap r" "ring_contents r = b # bs"
  shows "\<exists>r'. ring_pop cap r = (Some b, r') \<and> ring_inv cap r' \<and> ring_contents r' = bs"
proof -
  from assms have inv: "length (buf r) = cap" "tail r < cap" by (simp_all add: ring_inv_def)
  obtain n where n: "count r = Suc n" using assms(2) by (metis length_Cons length_ring_contents)
  have "ring_contents r = buf r ! tail r # map (\<lambda>i. buf r ! ((tail r + Suc i) mod cap)) [0..<n]"
    unfolding ring_contents_def n upt_conv_Cons[OF zero_less_Suc] using inv
    by (simp add: map_Suc_upt[symmetric] del: upt_Suc)
  with assms(2) have b: "b = buf r ! tail r"
    and bs: "bs = map (\<lambda>i. buf r ! ((tail r + Suc i) mod cap)) [0..<n]" by simp_all
  have "ring_contents (snd (ring_pop cap r)) = bs"
    unfolding bs using n inv by (simp add: ring_pop_def ring_contents_def mod_add_left_eq)
  moreover have "ring_inv cap (snd (ring_pop cap r))"
    using assms(1) n by (simp add: ring_inv_def ring_pop_def mod_add_left_eq)
  ultimately show ?thesis using n b by (simp add: ring_pop_def)
qed

text \<open>The queues of \<open>InMemoryTransport\<close> are ring buffers of 4096 bytes.\<close>

interpretation ring4096: bounded_fifo "ring_push 4096" "ring_pop 4096" ring_contents "ring_inv 4096" 4096
proof unfold_locales
  fix q b assume "ring_inv 4096 q" "length (ring_contents q) < 4096"
  then show "\<exists>q'. ring_push 4096 b q = (True, q') \<and> ring_inv 4096 q' \<and>
      ring_contents q' = ring_contents q @ [b]"
    by (simp add: ring_push_contents)
next
  fix q b bs assume "ring_inv 4096 q" "ring_contents q = b # bs"
  then show "\<exists>q'. ring_pop 4096 q = (Some b, q') \<and> ring_inv 4096 q' \<and> ring_contents q' = bs"
    by (rule ring_pop_contents)
qed (simp_all add: ring_push_def ring_pop_def ring_inv_def ring_contents_Nil_iff)

section \<open>Properties\<close>

text \<open>
  C40: a ring buffer of any capacity of at least two refines the bounded list queue. A push appends
  the byte and reports success exactly when there is room, a pop returns the oldest byte, and both
  keep the representation invariant.
\<close>

theorem ring_refines_queue:
  assumes "ring_inv cap r"
  shows "(fst (ring_push cap b r) \<longleftrightarrow> length (ring_contents r) < cap) \<and>
    ring_contents (snd (ring_push cap b r)) =
      (if length (ring_contents r) < cap then ring_contents r @ [b] else ring_contents r) \<and>
    fst (ring_pop cap r) = (case ring_contents r of [] \<Rightarrow> None | c # _ \<Rightarrow> Some c) \<and>
    ring_contents (snd (ring_pop cap r)) = tl (ring_contents r) \<and>
    ring_inv cap (snd (ring_push cap b r)) \<and> ring_inv cap (snd (ring_pop cap r))"
    (is "?push \<and> ?pushed \<and> ?pop \<and> ?popped \<and> ?inv1 \<and> ?inv2")
proof -
  have push: "?push \<and> ?pushed \<and> ?inv1"
  proof (cases "count r < cap")
    case True
    then show ?thesis using ring_push_contents[OF assms True, of b] by auto
  next
    case False
    then have "count r = cap" using assms by (simp add: ring_inv_def)
    then show ?thesis using assms by (simp add: ring_push_def)
  qed
  have pop: "?pop \<and> ?popped \<and> ?inv2"
  proof (cases "ring_contents r")
    case Nil
    then have "count r = 0" by (simp add: ring_contents_Nil_iff)
    with Nil show ?thesis using assms by (simp add: ring_pop_def)
  next
    case (Cons c cs)
    then show ?thesis using ring_pop_contents[OF assms Cons] by auto
  qed
  show ?thesis using push pop by blast
qed

theorem ring_refines_queue_witness:
  "ring_inv 2 (ring_init 2) \<and> fst (ring_push 2 7 (ring_init 2)) \<and>
   ring_contents (snd (ring_push 2 7 (ring_init 2))) = [7]"
proof -
  have h: "ring_inv 2 (ring_init 2)" by (rule ring_inv_init) simp
  show ?thesis using h ring_refines_queue[OF h, of 7] by simp
qed

end
