(* ===== verification/Hal.thy ===== *)
theory Hal
  imports Common Ring_Buffer
begin

text \<open>
  The hardware abstraction layer \<open>src/hal/\<close> and the in-memory transport
  \<open>src/sim/in_memory_transport.h\<close>. A C++ interface class is a record of its virtual functions
  over an abstract device state; firmware definitions take such a record as an argument. The
  behaviour the firmware may rely on is stated as locales and the simulated devices are
  interpreted in them.
\<close>

section \<open>UART\<close>

text \<open>
  \<open>IUart\<close>: \<open>write\<close> accepts a prefix of the block and returns its length, \<open>read\<close> delivers one
  byte or reports that none is available.
\<close>

record 'u uart_ops =
  uart_write :: "u8 list \<Rightarrow> 'u \<Rightarrow> nat \<times> 'u"
  uart_read :: "'u \<Rightarrow> u8 option \<times> 'u"

locale uart =
  fixes io :: "'u uart_ops"
    and rx_q :: "'u \<Rightarrow> u8 list"
    and tx_q :: "'u \<Rightarrow> u8 list"
    and uart_inv :: "'u \<Rightarrow> bool"
  assumes read_none: "uart_inv u \<Longrightarrow> rx_q u = [] \<Longrightarrow>
      \<exists>u'. uart_read io u = (None, u') \<and> uart_inv u' \<and> rx_q u' = [] \<and> tx_q u' = tx_q u"
    and read_some: "uart_inv u \<Longrightarrow> rx_q u = b # bs \<Longrightarrow>
      \<exists>u'. uart_read io u = (Some b, u') \<and> uart_inv u' \<and> rx_q u' = bs \<and> tx_q u' = tx_q u"
    and write_prefix: "uart_inv u \<Longrightarrow>
      \<exists>n u'. uart_write io bs u = (n, u') \<and> uart_inv u' \<and> n \<le> length bs \<and>
        tx_q u' = tx_q u @ take n bs \<and> rx_q u' = rx_q u"

text \<open>A UART that says how many bytes it will accept at once.\<close>

locale roomy_uart = uart +
  fixes tx_room :: "'a \<Rightarrow> nat"
  assumes write_room: "uart_inv u \<Longrightarrow> length bs \<le> tx_room u \<Longrightarrow> fst (uart_write io bs u) = length bs"

section \<open>The in-memory transport\<close>

record transport =
  app_to_mcu :: ring
  mcu_to_app :: ring

definition transport_init :: transport where
  "transport_init = \<lparr>app_to_mcu = ring_init 4096, mcu_to_app = ring_init 4096\<rparr>"

text \<open>\<open>Endpoint::write\<close> and \<open>Endpoint::read\<close> of the two ends.\<close>

definition app_side :: "transport uart_ops" where
  "app_side = \<lparr>
     uart_write = (\<lambda>bs t. case write_all (ring_push 4096) bs (app_to_mcu t) of
                     (n, q) \<Rightarrow> (n, t\<lparr>app_to_mcu := q\<rparr>)),
     uart_read = (\<lambda>t. case ring_pop 4096 (mcu_to_app t) of (b, q) \<Rightarrow> (b, t\<lparr>mcu_to_app := q\<rparr>))\<rparr>"

definition mcu_side :: "transport uart_ops" where
  "mcu_side = \<lparr>
     uart_write = (\<lambda>bs t. case write_all (ring_push 4096) bs (mcu_to_app t) of
                     (n, q) \<Rightarrow> (n, t\<lparr>mcu_to_app := q\<rparr>)),
     uart_read = (\<lambda>t. case ring_pop 4096 (app_to_mcu t) of (b, q) \<Rightarrow> (b, t\<lparr>app_to_mcu := q\<rparr>))\<rparr>"

definition transport_inv :: "transport \<Rightarrow> bool" where
  "transport_inv t \<longleftrightarrow> ring_inv 4096 (app_to_mcu t) \<and> ring_inv 4096 (mcu_to_app t)"

lemma transport_inv_init: "transport_inv transport_init"
  by (simp add: transport_inv_def transport_init_def ring_inv_init)

lemma ring_write_prefix:
  assumes "ring_inv 4096 q"
  shows "\<exists>n q'. write_all (ring_push 4096) bs q = (n, q') \<and> ring_inv 4096 q' \<and> n \<le> length bs \<and>
    n = min (length bs) (4096 - length (ring_contents q)) \<and> ring_contents q' = ring_contents q @ take n bs"
proof -
  obtain q' where q': "write_all (ring_push 4096) bs q = (min (length bs) (4096 - length (ring_contents q)), q')"
    "ring_inv 4096 q'" "ring_contents q' = ring_contents q @ take (4096 - length (ring_contents q)) bs"
    using ring4096.write_all_stores[OF assms] by blast
  moreover have "take (4096 - length (ring_contents q)) bs = take (min (length bs) (4096 - length (ring_contents q))) bs"
    by (simp add: min_def)
  ultimately show ?thesis by auto
qed

interpretation app_uart: uart app_side "ring_contents \<circ> mcu_to_app" "ring_contents \<circ> app_to_mcu" transport_inv
proof unfold_locales
  fix u :: transport and b bs assume "transport_inv u" "(ring_contents \<circ> mcu_to_app) u = b # bs"
  then show "\<exists>u'. uart_read app_side u = (Some b, u') \<and> transport_inv u' \<and>
      (ring_contents \<circ> mcu_to_app) u' = bs \<and> (ring_contents \<circ> app_to_mcu) u' = (ring_contents \<circ> app_to_mcu) u"
    using ring4096.pop_ok[of "mcu_to_app u" b bs] by (auto simp: app_side_def transport_inv_def)
next
  fix u :: transport and bs assume "transport_inv u"
  then show "\<exists>n u'. uart_write app_side bs u = (n, u') \<and> transport_inv u' \<and> n \<le> length bs \<and>
      (ring_contents \<circ> app_to_mcu) u' = (ring_contents \<circ> app_to_mcu) u @ take n bs \<and>
      (ring_contents \<circ> mcu_to_app) u' = (ring_contents \<circ> mcu_to_app) u"
    using ring_write_prefix[of "app_to_mcu u" bs] by (auto simp: app_side_def transport_inv_def)
qed (simp add: app_side_def transport_inv_def ring4096.pop_empty)

interpretation mcu_uart: uart mcu_side "ring_contents \<circ> app_to_mcu" "ring_contents \<circ> mcu_to_app" transport_inv
proof unfold_locales
  fix u :: transport and b bs assume "transport_inv u" "(ring_contents \<circ> app_to_mcu) u = b # bs"
  then show "\<exists>u'. uart_read mcu_side u = (Some b, u') \<and> transport_inv u' \<and>
      (ring_contents \<circ> app_to_mcu) u' = bs \<and> (ring_contents \<circ> mcu_to_app) u' = (ring_contents \<circ> mcu_to_app) u"
    using ring4096.pop_ok[of "app_to_mcu u" b bs] by (auto simp: mcu_side_def transport_inv_def)
next
  fix u :: transport and bs assume "transport_inv u"
  then show "\<exists>n u'. uart_write mcu_side bs u = (n, u') \<and> transport_inv u' \<and> n \<le> length bs \<and>
      (ring_contents \<circ> mcu_to_app) u' = (ring_contents \<circ> mcu_to_app) u @ take n bs \<and>
      (ring_contents \<circ> app_to_mcu) u' = (ring_contents \<circ> app_to_mcu) u"
    using ring_write_prefix[of "mcu_to_app u" bs] by (auto simp: mcu_side_def transport_inv_def)
qed (simp add: mcu_side_def transport_inv_def ring4096.pop_empty)

interpretation app_uart: roomy_uart app_side "ring_contents \<circ> mcu_to_app" "ring_contents \<circ> app_to_mcu"
  transport_inv "\<lambda>t. 4096 - length (ring_contents (app_to_mcu t))"
proof unfold_locales
  fix u :: transport and bs :: "u8 list"
  assume "transport_inv u" "length bs \<le> 4096 - length (ring_contents (app_to_mcu u))"
  then show "fst (uart_write app_side bs u) = length bs"
    using ring_write_prefix[of "app_to_mcu u" bs] by (auto simp: app_side_def transport_inv_def)
qed

interpretation mcu_uart: roomy_uart mcu_side "ring_contents \<circ> app_to_mcu" "ring_contents \<circ> mcu_to_app"
  transport_inv "\<lambda>t. 4096 - length (ring_contents (mcu_to_app t))"
proof unfold_locales
  fix u :: transport and bs :: "u8 list"
  assume "transport_inv u" "length bs \<le> 4096 - length (ring_contents (mcu_to_app u))"
  then show "fst (uart_write mcu_side bs u) = length bs"
    using ring_write_prefix[of "mcu_to_app u" bs] by (auto simp: mcu_side_def transport_inv_def)
qed

section \<open>The safety MCU's hardware\<close>

text \<open>
  \<open>SafetyMcu::Hardware\<close> bundles \<open>IMotor\<close>, \<open>IHeater\<close>, \<open>ITempSensor\<close>, \<open>IScale\<close> and \<open>ILid\<close>.
  Reading the temperature or the scale may change the device (the simulated sensors draw noise).
\<close>

record 'h hardware =
  motor_set_duty :: "f32 \<Rightarrow> 'h \<Rightarrow> 'h"
  motor_set_reverse :: "bool \<Rightarrow> 'h \<Rightarrow> 'h"
  motor_rpm :: "'h \<Rightarrow> rpm"
  motor_current_ma :: "'h \<Rightarrow> u16"
  motor_stalled :: "'h \<Rightarrow> bool"
  heater_set_power_w :: "f32 \<Rightarrow> 'h \<Rightarrow> 'h"
  heater_power_w :: "'h \<Rightarrow> f32"
  read_deci_celsius :: "'h \<Rightarrow> deci_celsius result \<times> 'h"
  read_raw :: "'h \<Rightarrow> i32 result \<times> 'h"
  lid_is_closed :: "'h \<Rightarrow> bool"
  lid_is_locked :: "'h \<Rightarrow> bool"
  lid_set_lock :: "bool \<Rightarrow> 'h \<Rightarrow> 'h"

text \<open>
  What a controller may rely on: a duty between 0 and 1 and a power between 0 and 1200 W are
  taken over as commanded, and no other operation changes them.
\<close>

locale actuators =
  fixes hw :: "'h hardware"
    and duty_of :: "'h \<Rightarrow> f32"
  assumes set_duty: "0 \<le> d \<Longrightarrow> d \<le> 1 \<Longrightarrow> duty_of (motor_set_duty hw d h) = d"
    and set_power: "0 \<le> w \<Longrightarrow> w \<le> 1200 \<Longrightarrow> heater_power_w hw (heater_set_power_w hw w h) = w"
    and duty_frame: "duty_of (heater_set_power_w hw w h) = duty_of h"
      "duty_of (snd (read_raw hw h)) = duty_of h"
    and power_frame: "heater_power_w hw (motor_set_duty hw d h) = heater_power_w hw h"
      "heater_power_w hw (snd (read_raw hw h)) = heater_power_w hw h"

end
