(* ===== verification/Link.thy ===== *)
theory Link
  imports Frame_Codec Hal
begin

text \<open>
  \<open>src/protocol/link.h\<close> and \<open>link.cpp\<close>: framing over a non-blocking UART. The transmit side is a
  buffer of four maximal frames that is flushed as the UART accepts bytes; the receive side pumps
  the UART into the parser and drops a partial frame that takes longer than 50 ms. The UART is any
  instance of the locale \<open>uart\<close>; the clock value \<open>now\<close> is constant during a call. The read loop
  ends only if the UART runs dry, so it is a partial function; over a \<open>uart\<close> it always returns.
\<close>

section \<open>State\<close>

definition kFrameTimeoutMs :: millis where [limit_defs]: "kFrameTimeoutMs = 50"
definition kTxCapacity :: nat where [limit_defs]: "kTxCapacity = kMaxFrameSize * 4"

record link =
  l_parser :: frame_parser
  l_deadline_ms :: millis
  l_tx_buffer :: "u8 list"
  l_tx_size :: nat
  l_tx_offset :: nat

definition link_init :: link where
  "link_init = \<lparr>l_parser = parser_init, l_deadline_ms = 0, l_tx_buffer = replicate kTxCapacity 0,
     l_tx_size = 0, l_tx_offset = 0\<rparr>"

definition receiving :: "link \<Rightarrow> bool" where
  "receiving lk \<longleftrightarrow> in_progress (l_parser lk)"

section \<open>Transmit side\<close>

definition flush_tx :: "'u uart_ops \<Rightarrow> link \<Rightarrow> 'u \<Rightarrow> link \<times> 'u" where
  "flush_tx io lk u =
     (if l_tx_offset lk \<ge> l_tx_size lk then (lk, u)
      else let remaining = l_tx_size lk - l_tx_offset lk;
               (written, u') = uart_write io (take remaining (drop (l_tx_offset lk) (l_tx_buffer lk))) u;
               offset = l_tx_offset lk + (if written > remaining then remaining else written)
           in (if offset = l_tx_size lk then lk\<lparr>l_tx_offset := 0, l_tx_size := 0\<rparr>
               else lk\<lparr>l_tx_offset := offset\<rparr>, u'))"

definition cancel_pending_tx :: "link \<Rightarrow> link" where
  "cancel_pending_tx lk = lk\<lparr>l_tx_offset := 0, l_tx_size := 0\<rparr>"

text \<open>Moving the unsent bytes to the front of the buffer (\<open>memmove\<close>).\<close>

definition compact_tx :: "link \<Rightarrow> link" where
  "compact_tx lk =
     (if l_tx_offset lk > 0
      then let queued = l_tx_size lk - l_tx_offset lk
           in lk\<lparr>l_tx_buffer := blit (l_tx_buffer lk) 0
                    (take queued (drop (l_tx_offset lk) (l_tx_buffer lk))),
                 l_tx_size := queued, l_tx_offset := 0\<rparr>
      else lk)"

text \<open>The \<open>len\<close> bytes behind a payload pointer; \<open>None\<close> is the null pointer.\<close>

definition bytes_at :: "u8 list option \<Rightarrow> u16 \<Rightarrow> u8 list" where
  "bytes_at payload len = (case payload of None \<Rightarrow> [] | Some bs \<Rightarrow> take (unat len) bs)"

definition link_send ::
  "'u uart_ops \<Rightarrow> frame_type \<Rightarrow> u8 \<Rightarrow> msg_id \<Rightarrow> u8 list option \<Rightarrow> u16 \<Rightarrow> link \<Rightarrow> 'u \<Rightarrow>
   status \<times> link \<times> 'u" where
  "link_send io ft seq msg payload len lk u =
     (if unat len > kMaxPayload \<or> (len > 0 \<and> payload = None) then (InvalidArgument, lk, u)
      else let lk1 = compact_tx lk;
               frame_size = kHeaderSize + unat len + kCrcSize
           in if frame_size > kTxCapacity - l_tx_size lk1 then (NotReady, lk1, u)
              else let bytes = write_frame (kTxCapacity - l_tx_size lk1) ft seq msg (bytes_at payload len)
                   in if bytes = [] then (InvalidArgument, lk1, u)
                      else let lk2 = lk1\<lparr>l_tx_buffer := blit (l_tx_buffer lk1) (l_tx_size lk1) bytes,
                                         l_tx_size := l_tx_size lk1 + length bytes\<rparr>;
                               (lk3, u') = flush_tx io lk2 u
                           in (Ok, lk3, u'))"

section \<open>Receive side\<close>

definition drop_expired :: "millis \<Rightarrow> link \<Rightarrow> link" where
  "drop_expired now lk =
     (if in_progress (l_parser lk) \<and> sint (now - l_deadline_ms lk) > 0
      then lk\<lparr>l_parser := parser_reset (l_parser lk)\<rparr> else lk)"

text \<open>One byte: the frame it completes, if any, and the deadline of a frame that just began.\<close>

definition accept_byte :: "millis \<Rightarrow> u8 \<Rightarrow> link \<Rightarrow> frame option \<times> link" where
  "accept_byte now byte lk =
     (let was_idle = \<not> in_progress (l_parser lk);
          (out, p) = feed True byte (l_parser lk);
          lk1 = lk\<lparr>l_parser := p\<rparr>
      in (out, if out = None \<and> was_idle \<and> in_progress p
               then lk1\<lparr>l_deadline_ms := now + kFrameTimeoutMs\<rparr> else lk1))"

partial_function (option) poll_loop ::
  "'u uart_ops \<Rightarrow> millis \<Rightarrow> link \<Rightarrow> 'u \<Rightarrow> (frame option \<times> link \<times> 'u) option" where
  "poll_loop io now lk u =
     (case uart_read io u of
        (None, u') \<Rightarrow> Some (None, drop_expired now lk, u')
      | (Some byte, u') \<Rightarrow>
          (case accept_byte now byte lk of
             (Some f, lk') \<Rightarrow> Some (Some f, lk', u')
           | (None, lk') \<Rightarrow> poll_loop io now lk' u'))"

declare poll_loop.simps [code]

definition link_poll ::
  "'u uart_ops \<Rightarrow> millis \<Rightarrow> link \<Rightarrow> 'u \<Rightarrow> (frame option \<times> link \<times> 'u) option" where
  "link_poll io now lk u = (case flush_tx io lk u of (lk', u') \<Rightarrow> poll_loop io now lk' u')"

section \<open>Invariant\<close>

definition link_inv :: "link \<Rightarrow> bool" where
  "link_inv lk \<longleftrightarrow> length (l_tx_buffer lk) = kTxCapacity \<and> l_tx_offset lk \<le> l_tx_size lk \<and>
     l_tx_size lk \<le> kTxCapacity \<and> (\<exists>bs. parser_inv bs (l_parser lk))"

text \<open>The bytes queued for transmission.\<close>

definition tx_pending :: "link \<Rightarrow> u8 list" where
  "tx_pending lk = take (l_tx_size lk - l_tx_offset lk) (drop (l_tx_offset lk) (l_tx_buffer lk))"

lemma link_inv_init: "link_inv link_init" "tx_pending link_init = []"
  using parser_inv_init by (auto simp: link_inv_def link_init_def tx_pending_def)

lemma length_tx_pending: "link_inv lk \<Longrightarrow> length (tx_pending lk) = l_tx_size lk - l_tx_offset lk"
  by (auto simp: link_inv_def tx_pending_def min_def)

lemma cancel_pending_tx_inv:
  "link_inv lk \<Longrightarrow> link_inv (cancel_pending_tx lk) \<and> tx_pending (cancel_pending_tx lk) = []"
  by (simp add: link_inv_def cancel_pending_tx_def tx_pending_def)

lemma compact_tx_spec:
  assumes "link_inv lk"
  shows "link_inv (compact_tx lk)" "tx_pending (compact_tx lk) = tx_pending lk"
    "l_tx_offset (compact_tx lk) = 0" "l_tx_size (compact_tx lk) = length (tx_pending lk)"
    "l_parser (compact_tx lk) = l_parser lk"
  using assms unfolding compact_tx_def Let_def
  by (auto simp: link_inv_def tx_pending_def blit_0)

lemma append_tx_spec:
  assumes "link_inv lk" "l_tx_offset lk = 0" "l_tx_size lk + length bytes \<le> kTxCapacity"
  defines "lk2 \<equiv> lk\<lparr>l_tx_buffer := blit (l_tx_buffer lk) (l_tx_size lk) bytes,
                 l_tx_size := l_tx_size lk + length bytes\<rparr>"
  shows "link_inv lk2" "tx_pending lk2 = tx_pending lk @ bytes"
  using assms by (simp_all add: link_inv_def tx_pending_def take_blit_end)

lemma write_frame_length:
  "length (write_frame cap ft seq msg data) =
     (if length data > kMaxPayload \<or> cap < kHeaderSize + length data + kCrcSize then 0
      else kHeaderSize + length data + kCrcSize)"
  by (simp add: write_frame_def Let_def frame_body_def limit_defs)

lemma accept_byte_inv: "link_inv lk \<Longrightarrow> link_inv (snd (accept_byte now b lk))"
  using feed_inv[of _ "l_parser lk" b True]
  by (fastforce simp: link_inv_def accept_byte_def Let_def split: prod.splits)

lemma drop_expired_inv: "link_inv lk \<Longrightarrow> link_inv (drop_expired now lk)"
  using reset_inv parser_inv_lengths
  by (fastforce simp: link_inv_def drop_expired_def lengths_ok_def)

lemma tx_pending_rx [simp]:
  "tx_pending (snd (accept_byte now b lk)) = tx_pending lk"
  "tx_pending (drop_expired now lk) = tx_pending lk"
  by (simp_all add: accept_byte_def drop_expired_def tx_pending_def Let_def split: prod.splits)

section \<open>The link over a UART\<close>

fun poll_bytes :: "millis \<Rightarrow> u8 list \<Rightarrow> link \<Rightarrow> frame option \<times> link \<times> u8 list" where
  "poll_bytes now [] lk = (None, drop_expired now lk, [])"
| "poll_bytes now (b # bs) lk =
     (case accept_byte now b lk of
        (Some f, lk') \<Rightarrow> (Some f, lk', bs)
      | (None, lk') \<Rightarrow> poll_bytes now bs lk')"

lemma poll_bytes_inv:
  "link_inv lk \<Longrightarrow> poll_bytes now bs lk = (out, lk', rest) \<Longrightarrow> link_inv lk' \<and> tx_pending lk' = tx_pending lk"
proof (induction bs arbitrary: lk)
  case Nil
  then show ?case by (auto simp: drop_expired_inv)
next
  case (Cons b bs)
  obtain o1 lk1 where a: "accept_byte now b lk = (o1, lk1)" by fastforce
  then have "link_inv lk1" "tx_pending lk1 = tx_pending lk"
    using accept_byte_inv[OF Cons.prems(1), of now b] tx_pending_rx(1)[of now b lk] by simp_all
  with Cons a show ?case by (cases o1) auto
qed

lemma poll_bytes_shorter:
  "poll_bytes now bs lk = (Some f, lk', rest) \<Longrightarrow> length rest < length bs"
  by (induction bs arbitrary: lk) (fastforce split: prod.splits option.splits)+

lemma flush_tx_nothing: "tx_pending lk = [] \<Longrightarrow> link_inv lk \<Longrightarrow> flush_tx io lk u = (lk, u)"
  using length_tx_pending[of lk] by (simp add: flush_tx_def)

lemma link_send_Ok:
  assumes "link_inv lk" "unat len \<le> kMaxPayload" "\<not> (len > 0 \<and> payload = None)"
    "length (tx_pending lk) + kHeaderSize + unat len + kCrcSize \<le> kTxCapacity"
  shows "\<exists>lk2. link_send io ft seq msg payload len lk u = (case flush_tx io lk2 u of (lk3, u') \<Rightarrow> (Ok, lk3, u')) \<and>
    link_inv lk2 \<and> l_parser lk2 = l_parser lk \<and> tx_pending lk2 = tx_pending lk @ write_frame kMaxFrameSize ft seq msg (bytes_at payload len)"
proof -
  let ?lk1 = "compact_tx lk" and ?data = "bytes_at payload len"
  let ?bytes = "write_frame (kTxCapacity - l_tx_size ?lk1) ft seq msg ?data"
  note c = compact_tx_spec[OF assms(1)]
  have len: "length ?data \<le> unat len" by (simp add: bytes_at_def split: option.splits)
  then have fits: "\<not> (length ?data > kMaxPayload \<or> kTxCapacity - l_tx_size ?lk1 < kHeaderSize + length ?data + kCrcSize)"
    using assms(2,4) c(4) by auto
  then have b: "length ?bytes = kHeaderSize + length ?data + kCrcSize" by (simp add: write_frame_length)
  then have "?bytes \<noteq> []" by (auto simp: limit_defs)
  have same: "?bytes = write_frame kMaxFrameSize ft seq msg ?data"
    using fits by (simp add: write_frame_def limit_defs)
  have room: "l_tx_size ?lk1 + length ?bytes \<le> kTxCapacity" using b fits by (auto simp: limit_defs)
  note a = append_tx_spec[OF c(1,3) room]
  have "\<not> (unat len > kMaxPayload \<or> (len > 0 \<and> payload = None))"
    "\<not> kHeaderSize + unat len + kCrcSize > kTxCapacity - l_tx_size ?lk1"
    using assms(2-4) c(4) by auto
  then show ?thesis
    using a c(5) \<open>?bytes \<noteq> []\<close> unfolding link_send_def Let_def c(2) same by auto
qed

context uart
begin

text \<open>Flushing hands a prefix of the queued bytes to the UART and keeps the rest.\<close>

lemma flush_tx_spec:
  assumes "link_inv lk" "uart_inv u"
  shows "\<exists>lk' u' n. flush_tx io lk u = (lk', u') \<and> link_inv lk' \<and> uart_inv u' \<and> l_parser lk' = l_parser lk \<and>
    tx_q u' = tx_q u @ take n (tx_pending lk) \<and> tx_pending lk' = drop n (tx_pending lk) \<and> rx_q u' = rx_q u"
proof (cases "l_tx_offset lk \<ge> l_tx_size lk")
  case True
  then show ?thesis using assms by (intro exI[of _ lk] exI[of _ u] exI[of _ 0]) (simp add: flush_tx_def)
next
  case False
  define m where "m = l_tx_size lk - l_tx_offset lk"
  have pend: "tx_pending lk = take m (drop (l_tx_offset lk) (l_tx_buffer lk))"
    by (simp add: tx_pending_def m_def)
  obtain n u' where w: "uart_write io (tx_pending lk) u = (n, u')" "uart_inv u'"
    "n \<le> length (tx_pending lk)" "tx_q u' = tx_q u @ take n (tx_pending lk)" "rx_q u' = rx_q u"
    using write_prefix[OF assms(2)] by blast
  have n: "n \<le> m" using w(3) length_tx_pending[OF assms(1)] by (simp add: m_def)
  define lk' where "lk' = fst (flush_tx io lk u)"
  have lk': "flush_tx io lk u = (lk', u')"
    "lk' = (if n = m then lk\<lparr>l_tx_offset := 0, l_tx_size := 0\<rparr> else lk\<lparr>l_tx_offset := l_tx_offset lk + n\<rparr>)"
    using False w(1) n by (auto simp: lk'_def flush_tx_def Let_def pend m_def)
  have "tx_pending lk' = drop n (tx_pending lk)"
    unfolding lk'(2) pend using n by (auto simp: tx_pending_def m_def drop_take add.commute)
  moreover have "link_inv lk'" using assms(1) n lk'(2) False by (auto simp: link_inv_def m_def)
  moreover have "l_parser lk' = l_parser lk" by (simp add: lk'(2))
  ultimately show ?thesis using w lk'(1) by blast
qed

text \<open>
  Sending either queues the whole frame behind the bytes already queued, or changes neither the
  queue nor the line.
\<close>

lemma link_send_spec:
  assumes "link_inv lk" "uart_inv u"
  shows "\<exists>st lk' u'. link_send io ft seq msg payload len lk u = (st, lk', u') \<and> link_inv lk' \<and>
    uart_inv u' \<and> l_parser lk' = l_parser lk \<and> rx_q u' = rx_q u \<and>
    (st = Ok \<longrightarrow> tx_q u' @ tx_pending lk' =
       tx_q u @ tx_pending lk @ write_frame kMaxFrameSize ft seq msg (bytes_at payload len)) \<and>
    (st \<noteq> Ok \<longrightarrow> u' = u \<and> tx_pending lk' = tx_pending lk)"
proof -
  note c = compact_tx_spec[OF assms(1)]
  consider (bad) "unat len > kMaxPayload \<or> (len > 0 \<and> payload = None)"
    | (full) "\<not> (unat len > kMaxPayload \<or> (len > 0 \<and> payload = None))"
        "kHeaderSize + unat len + kCrcSize > kTxCapacity - l_tx_size (compact_tx lk)"
    | (sent) "\<not> (unat len > kMaxPayload \<or> (len > 0 \<and> payload = None))"
        "kHeaderSize + unat len + kCrcSize \<le> kTxCapacity - l_tx_size (compact_tx lk)" by linarith
  then show ?thesis
  proof cases
    case bad
    then show ?thesis using assms by (simp add: link_send_def)
  next
    case full
    then show ?thesis using assms c by (simp add: link_send_def Let_def)
  next
    case sent
    then have "unat len \<le> kMaxPayload" "\<not> (len > 0 \<and> payload = None)"
      "length (tx_pending lk) + kHeaderSize + unat len + kCrcSize \<le> kTxCapacity"
      using c(4) by (auto simp: limit_defs)
    then obtain lk2 where lk2: "link_send io ft seq msg payload len lk u =
        (case flush_tx io lk2 u of (lk3, u') \<Rightarrow> (Ok, lk3, u'))" "link_inv lk2" "l_parser lk2 = l_parser lk"
      "tx_pending lk2 = tx_pending lk @ write_frame kMaxFrameSize ft seq msg (bytes_at payload len)"
      using link_send_Ok[OF assms(1), where io = io and u = u] by blast
    obtain lk3 u' n where f: "flush_tx io lk2 u = (lk3, u')" "link_inv lk3" "uart_inv u'"
      "l_parser lk3 = l_parser lk2" "tx_q u' = tx_q u @ take n (tx_pending lk2)"
      "tx_pending lk3 = drop n (tx_pending lk2)" "rx_q u' = rx_q u"
      using flush_tx_spec[OF lk2(2) assms(2)] by blast
    have "tx_q u' @ tx_pending lk3 = tx_q u @ tx_pending lk2" by (simp add: f(5,6))
    then show ?thesis using lk2(1,3,4) f(1-4,7) by simp
  qed
qed

text \<open>The read loop returns, and does what the parser does on the bytes waiting in the UART.\<close>

lemma poll_loop_spec:
  assumes "uart_inv u"
  shows "\<exists>out lk' u'. poll_loop io now lk u = Some (out, lk', u') \<and>
    poll_bytes now (rx_q u) lk = (out, lk', rx_q u') \<and> uart_inv u' \<and> tx_q u' = tx_q u"
  using assms
proof (induction "rx_q u" arbitrary: u lk)
  case Nil
  then obtain u' where r: "uart_read io u = (None, u')" "uart_inv u'" "rx_q u' = []" "tx_q u' = tx_q u"
    using read_none[of u] by auto
  have "poll_loop io now lk u = Some (None, drop_expired now lk, u')"
    by (subst poll_loop.simps) (simp add: r(1))
  then show ?case using Nil r by (simp flip: Nil.hyps)
next
  case (Cons b bs)
  obtain u1 where r: "uart_read io u = (Some b, u1)" "uart_inv u1" "rx_q u1 = bs" "tx_q u1 = tx_q u"
    using read_some[OF Cons.prems Cons.hyps(2)[symmetric]] by blast
  obtain o1 lk1 where a: "accept_byte now b lk = (o1, lk1)" by fastforce
  show ?case
  proof (cases o1)
    case None
    have "poll_loop io now lk u = poll_loop io now lk1 u1"
      by (subst poll_loop.simps) (simp add: r a None)
    moreover have "poll_bytes now (rx_q u) lk = poll_bytes now bs lk1"
      by (simp add: a None flip: Cons.hyps(2))
    ultimately show ?thesis using Cons.hyps(1)[of u1 lk1] r by simp
  next
    case (Some f)
    have "poll_loop io now lk u = Some (Some f, lk1, u1)"
      by (subst poll_loop.simps) (simp add: r a Some)
    then show ?thesis using r a Some by (simp flip: Cons.hyps(2))
  qed
qed

lemma link_poll_spec:
  assumes "link_inv lk" "uart_inv u"
  shows "\<exists>out lk' u' n. link_poll io now lk u = Some (out, lk', u') \<and> link_inv lk' \<and> uart_inv u' \<and>
    tx_q u' = tx_q u @ take n (tx_pending lk) \<and> tx_pending lk' = drop n (tx_pending lk) \<and>
    (\<exists>lk1. l_parser lk1 = l_parser lk \<and> poll_bytes now (rx_q u) lk1 = (out, lk', rx_q u'))"
proof -
  obtain lk1 u1 n where f: "flush_tx io lk u = (lk1, u1)" "link_inv lk1" "uart_inv u1"
    "l_parser lk1 = l_parser lk" "tx_q u1 = tx_q u @ take n (tx_pending lk)"
    "tx_pending lk1 = drop n (tx_pending lk)" "rx_q u1 = rx_q u"
    using flush_tx_spec[OF assms] by blast
  obtain out lk' u' where p: "poll_loop io now lk1 u1 = Some (out, lk', u')"
    "poll_bytes now (rx_q u1) lk1 = (out, lk', rx_q u')" "uart_inv u'" "tx_q u' = tx_q u1"
    using poll_loop_spec[OF f(3)] by blast
  have "link_inv lk' \<and> tx_pending lk' = tx_pending lk1" using poll_bytes_inv[OF f(2) p(2)] .
  then show ?thesis using f p by (auto simp: link_poll_def)
qed

end

context roomy_uart
begin

lemma flush_tx_room:
  assumes "link_inv lk" "uart_inv u" "length (tx_pending lk) \<le> tx_room u"
  shows "\<exists>lk' u'. flush_tx io lk u = (lk', u') \<and> link_inv lk' \<and> uart_inv u' \<and> l_parser lk' = l_parser lk \<and>
    tx_q u' = tx_q u @ tx_pending lk \<and> tx_pending lk' = [] \<and> rx_q u' = rx_q u"
proof (cases "l_tx_offset lk \<ge> l_tx_size lk")
  case True
  then show ?thesis using assms by (simp add: flush_tx_def tx_pending_def)
next
  case False
  obtain u' where w: "uart_write io (tx_pending lk) u = (length (tx_pending lk), u')" "uart_inv u'"
    "tx_q u' = tx_q u @ tx_pending lk" "rx_q u' = rx_q u"
    using write_prefix[OF assms(2), of "tx_pending lk"] write_room[OF assms(2,3)] by auto
  have "flush_tx io lk u = (lk\<lparr>l_tx_offset := 0, l_tx_size := 0\<rparr>, u')"
    using False w(1) length_tx_pending[OF assms(1)] by (simp add: flush_tx_def Let_def tx_pending_def)
  then show ?thesis using w assms(1) by (simp add: link_inv_def tx_pending_def)
qed

text \<open>With room in the buffer and on the line a frame is accepted and leaves at once.\<close>

lemma link_send_room:
  assumes "link_inv lk" "uart_inv u" "unat len \<le> kMaxPayload" "\<not> (len > 0 \<and> payload = None)"
    "length (tx_pending lk) + kHeaderSize + unat len + kCrcSize \<le> kTxCapacity"
    "length (tx_pending lk) + kMaxFrameSize \<le> tx_room u"
  shows "\<exists>lk' u'. link_send io ft seq msg payload len lk u = (Ok, lk', u') \<and> link_inv lk' \<and> uart_inv u' \<and>
    tx_pending lk' = [] \<and> rx_q u' = rx_q u \<and>
    tx_q u' = tx_q u @ tx_pending lk @ write_frame kMaxFrameSize ft seq msg (bytes_at payload len)"
proof -
  obtain lk2 where lk2: "link_send io ft seq msg payload len lk u = (case flush_tx io lk2 u of (lk3, u') \<Rightarrow> (Ok, lk3, u'))"
    "link_inv lk2" "tx_pending lk2 = tx_pending lk @ write_frame kMaxFrameSize ft seq msg (bytes_at payload len)"
    using link_send_Ok[OF assms(1,3,4,5), where io = io and u = u] by blast
  have "length (tx_pending lk2) \<le> tx_room u"
    using assms(6) lk2(3) by (simp add: write_frame_length)
  then show ?thesis using flush_tx_room[OF lk2(2) assms(2)] lk2 by auto
qed

end

section \<open>Properties\<close>

lemma poll_bytes_frame:
  assumes "feed_all bs (l_parser lk) = ([], s)" "feed True b s = (Some f, q)"
  shows "\<exists>lk'. poll_bytes now (bs @ b # rest) lk = (Some f, lk', rest) \<and> l_parser lk' = q"
  using assms(1)
proof (induction bs arbitrary: lk)
  case Nil
  then show ?case using assms(2) by (simp add: accept_byte_def)
next
  case (Cons c bs)
  obtain o1 p where c: "feed True c (l_parser lk) = (o1, p)" by fastforce
  have o1: "o1 = None" "feed_all bs p = ([], s)" using Cons.prems c by (auto split: prod.splits option.splits)
  obtain lk1 where lk1: "accept_byte now c lk = (None, lk1)" "l_parser lk1 = p"
    using c o1 by (auto simp: accept_byte_def Let_def)
  then show ?case using Cons.IH[of lk1] o1(2) by simp
qed

text \<open>
  Transmission neither loses, reorders nor invents bytes. Over any UART, the bytes on the line
  followed by the bytes still queued are, after an accepted \<open>send\<close>, the earlier ones followed by the
  complete frame; a refused \<open>send\<close> leaves line and queue untouched. The buffer invariant is kept.
\<close>

theorem link_send_conserves:
  assumes "uart io rx_q tx_q uart_inv" "link_inv lk" "uart_inv u"
    "link_send io ft seq msg payload len lk u = (st, lk', u')"
  shows "link_inv lk' \<and>
    tx_q u' @ tx_pending lk' = tx_q u @ tx_pending lk @
      (if st = Ok then write_frame kMaxFrameSize ft seq msg (bytes_at payload len) else [])"
  using uart.link_send_spec[OF assms(1-3), of ft seq msg payload len] assms(4) by auto

theorem link_send_conserves_witness:
  "\<exists>lk' u'. link_send app_side FtRequest 1 Ping None 0 link_init transport_init = (Ok, lk', u') \<and>
     ring_contents (app_to_mcu u') @ tx_pending lk' = write_frame kMaxFrameSize FtRequest 1 Ping []"
proof -
  obtain st lk' u' where s: "link_send app_side FtRequest 1 Ping None 0 link_init transport_init = (st, lk', u')"
    using prod_cases3 by blast
  have "st = Ok"
    using s by (auto simp: link_send_def Let_def compact_tx_def link_init_def limit_defs write_frame_def
        bytes_at_def frame_body_def split: prod.splits)
  then show ?thesis
    using s link_send_conserves[OF app_uart.uart_axioms link_inv_init(1) transport_inv_init s] link_inv_init(2)
    by (simp add: transport_init_def bytes_at_def)
qed

text \<open>
  Polling always returns, whatever bytes are waiting, and keeps the invariant: the read loop
  ends when the UART runs dry or a frame completes.
\<close>

theorem link_poll_returns:
  assumes "uart io rx_q tx_q uart_inv" "link_inv lk" "uart_inv u"
  shows "\<exists>out lk' u'. link_poll io now lk u = Some (out, lk', u') \<and> link_inv lk' \<and> uart_inv u' \<and>
    (case out of Some f \<Rightarrow> length (rx_q u') < length (rx_q u) | None \<Rightarrow> rx_q u' = [])"
proof -
  obtain out lk' u' lk1 where p: "link_poll io now lk u = Some (out, lk', u')" "link_inv lk'" "uart_inv u'"
    "poll_bytes now (rx_q u) lk1 = (out, lk', rx_q u')"
    using uart.link_poll_spec[OF assms] by blast
  have "rest = []" if "poll_bytes now bs lk1 = (None, lk', rest)" for bs lk1 rest
    using that by (induction bs arbitrary: lk1) (auto split: prod.splits option.splits)
  then show ?thesis using p poll_bytes_shorter by (cases out) auto
qed

theorem link_poll_returns_witness:
  "\<exists>out lk' u'. link_poll mcu_side 0 link_init transport_init = Some (out, lk', u')"
  using link_poll_returns[OF mcu_uart.uart_axioms link_inv_init(1) transport_inv_init, of 0] by blast

text \<open>
  C38: end to end over the in-memory transport. When the application's queue and the line to the MCU
  are empty and the MCU's receiver is idle, sending any frame succeeds, leaves the queue empty, and
  the MCU's next poll returns that frame: same type, sequence, message id and payload.
\<close>

theorem frame_delivery:
  assumes app: "link_inv a" "tx_pending a = []"
    and mcu: "link_inv m" "\<not> receiving m"
    and line: "transport_inv t" "ring_contents (app_to_mcu t) = []"
    and data: "length data \<le> 250" "wf_msg_id msg"
  shows "\<exists>a' t' f m' t''.
    link_send app_side ft seq msg (Some data) (of_nat (length data)) a t = (Ok, a', t') \<and>
    tx_pending a' = [] \<and> link_poll mcu_side now m t' = Some (Some f, m', t'') \<and> f_type f = ft \<and>
    f_seq f = seq \<and> f_msg f = msg \<and> payload_bytes f = data"
proof -
  have n: "bytes_at (Some data) (of_nat (length data)) = data" "unat (of_nat (length data) :: u16) = length data"
    using data(1) by (simp_all add: bytes_at_def unat_of_nat)
  obtain a' t' where s: "link_send app_side ft seq msg (Some data) (of_nat (length data)) a t = (Ok, a', t')"
    "tx_pending a' = []" "transport_inv t'"
    "(ring_contents \<circ> app_to_mcu) t' = (ring_contents \<circ> app_to_mcu) t @ tx_pending a @ write_frame kMaxFrameSize ft seq msg data"
    using app_uart.link_send_room[OF app(1) line(1), of "of_nat (length data)" "Some data" ft seq msg]
      data(1) app(2) line(2) n by (auto simp: limit_defs)
  have "parser_idle (l_parser m)"
    using mcu parser_idle_iff by (auto simp: link_inv_def receiving_def)
  then obtain bs b s f p where f: "write_frame kMaxFrameSize ft seq msg data = bs @ [b]"
    "feed_all bs (l_parser m) = ([], s)" "feed True b s = (Some f, p)" "f_type f = ft" "f_seq f = seq"
    "f_msg f = msg" "payload_bytes f = data"
    using feed_write_frame[of "l_parser m" data kMaxFrameSize ft seq msg] data
    by (auto simp: limit_defs wf_msg_id_def)
  obtain out m' t'' lk1 where p: "link_poll mcu_side now m t' = Some (out, m', t'')"
    "l_parser lk1 = l_parser m"
    "poll_bytes now ((ring_contents \<circ> app_to_mcu) t') lk1 = (out, m', (ring_contents \<circ> app_to_mcu) t'')"
    using mcu_uart.link_poll_spec[OF mcu(1) s(3)] by blast
  obtain lk2 where "poll_bytes now (bs @ b # []) lk1 = (Some f, lk2, [])"
    using poll_bytes_frame[of bs lk1 s b f p now "[]"] f(2,3) p(2) by auto
  then have "out = Some f" using p(3) s(4) f(1) app(2) line(2) by simp
  then show ?thesis using s(1,2) p(1) f(4-7) by blast
qed

theorem frame_delivery_witness:
  "\<exists>a' t' f m' t''.
    link_send app_side FtRequest 3 MotorSetTarget (Some [0x10, 0x27, 1]) 3 link_init transport_init = (Ok, a', t') \<and>
    tx_pending a' = [] \<and> link_poll mcu_side 0 link_init t' = Some (Some f, m', t'') \<and>
    f_type f = FtRequest \<and> f_seq f = 3 \<and> f_msg f = MotorSetTarget \<and> payload_bytes f = [0x10, 0x27, 1]"
proof -
  have m: "wf_msg_id MotorSetTarget" by (rule wf_named) (simp add: named_msg_ids_def)
  have r: "\<not> receiving link_init" by (simp add: receiving_def in_progress_def link_init_def parser_init_def)
  have t: "ring_contents (app_to_mcu transport_init) = []" by (simp add: transport_init_def)
  show ?thesis
    using frame_delivery[OF link_inv_init link_inv_init(1) r transport_inv_init t _ m,
        of "[0x10, 0x27, 1]" FtRequest 3 0] by simp
qed

end
