(* ===== verification/Telemetry_Store.thy ===== *)
theory Telemetry_Store
  imports C1link
begin

text \<open>
  \<open>src/app/telemetry_store.h\<close> and \<open>telemetry_store.cpp\<close>: the bounded history of telemetry samples,
  oldest first, and its window queries, in binary32. Shown here: the store is always the newest part
  of the complete history, and the hottest reading of a window is its true maximum. The mutex that
  serialises the operations between threads is not modelled; each operation is one step.
\<close>

section \<open>The store\<close>

record sample =
  s_t_ms :: millis
  s_deci_celsius :: deci_celsius
  s_rpm :: rpm
  s_grams :: grams
  s_flags :: u8

definition sample_init :: sample where
  "sample_init = \<lparr>s_t_ms = 0, s_deci_celsius = 0, s_rpm = 0, s_grams = 0, s_flags = 0\<rparr>"

type_synonym telemetry_store = "sample list"

definition kMaxSamples :: nat where [limit_defs]: "kMaxSamples = 360000"

definition store_append :: "sample \<Rightarrow> telemetry_store \<Rightarrow> telemetry_store" where
  "store_append s st = (let st1 = st @ [s] in if length st1 > kMaxSamples then tl st1 else st1)"

definition store_latest :: "telemetry_store \<Rightarrow> sample" where
  "store_latest st = (if st = [] then sample_init else last st)"

definition store_has_data :: "telemetry_store \<Rightarrow> bool" where
  "store_has_data st \<longleftrightarrow> st \<noteq> []"

text \<open>The loop of \<open>average_temp_c\<close>, over the samples newest first.\<close>

fun average_loop :: "millis \<Rightarrow> millis \<Rightarrow> sample list \<Rightarrow> f32 \<Rightarrow> nat \<Rightarrow> f32 \<times> nat" where
  "average_loop newest window [] acc n = (acc, n)"
| "average_loop newest window (s # ss) acc n =
     (if newest - s_t_ms s > window then (acc, n)
      else average_loop newest window ss (fadd acc (to_celsius (s_deci_celsius s))) (Suc n))"

definition average_temp_c :: "millis \<Rightarrow> telemetry_store \<Rightarrow> f32" where
  "average_temp_c window st =
     (if st = [] then 0
      else case average_loop (s_t_ms (last st)) window (rev st) 0 0 of
             (acc, n) \<Rightarrow> if n > 0 then fdiv acc (float_of (int n)) else 0)"

text \<open>The loop of \<open>max_temp_c\<close>.\<close>

fun max_loop :: "millis \<Rightarrow> millis \<Rightarrow> sample list \<Rightarrow> f32 \<Rightarrow> f32" where
  "max_loop newest window [] m = m"
| "max_loop newest window (s # ss) m =
     (if newest - s_t_ms s > window then m
      else let c = to_celsius (s_deci_celsius s)
           in max_loop newest window ss (if c > m then c else m))"

definition max_temp_c :: "millis \<Rightarrow> telemetry_store \<Rightarrow> f32" where
  "max_temp_c window st = (if st = [] then 0 else max_loop (s_t_ms (last st)) window (rev st) (- 1000))"

section \<open>Properties\<close>

text \<open>The samples of the trailing window, newest first.\<close>

definition window_of :: "millis \<Rightarrow> telemetry_store \<Rightarrow> sample list" where
  "window_of window st = takeWhile (\<lambda>s. \<not> s_t_ms (last st) - s_t_ms s > window) (rev st)"

lemma max_loop_takeWhile:
  "max_loop newest window ss m =
     fold max (map (to_celsius \<circ> s_deci_celsius) (takeWhile (\<lambda>s. \<not> newest - s_t_ms s > window) ss)) m"
  by (induction ss arbitrary: m) (auto simp: Let_def max_def)

lemma window_not_empty: "st \<noteq> [] \<Longrightarrow> last st \<in> set (window_of window st)"
  by (cases st rule: rev_cases) (simp_all add: window_of_def)

lemma average_loop_count:
  "snd (average_loop newest window ss acc n) = n + length (takeWhile (\<lambda>s. \<not> newest - s_t_ms s > window) ss)"
  by (induction ss arbitrary: acc n) auto

lemma to_celsius_ge: "- 4000 \<le> to_celsius d"
proof -
  have "- 32768 \<le> sint d" using sint_16_bound[of d] by (simp add: abs_le_iff)
  then have "\<not> to_celsius d < of_int (- 4000)" using to_celsius_less[of "- 4000" d] by simp
  then show ?thesis by simp
qed

text \<open>
  The store is a sliding window over the complete history: after any number of appends it holds
  exactly the newest 360,000 samples, in order.
\<close>

theorem store_is_history_suffix:
  "fold store_append samples [] = drop (length samples - kMaxSamples) samples"
proof (induction samples rule: rev_induct)
  case (snoc s ss)
  show ?case
  proof (cases "length ss < kMaxSamples")
    case True
    then show ?thesis using snoc by (simp add: store_append_def)
  next
    case False
    have m: "0 < kMaxSamples" by (simp add: limit_defs)
    let ?d = "drop (length ss - kMaxSamples) ss"
    have "length ?d = kMaxSamples" using False by simp
    then have "tl (?d @ [s]) = tl ?d @ [s]" using m by (cases ?d) auto
    also have "tl ?d = drop (Suc (length ss) - kMaxSamples) ss" using False by (simp add: tl_drop Suc_diff_le drop_Suc)
    finally show ?thesis using snoc False m by (simp add: store_append_def)
  qed
qed simp

text \<open>
  For readings down to the sensor's physical range (no colder than minus 1000 degrees), the hottest
  reading of a non-empty store is the maximum over the trailing window, which contains the newest sample;
  so the display's hot-bowl test (above 60 degrees) holds exactly if some sample of the window is above
  600 tenths of a degree.
\<close>

theorem max_temp_is_maximum:
  assumes "st \<noteq> []" "\<forall>s \<in> set st. - 10000 \<le> sint (s_deci_celsius s)"
  shows "max_temp_c window st = Max (to_celsius ` s_deci_celsius ` set (window_of window st)) \<and>
    (max_temp_c window st > 60 \<longleftrightarrow> (\<exists>s \<in> set (window_of window st). 600 < sint (s_deci_celsius s)))"
proof -
  let ?w = "window_of window st"
  let ?temps = "map (to_celsius \<circ> s_deci_celsius) ?w"
  have ne: "?w \<noteq> []" using window_not_empty[OF assms(1), of window] by auto
  have "max_temp_c window st = fold max ?temps (- 1000)"
    using assms(1) by (simp add: max_temp_c_def max_loop_takeWhile window_of_def)
  also have "\<dots> = Max (insert (- 1000) (set ?temps))" using Max.set_eq_fold[of "- 1000 :: f32" ?temps] by simp
  also have "\<dots> = max (- 1000) (Max (set ?temps))" using ne by (intro Max_insert) auto
  finally have m: "max_temp_c window st = max (- 1000) (Max (set ?temps))" .
  have "last st \<in> set st" using assms(1) by simp
  then have "\<not> to_celsius (s_deci_celsius (last st)) < of_int (- 1000)"
    using assms(2) by (subst to_celsius_less) auto
  moreover have "to_celsius (s_deci_celsius (last st)) \<le> Max (set ?temps)"
    using window_not_empty[OF assms(1), of window] by (intro Max_ge) auto
  ultimately have eq: "max_temp_c window st = Max (set ?temps)" unfolding m by simp
  have "(60 :: f32) < Max (set ?temps) \<longleftrightarrow> (\<exists>x \<in> set ?temps. 60 < x)" using ne by (intro Max_gr_iff) auto
  also have "\<dots> \<longleftrightarrow> (\<exists>s \<in> set ?w. 600 < sint (s_deci_celsius s))" using to_celsius_greater[of 60] by auto
  finally show ?thesis by (simp add: eq image_comp)
qed

theorem max_temp_is_maximum_witness:
  "max_temp_c 2000 [sample_init\<lparr>s_t_ms := 5000, s_deci_celsius := 900\<rparr>, sample_init\<lparr>s_t_ms := 8000, s_deci_celsius := 610\<rparr>]
     > 60"
  using max_temp_is_maximum[of "[sample_init\<lparr>s_t_ms := 5000, s_deci_celsius := 900\<rparr>, sample_init\<lparr>s_t_ms := 8000, s_deci_celsius := 610\<rparr>]" 2000]
  by (simp add: window_of_def)

end
