(* ===== verification/Mcu_Client.thy ===== *)
theory Mcu_Client
  imports Link Telemetry_Store
begin

text \<open>
  \<open>src/app/mcu_client.h\<close> and \<open>mcu_client.cpp\<close>: the application's view of the safety MCU. It sends one
  request at a time, repeats it once when no reply has arrived after 50 ms, gives up at the latest
  after 150 ms, routes telemetry into the store and keeps the link alive with a heartbeat. Shown here:
  only the matching reply completes a request, no request stays open past its deadline, and between
  requests the line is never silent for a second unless the transmit buffer is full.
\<close>

section \<open>State\<close>

record 'u mcu_client =
  cl_uart :: 'u
  cl_link :: link
  cl_store :: telemetry_store
  cl_next_seq :: u8
  cl_pending_seq :: u8
  cl_waiting :: bool
  cl_pending_msg_id :: msg_id
  cl_response_ready :: bool
  cl_response :: frame
  cl_last_fault :: fault_code
  cl_sent_at_ms :: millis
  cl_request_started_ms :: millis
  cl_retried :: bool
  cl_pending_payload :: "u8 list"
  cl_pending_payload_len :: u16
  cl_last_command_status :: status
  cl_last_tx_ms :: millis

definition kResponseTimeoutMs :: millis where [limit_defs]: "kResponseTimeoutMs = 50"
definition kRequestDeadlineMs :: millis where [limit_defs]: "kRequestDeadlineMs = 150"
definition kHeartbeatIntervalMs :: millis where [limit_defs]: "kHeartbeatIntervalMs = 1000"

definition client_init :: "'u \<Rightarrow> 'u mcu_client" where
  "client_init u = \<lparr>cl_uart = u, cl_link = link_init, cl_store = [], cl_next_seq = 0, cl_pending_seq = 0,
     cl_waiting = False, cl_pending_msg_id = Ping, cl_response_ready = False, cl_response = frame_init,
     cl_last_fault = FaultNone, cl_sent_at_ms = 0, cl_request_started_ms = 0, cl_retried = False,
     cl_pending_payload = replicate kMaxPayload 0, cl_pending_payload_len = 0, cl_last_command_status = Ok,
     cl_last_tx_ms = 0\<rparr>"

section \<open>Requests\<close>

definition client_send ::
  "'u uart_ops \<Rightarrow> u8 \<Rightarrow> msg_id \<Rightarrow> u8 list option \<Rightarrow> u16 \<Rightarrow> 'u mcu_client \<Rightarrow> status \<times> 'u mcu_client" where
  "client_send io seq msg payload len c =
     (case link_send io FtRequest seq msg payload len (cl_link c) (cl_uart c) of
        (st, lk, u) \<Rightarrow> (st, c\<lparr>cl_link := lk, cl_uart := u\<rparr>))"

definition client_request ::
  "'u uart_ops \<Rightarrow> millis \<Rightarrow> msg_id \<Rightarrow> u8 list option \<Rightarrow> u16 \<Rightarrow> 'u mcu_client \<Rightarrow> status \<times> 'u mcu_client" where
  "client_request io now msg payload len c =
     (if cl_waiting c \<or> cl_response_ready c then (NotReady, c)
      else if unat len > kMaxPayload \<or> (len > 0 \<and> payload = None) then (InvalidArgument, c)
      else let c1 = c\<lparr>cl_pending_seq := cl_next_seq c, cl_next_seq := cl_next_seq c + 1\<rparr>;
               (sent, c2) = client_send io (cl_pending_seq c1) msg payload len c1
           in if sent \<noteq> Ok then (sent, c2)
              else (Ok, c2\<lparr>cl_waiting := True, cl_pending_msg_id := msg, cl_response_ready := False,
                          cl_sent_at_ms := now, cl_request_started_ms := now, cl_last_tx_ms := now,
                          cl_retried := False, cl_last_command_status := Ok,
                          cl_pending_payload := (if len > 0 then blit (cl_pending_payload c2) 0 (bytes_at payload len)
                                                 else cl_pending_payload c2),
                          cl_pending_payload_len := len\<rparr>))"

definition client_set_motor :: "'u uart_ops \<Rightarrow> millis \<Rightarrow> rpm \<Rightarrow> u8 \<Rightarrow> 'u mcu_client \<Rightarrow> status \<times> 'u mcu_client" where
  "client_set_motor io now r ramp_profile c =
     client_request io now MotorSetTarget (Some (put_u16 r @ [ramp_profile])) 3 c"

definition client_motor_stop :: "'u uart_ops \<Rightarrow> millis \<Rightarrow> 'u mcu_client \<Rightarrow> status \<times> 'u mcu_client" where
  "client_motor_stop io now c = client_request io now MotorStop None 0 c"

definition client_set_heater :: "'u uart_ops \<Rightarrow> millis \<Rightarrow> deci_celsius \<Rightarrow> 'u mcu_client \<Rightarrow> status \<times> 'u mcu_client" where
  "client_set_heater io now target c = client_request io now HeaterSetTarget (Some (put_i16 target)) 2 c"

definition client_heater_off :: "'u uart_ops \<Rightarrow> millis \<Rightarrow> 'u mcu_client \<Rightarrow> status \<times> 'u mcu_client" where
  "client_heater_off io now c = client_request io now HeaterOff None 0 c"

definition client_tare :: "'u uart_ops \<Rightarrow> millis \<Rightarrow> 'u mcu_client \<Rightarrow> status \<times> 'u mcu_client" where
  "client_tare io now c = client_request io now ScaleTare None 0 c"

definition client_lock_lid :: "'u uart_ops \<Rightarrow> millis \<Rightarrow> bool \<Rightarrow> 'u mcu_client \<Rightarrow> status \<times> 'u mcu_client" where
  "client_lock_lid io now locked c = client_request io now (if locked then LidLock else LidUnlock) None 0 c"

definition take_response :: "'u mcu_client \<Rightarrow> frame option \<times> 'u mcu_client" where
  "take_response c =
     (if \<not> cl_response_ready c then (None, c)
      else (Some (cl_response c), c\<lparr>cl_response_ready := False\<rparr>))"

definition clear_command_status :: "'u mcu_client \<Rightarrow> 'u mcu_client" where
  "clear_command_status c = c\<lparr>cl_last_command_status := Ok\<rparr>"

definition clear_fault :: "'u mcu_client \<Rightarrow> 'u mcu_client" where
  "clear_fault c = c\<lparr>cl_last_fault := FaultNone\<rparr>"

section \<open>Polling\<close>

text \<open>The first part of \<open>poll\<close>: deadline, retry and time-out of the open request.\<close>

definition client_give_up :: "'u mcu_client \<Rightarrow> 'u mcu_client" where
  "client_give_up c = c\<lparr>cl_link := cancel_pending_tx (cl_link c), cl_waiting := False, cl_last_command_status := Timeout\<rparr>"

definition client_retry :: "'u uart_ops \<Rightarrow> millis \<Rightarrow> 'u mcu_client \<Rightarrow> 'u mcu_client" where
  "client_retry io now c =
     (case client_send io (cl_next_seq c) (cl_pending_msg_id c) (Some (cl_pending_payload c)) (cl_pending_payload_len c) c of
        (st, c1) \<Rightarrow>
          if st = Ok
          then c1\<lparr>cl_next_seq := cl_next_seq c + 1, cl_pending_seq := cl_next_seq c, cl_retried := True,
                  cl_sent_at_ms := now, cl_last_tx_ms := now\<rparr>
          else c1)"

definition client_timeouts :: "'u uart_ops \<Rightarrow> millis \<Rightarrow> 'u mcu_client \<Rightarrow> 'u mcu_client" where
  "client_timeouts io now c =
     (if cl_waiting c \<and> now - cl_request_started_ms c \<ge> kRequestDeadlineMs then client_give_up c
      else if cl_waiting c \<and> sint (now - cl_sent_at_ms c - kResponseTimeoutMs) > 0
      then (if \<not> cl_retried c then client_retry io now c else client_give_up c)
      else c)"

text \<open>One received frame.\<close>

definition client_frame :: "millis \<Rightarrow> frame \<Rightarrow> 'u mcu_client \<Rightarrow> 'u mcu_client" where
  "client_frame now f c =
     (if f_type f = FtTelemetry \<and> f_msg f = MsgTelemetry \<and> unat (f_len f) = kTelemetryPayloadSize
      then c\<lparr>cl_store := store_append
               \<lparr>s_t_ms = now, s_deci_celsius = get_i16 (drop 4 (f_payload f)), s_rpm = get_u16 (drop 6 (f_payload f)),
                s_grams = get_i32 (drop 8 (f_payload f)), s_flags = f_payload f ! 12\<rparr> (cl_store c)\<rparr>
      else if f_type f = FtTelemetry \<and> f_msg f = MsgFault \<and> f_len f = 1
      then c\<lparr>cl_last_fault := fault_of_byte (f_payload f ! 0)\<rparr>
      else if f_type f = FtResponse \<or> f_type f = FtNack
      then (if cl_waiting c \<and> f_msg f = cl_pending_msg_id c \<and> f_seq f = cl_pending_seq c
            then c\<lparr>cl_response := f, cl_response_ready := True, cl_waiting := False,
                   cl_last_command_status := (if f_type f = FtResponse then Ok else ProtocolError)\<rparr>
            else c)
      else c)"

partial_function (option) client_pump :: "'u uart_ops \<Rightarrow> millis \<Rightarrow> 'u mcu_client \<Rightarrow> 'u mcu_client option" where
  "client_pump io now c =
     Option.bind (link_poll io now (cl_link c) (cl_uart c))
       (\<lambda>(out, lk, u). case out of
            None \<Rightarrow> Some (c\<lparr>cl_link := lk, cl_uart := u\<rparr>)
          | Some f \<Rightarrow> client_pump io now (client_frame now f (c\<lparr>cl_link := lk, cl_uart := u\<rparr>)))"

declare client_pump.simps [code]

definition client_heartbeat :: "'u uart_ops \<Rightarrow> millis \<Rightarrow> 'u mcu_client \<Rightarrow> 'u mcu_client" where
  "client_heartbeat io now c =
     (if \<not> cl_waiting c \<and> now - cl_last_tx_ms c \<ge> kHeartbeatIntervalMs
      then case client_send io (cl_next_seq c) Ping None 0 (c\<lparr>cl_next_seq := cl_next_seq c + 1\<rparr>) of
             (st, c1) \<Rightarrow> if st = Ok then c1\<lparr>cl_last_tx_ms := now\<rparr> else c1
      else c)"

definition client_poll :: "'u uart_ops \<Rightarrow> millis \<Rightarrow> 'u mcu_client \<Rightarrow> 'u mcu_client option" where
  "client_poll io now c = map_option (client_heartbeat io now) (client_pump io now (client_timeouts io now c))"

section \<open>Invariant\<close>

definition client_inv :: "'u mcu_client \<Rightarrow> bool" where
  "client_inv c \<longleftrightarrow> link_inv (cl_link c) \<and> length (cl_pending_payload c) = kMaxPayload \<and>
     unat (cl_pending_payload_len c) \<le> kMaxPayload \<and> \<not> (cl_waiting c \<and> cl_response_ready c)"

lemma client_inv_init: "client_inv (client_init u)"
  by (simp add: client_inv_def client_init_def link_inv_init)

lemma client_inv_link: "client_inv c \<Longrightarrow> link_inv lk \<Longrightarrow> client_inv (c\<lparr>cl_link := lk, cl_uart := u\<rparr>)"
  by (simp add: client_inv_def)

lemma client_frame_inv: "client_inv c \<Longrightarrow> client_inv (client_frame now f c)"
  by (simp add: client_inv_def client_frame_def)

lemma client_frame_keeps [simp]:
  "cl_link (client_frame now f c) = cl_link c" "cl_uart (client_frame now f c) = cl_uart c"
  "cl_request_started_ms (client_frame now f c) = cl_request_started_ms c"
  "cl_last_tx_ms (client_frame now f c) = cl_last_tx_ms c"
  by (auto simp: client_frame_def split: if_splits)

lemma client_frame_waiting: "cl_waiting (client_frame now f c) \<Longrightarrow> cl_waiting c"
  by (auto simp: client_frame_def split: if_splits)

lemma client_send_record:
  "\<exists>lk u. snd (client_send io seq msg payload len c) = c\<lparr>cl_link := lk, cl_uart := u\<rparr>"
  by (auto simp: client_send_def split: prod.splits)

lemma client_give_up_inv: "client_inv c \<Longrightarrow> client_inv (client_give_up c)"
  using cancel_pending_tx_inv by (simp add: client_inv_def client_give_up_def)

context uart
begin

lemma client_send_spec:
  assumes "link_inv (cl_link c)" "uart_inv (cl_uart c)"
  shows "\<exists>st lk u. client_send io seq msg payload len c = (st, c\<lparr>cl_link := lk, cl_uart := u\<rparr>) \<and>
    link_inv lk \<and> uart_inv u \<and> rx_q u = rx_q (cl_uart c) \<and>
    (st = Ok \<longrightarrow> tx_q u @ tx_pending lk = tx_q (cl_uart c) @ tx_pending (cl_link c) @
       write_frame kMaxFrameSize FtRequest seq msg (bytes_at payload len)) \<and>
    (st \<noteq> Ok \<longrightarrow> u = cl_uart c \<and> tx_pending lk = tx_pending (cl_link c))"
proof -
  obtain st lk u where s: "link_send io FtRequest seq msg payload len (cl_link c) (cl_uart c) = (st, lk, u)" "link_inv lk"
    "uart_inv u" "rx_q u = rx_q (cl_uart c)"
    "st = Ok \<longrightarrow> tx_q u @ tx_pending lk = tx_q (cl_uart c) @ tx_pending (cl_link c) @
       write_frame kMaxFrameSize FtRequest seq msg (bytes_at payload len)"
    "st \<noteq> Ok \<longrightarrow> u = cl_uart c \<and> tx_pending lk = tx_pending (cl_link c)"
    using link_send_spec[OF assms, of FtRequest seq msg payload len] by blast
  have "client_send io seq msg payload len c = (st, c\<lparr>cl_link := lk, cl_uart := u\<rparr>)" by (simp add: client_send_def s(1))
  then show ?thesis using s(2-6) by blast
qed

lemma client_request_spec:
  assumes "client_inv c" "uart_inv (cl_uart c)"
  shows "client_inv (snd (client_request io now msg payload len c)) \<and>
    uart_inv (cl_uart (snd (client_request io now msg payload len c)))"
proof (cases "cl_waiting c \<or> cl_response_ready c \<or> unat len > kMaxPayload \<or> (len > 0 \<and> payload = None)")
  case True
  then show ?thesis using assms by (auto simp: client_request_def)
next
  case False
  let ?c1 = "c\<lparr>cl_pending_seq := cl_next_seq c, cl_next_seq := cl_next_seq c + 1\<rparr>"
  have k: "link_inv (cl_link ?c1)" "uart_inv (cl_uart ?c1)" using assms by (simp_all add: client_inv_def)
  obtain st lk u where s: "client_send io (cl_next_seq c) msg payload len ?c1 = (st, ?c1\<lparr>cl_link := lk, cl_uart := u\<rparr>)"
    "link_inv lk" "uart_inv u"
    using client_send_spec[OF k, of "cl_next_seq c" msg payload len] by blast
  have "length (bytes_at payload len) \<le> kMaxPayload" using False by (auto simp: bytes_at_def split: option.splits)
  then have l: "length (if len > 0 then blit (cl_pending_payload c) 0 (bytes_at payload len) else cl_pending_payload c) = kMaxPayload"
    using assms(1) by (simp add: client_inv_def)
  have "cl_waiting c = False" "cl_response_ready c = False" "(unat len > kMaxPayload \<or> (len > 0 \<and> payload = None)) = False"
    using False by blast+
  note r = client_request_def[of io now msg payload len c, unfolded this Let_def, simplified, unfolded s(1)]
  show ?thesis
    using assms s(2,3) l False unfolding r client_inv_def by (cases "st = Ok"; cases "0 < len") simp_all
qed

lemma client_timeouts_spec:
  assumes "client_inv c" "uart_inv (cl_uart c)"
  shows "client_inv (client_timeouts io now c) \<and> uart_inv (cl_uart (client_timeouts io now c)) \<and>
    cl_request_started_ms (client_timeouts io now c) = cl_request_started_ms c \<and>
    (cl_waiting (client_timeouts io now c) \<longrightarrow> cl_waiting c \<and> now - cl_request_started_ms c < kRequestDeadlineMs)"
proof -
  have g: "client_inv (client_give_up c)" "uart_inv (cl_uart (client_give_up c))" "\<not> cl_waiting (client_give_up c)"
    "cl_request_started_ms (client_give_up c) = cl_request_started_ms c"
    using assms client_give_up_inv by (simp_all add: client_give_up_def)
  have k: "link_inv (cl_link c)" using assms(1) by (simp add: client_inv_def)
  obtain st lk u where "client_send io (cl_next_seq c) (cl_pending_msg_id c) (Some (cl_pending_payload c))
      (cl_pending_payload_len c) c = (st, c\<lparr>cl_link := lk, cl_uart := u\<rparr>)" "link_inv lk" "uart_inv u"
    using client_send_spec[OF k assms(2)] by blast
  then have r: "client_inv (client_retry io now c)" "uart_inv (cl_uart (client_retry io now c))"
    "cl_waiting (client_retry io now c) = cl_waiting c"
    "cl_request_started_ms (client_retry io now c) = cl_request_started_ms c"
    using assms by (simp_all add: client_retry_def client_inv_def)
  show ?thesis
  proof (cases "cl_waiting c \<and> now - cl_request_started_ms c \<ge> kRequestDeadlineMs")
    case True
    then have "client_timeouts io now c = client_give_up c" by (simp add: client_timeouts_def)
    then show ?thesis using g by simp
  next
    case False
    then have w: "cl_waiting c \<longrightarrow> now - cl_request_started_ms c < kRequestDeadlineMs" by (simp only: not_le de_Morgan_conj imp_conv_disj)
    have "client_timeouts io now c = client_give_up c \<or> client_timeouts io now c = client_retry io now c \<or> client_timeouts io now c = c"
      unfolding client_timeouts_def by presburger
    then show ?thesis using assms g r w by (elim disjE) simp_all
  qed
qed

text \<open>The pump returns, and whatever every frame and every link operation keeps holds when it does.\<close>

lemma client_pump_rule:
  assumes "client_inv c" "uart_inv (cl_uart c)" "P c"
    and step: "\<And>c f. client_inv c \<Longrightarrow> P c \<Longrightarrow> P (client_frame now f c)"
    and line: "\<And>c lk u. P c \<Longrightarrow> P (c\<lparr>cl_link := lk, cl_uart := u\<rparr>)"
  shows "\<exists>c'. client_pump io now c = Some c' \<and> P c' \<and> client_inv c' \<and> uart_inv (cl_uart c')"
  using assms(1-3)
proof (induction "length (rx_q (cl_uart c))" arbitrary: c rule: less_induct)
  case less
  have k: "link_inv (cl_link c)" using less.prems(1) by (simp add: client_inv_def)
  obtain out lk u lk1 where p: "link_poll io now (cl_link c) (cl_uart c) = Some (out, lk, u)" "link_inv lk"
    "uart_inv u" "poll_bytes now (rx_q (cl_uart c)) lk1 = (out, lk, rx_q u)"
    using link_poll_spec[OF k less.prems(2)] by blast
  let ?c = "c\<lparr>cl_link := lk, cl_uart := u\<rparr>"
  have c: "client_inv ?c" "uart_inv (cl_uart ?c)" "P ?c" using less.prems p(2,3) client_inv_link line by simp_all
  show ?case
  proof (cases out)
    case None
    then have "client_pump io now c = Some ?c" by (subst client_pump.simps) (simp add: p(1))
    then show ?thesis using c by simp
  next
    case (Some f)
    have eq: "client_pump io now c = client_pump io now (client_frame now f ?c)"
      by (subst client_pump.simps) (simp add: p(1) Some)
    have "length (rx_q (cl_uart (client_frame now f ?c))) < length (rx_q (cl_uart c))"
      using poll_bytes_shorter p(4) Some by simp
    from less.hyps[OF this client_frame_inv[OF c(1)] _ step[OF c(1,3)]] show ?thesis unfolding eq using c(2) by simp
  qed
qed

lemma client_heartbeat_spec:
  assumes "client_inv c" "uart_inv (cl_uart c)"
  shows "client_inv (client_heartbeat io now c) \<and> uart_inv (cl_uart (client_heartbeat io now c)) \<and>
    cl_waiting (client_heartbeat io now c) = cl_waiting c \<and>
    cl_request_started_ms (client_heartbeat io now c) = cl_request_started_ms c \<and>
    (\<not> cl_waiting c \<longrightarrow> now - cl_last_tx_ms (client_heartbeat io now c) < kHeartbeatIntervalMs \<or>
       length (tx_pending (cl_link c)) > 1030)"
proof (cases "\<not> cl_waiting c \<and> now - cl_last_tx_ms c \<ge> kHeartbeatIntervalMs")
  case True
  let ?c1 = "c\<lparr>cl_next_seq := cl_next_seq c + 1\<rparr>"
  have k: "link_inv (cl_link ?c1)" "uart_inv (cl_uart ?c1)" using assms by (simp_all add: client_inv_def)
  obtain st lk u where s: "client_send io (cl_next_seq c) Ping None 0 ?c1 = (st, ?c1\<lparr>cl_link := lk, cl_uart := u\<rparr>)"
    "link_inv lk" "uart_inv u"
    using client_send_spec[OF k, of "cl_next_seq c" Ping None 0] by blast
  have "st = Ok" if "\<not> length (tx_pending (cl_link c)) > 1030"
  proof -
    have "length (tx_pending (cl_link c)) + kHeaderSize + unat (0 :: u16) + kCrcSize \<le> kTxCapacity"
      using that by (simp add: limit_defs)
    then have "fst (link_send io FtRequest (cl_next_seq c) Ping None 0 (cl_link c) (cl_uart c)) = Ok"
      using link_send_Ok[of "cl_link c" 0 None io FtRequest "cl_next_seq c" Ping "cl_uart c"] k by (auto split: prod.splits)
    then show ?thesis using s(1) by (auto simp: client_send_def split: prod.splits)
  qed
  then show ?thesis using True s assms by (auto simp: client_heartbeat_def client_inv_def limit_defs)
next
  case False
  then show ?thesis using assms by (auto simp: client_heartbeat_def)
qed

text \<open>A response on the line completes the open request in the next poll.\<close>

lemma client_poll_reply:
  assumes c: "client_inv c" "uart_inv (cl_uart c)" "\<not> receiving (cl_link c)"
    and request: "cl_waiting c" "cl_pending_msg_id c = msg" "cl_pending_seq c = seq" "wf_msg_id msg"
    and line: "rx_q (cl_uart c) = write_frame kMaxFrameSize FtResponse seq msg data" "length data \<le> kMaxPayload"
    and time: "now - cl_request_started_ms c < kRequestDeadlineMs" "sint (now - cl_sent_at_ms c - kResponseTimeoutMs) \<le> 0"
      "now - cl_last_tx_ms c < kHeartbeatIntervalMs"
  shows "\<exists>c' f. client_poll io now c = Some c' \<and> client_inv c' \<and> uart_inv (cl_uart c') \<and> \<not> receiving (cl_link c') \<and>
    cl_response_ready c' \<and> cl_response c' = f \<and> f_type f = FtResponse \<and> f_msg f = msg \<and> payload_bytes f = data \<and>
    \<not> cl_waiting c' \<and> cl_last_command_status c' = Ok \<and> cl_next_seq c' = cl_next_seq c \<and> rx_q (cl_uart c') = [] \<and>
    length (tx_pending (cl_link c')) \<le> length (tx_pending (cl_link c))"
proof -
  have lk: "link_inv (cl_link c)" using c(1) by (simp add: client_inv_def)
  then have "parser_idle (l_parser (cl_link c))" using c(3) parser_idle_iff by (auto simp: link_inv_def receiving_def)
  then obtain bs b st f q where w: "write_frame kMaxFrameSize FtResponse seq msg data = bs @ [b]"
    "feed_all bs (l_parser (cl_link c)) = ([], st)" "feed True b st = (Some f, q)" "parser_idle q"
    "f_type f = FtResponse" "f_seq f = seq" "f_msg f = msg" "payload_bytes f = data"
    using feed_write_frame[of "l_parser (cl_link c)" data kMaxFrameSize FtResponse seq msg] line(2) request(4)
    by (auto simp: limit_defs wf_msg_id_def)
  obtain out lk1 u1 lk0 n where p: "link_poll io now (cl_link c) (cl_uart c) = Some (out, lk1, u1)" "link_inv lk1" "uart_inv u1"
    "l_parser lk0 = l_parser (cl_link c)" "poll_bytes now (rx_q (cl_uart c)) lk0 = (out, lk1, rx_q u1)"
    "tx_pending lk1 = drop n (tx_pending (cl_link c))"
    using link_poll_spec[OF lk c(2)] by blast
  obtain lk2 where "poll_bytes now (bs @ b # []) lk0 = (Some f, lk2, [])" "l_parser lk2 = q"
    using poll_bytes_frame[of bs lk0 st b f q now "[]"] w(2,3) p(4) by auto
  then have out: "out = Some f" "rx_q u1 = []" "l_parser lk1 = q" using p(5) line(1) w(1) by auto
  let ?c1 = "client_frame now f (c\<lparr>cl_link := lk1, cl_uart := u1\<rparr>)"
  have c1: "?c1 = c\<lparr>cl_link := lk1, cl_uart := u1, cl_response := f, cl_response_ready := True, cl_waiting := False,
      cl_last_command_status := Ok\<rparr>"
    using w(5-7) request(1-3) by (simp add: client_frame_def)
  obtain out2 lk3 u3 lk4 m where p2: "link_poll io now lk1 u1 = Some (out2, lk3, u3)" "link_inv lk3" "uart_inv u3"
    "l_parser lk4 = l_parser lk1" "poll_bytes now (rx_q u1) lk4 = (out2, lk3, rx_q u3)"
    "tx_pending lk3 = drop m (tx_pending lk1)"
    using link_poll_spec[OF p(2,3)] by blast
  have out2: "out2 = None" "rx_q u3 = []" "\<not> receiving lk3"
    using p2(4,5) out(2,3) w(4) by (auto simp: drop_expired_def receiving_def in_progress_def parser_idle_def parser_reset_def split: if_splits)
  let ?c3 = "?c1\<lparr>cl_link := lk3, cl_uart := u3\<rparr>"
  have t: "client_timeouts io now c = c"
    using time(1,2) by (simp add: client_timeouts_def not_le[symmetric])
  have pump: "client_pump io now c = Some ?c3"
    by (subst client_pump.simps, subst client_pump.simps) (simp add: p(1) p2(1) out(1) out2(1))
  have i: "client_inv ?c3" using client_inv_link[OF client_frame_inv[OF client_inv_link[OF c(1) p(2)]] p2(2)] .
  have h: "client_heartbeat io now ?c3 = ?c3" using time(3) by (simp add: client_heartbeat_def c1 not_le)
  have "client_poll io now c = Some ?c3" by (simp add: client_poll_def t pump h)
  then show ?thesis using i p2(3,6) p(6) out2 w(5-8) unfolding c1 by (intro exI[of _ ?c3] exI[of _ f]) (simp add: c1)
qed

text \<open>A poll without anything to do, and a request that is accepted.\<close>

lemma client_poll_quiet:
  assumes "client_inv c" "uart_inv (cl_uart c)" "\<not> receiving (cl_link c)" "rx_q (cl_uart c) = []" "\<not> cl_waiting c"
    "now - cl_last_tx_ms c < kHeartbeatIntervalMs"
  shows "\<exists>lk u. client_poll io now c = Some (c\<lparr>cl_link := lk, cl_uart := u\<rparr>) \<and> link_inv lk \<and> uart_inv u \<and>
    \<not> receiving lk \<and> rx_q u = [] \<and> length (tx_pending lk) \<le> length (tx_pending (cl_link c))"
proof -
  have lk: "link_inv (cl_link c)" using assms(1) by (simp add: client_inv_def)
  obtain out lk1 u1 lk0 n where p: "link_poll io now (cl_link c) (cl_uart c) = Some (out, lk1, u1)" "link_inv lk1" "uart_inv u1"
    "l_parser lk0 = l_parser (cl_link c)" "poll_bytes now (rx_q (cl_uart c)) lk0 = (out, lk1, rx_q u1)"
    "tx_pending lk1 = drop n (tx_pending (cl_link c))"
    using link_poll_spec[OF lk assms(2)] by blast
  have out: "out = None" "rx_q u1 = []" "\<not> receiving lk1"
    using p(4,5) assms(3,4) by (auto simp: drop_expired_def receiving_def in_progress_def parser_reset_def split: if_splits)
  have t: "client_timeouts io now c = c" using assms(5) by (simp add: client_timeouts_def)
  have "client_pump io now c = Some (c\<lparr>cl_link := lk1, cl_uart := u1\<rparr>)"
    by (subst client_pump.simps) (simp add: p(1) out(1))
  moreover have "client_heartbeat io now (c\<lparr>cl_link := lk1, cl_uart := u1\<rparr>) = c\<lparr>cl_link := lk1, cl_uart := u1\<rparr>"
    using assms(6) leD by (auto simp: client_heartbeat_def)
  ultimately show ?thesis using p(2,3,6) out by (intro exI[of _ lk1] exI[of _ u1]) (simp add: client_poll_def t)
qed

lemma client_request_accepted:
  assumes "client_inv c" "uart_inv (cl_uart c)" "\<not> cl_waiting c" "\<not> cl_response_ready c" "length (tx_pending (cl_link c)) \<le> 1030"
  shows "\<exists>lk u. client_request io now msg None 0 c = (Ok, c\<lparr>cl_pending_seq := cl_next_seq c, cl_next_seq := cl_next_seq c + 1,
      cl_link := lk, cl_uart := u, cl_waiting := True, cl_pending_msg_id := msg, cl_response_ready := False,
      cl_sent_at_ms := now, cl_request_started_ms := now, cl_last_tx_ms := now, cl_retried := False,
      cl_last_command_status := Ok, cl_pending_payload_len := 0\<rparr>) \<and>
    link_inv lk \<and> uart_inv u \<and> rx_q u = rx_q (cl_uart c) \<and> receiving lk = receiving (cl_link c) \<and>
    length (tx_pending lk) \<le> length (tx_pending (cl_link c)) + 10"
proof -
  let ?c1 = "c\<lparr>cl_pending_seq := cl_next_seq c, cl_next_seq := cl_next_seq c + 1\<rparr>"
  have lk: "link_inv (cl_link c)" using assms(1) by (simp add: client_inv_def)
  have room: "length (tx_pending (cl_link c)) + kHeaderSize + unat (0 :: u16) + kCrcSize \<le> kTxCapacity"
    using assms(5) by (simp add: limit_defs)
  obtain lk2 where lk2: "link_send io FtRequest (cl_next_seq c) msg None 0 (cl_link c) (cl_uart c) =
      (case flush_tx io lk2 (cl_uart c) of (lk3, u') \<Rightarrow> (Ok, lk3, u'))" "link_inv lk2" "l_parser lk2 = l_parser (cl_link c)"
    "tx_pending lk2 = tx_pending (cl_link c) @ write_frame kMaxFrameSize FtRequest (cl_next_seq c) msg (bytes_at None 0)"
    using link_send_Ok[OF lk _ _ room, of None io FtRequest "cl_next_seq c" msg "cl_uart c"] by auto
  obtain lk3 u3 n where f: "flush_tx io lk2 (cl_uart c) = (lk3, u3)" "link_inv lk3" "uart_inv u3"
    "l_parser lk3 = l_parser lk2" "tx_pending lk3 = drop n (tx_pending lk2)" "rx_q u3 = rx_q (cl_uart c)"
    using flush_tx_spec[OF lk2(2) assms(2)] by blast
  have "length (tx_pending lk3) \<le> length (tx_pending (cl_link c)) + 10"
    using f(5) lk2(4) by (simp add: bytes_at_def write_frame_length limit_defs)
  moreover have "receiving lk3 = receiving (cl_link c)" using f(4) lk2(3) by (simp add: receiving_def)
  moreover have "client_send io (cl_next_seq c) msg None 0 ?c1 = (Ok, ?c1\<lparr>cl_link := lk3, cl_uart := u3\<rparr>)"
    using lk2(1) f(1) by (simp add: client_send_def)
  ultimately show ?thesis
    using assms(3,4) f(2,3,6) by (intro exI[of _ lk3] exI[of _ u3]) (simp add: client_request_def Let_def)
qed

end

section \<open>Properties\<close>

text \<open>
  C34: only the reply to the open request completes it. A received frame changes the pending reply only
  if a request is open and the frame is a response or negative acknowledgement with the message id and
  the sequence number of its last transmission; then that frame is the reply and the status says which
  of the two it was. Every other frame leaves the request as it is.
\<close>

theorem reply_correlation:
  "if (f_type f = FtResponse \<or> f_type f = FtNack) \<and> cl_waiting c \<and> f_msg f = cl_pending_msg_id c \<and>
      f_seq f = cl_pending_seq c
   then cl_response_ready (client_frame now f c) \<and> cl_response (client_frame now f c) = f \<and>
     \<not> cl_waiting (client_frame now f c) \<and>
     cl_last_command_status (client_frame now f c) = (if f_type f = FtResponse then Ok else ProtocolError)
   else cl_response_ready (client_frame now f c) = cl_response_ready c \<and>
     cl_response (client_frame now f c) = cl_response c \<and> cl_waiting (client_frame now f c) = cl_waiting c \<and>
     cl_last_command_status (client_frame now f c) = cl_last_command_status c"
  by (cases "f_type f"; cases "cl_waiting c \<and> f_msg f = cl_pending_msg_id c \<and> f_seq f = cl_pending_seq c")
     (simp_all add: client_frame_def)

text \<open>
  C35: no request outlives its deadline and the line does not fall silent. Over any UART polling returns,
  and then an open request was started less than 150 ms ago, while without an open request the last
  transmission is less than a second old, unless the transmit buffer had no room for a heartbeat frame.
\<close>

theorem poll_deadline_and_heartbeat:
  assumes "uart io rx_q tx_q uart_inv" "client_inv c" "uart_inv (cl_uart c)"
  shows "\<exists>c1 c'. client_poll io now c = Some c' \<and> client_inv c' \<and> uart_inv (cl_uart c') \<and>
    (cl_waiting c' \<longrightarrow> now - cl_request_started_ms c' < 150) \<and>
    (\<not> cl_waiting c' \<longrightarrow> now - cl_last_tx_ms c' < 1000 \<or>
       client_pump io now (client_timeouts io now c) = Some c1 \<and> length (tx_pending (cl_link c1)) > 1030)"
proof -
  note t = uart.client_timeouts_spec[OF assms, of now]
  let ?P = "\<lambda>k. cl_waiting k \<longrightarrow> now - cl_request_started_ms k < kRequestDeadlineMs"
  have p: "?P (client_timeouts io now c)" using t by simp
  obtain c1 where c1: "client_pump io now (client_timeouts io now c) = Some c1" "?P c1" "client_inv c1" "uart_inv (cl_uart c1)"
    using uart.client_pump_rule[OF assms(1), of "client_timeouts io now c" ?P now] t p client_frame_waiting by auto
  note h = uart.client_heartbeat_spec[OF assms(1) c1(3,4), of now]
  have "client_poll io now c = Some (client_heartbeat io now c1)" by (simp add: client_poll_def c1(1))
  then show ?thesis
    using h c1(1,2) by (intro exI[of _ c1] exI[of _ "client_heartbeat io now c1"]) (auto simp: limit_defs)
qed

theorem poll_deadline_and_heartbeat_witness:
  "\<exists>c'. client_poll app_side 1000 (client_init transport_init) = Some c' \<and>
     (cl_waiting c' \<longrightarrow> 1000 - cl_request_started_ms c' < 150)"
proof -
  have u: "transport_inv (cl_uart (client_init transport_init))" by (simp add: client_init_def transport_inv_init)
  show ?thesis using poll_deadline_and_heartbeat[OF app_uart.uart_axioms client_inv_init u, of 1000] by blast
qed

text \<open>
  What a request does. It is refused without any effect while another request is open or a reply
  waits to be taken; an accepted one is on the outgoing stream exactly once, with a fresh sequence
  number that its reply has to carry; any other outcome leaves the stream as it was.
\<close>

theorem request_effect:
  assumes "uart io rx_q tx_q uart_inv" "client_inv c" "uart_inv (cl_uart c)"
    "client_request io now msg payload len c = (st, c')"
  shows "if st = Ok
    then \<not> cl_waiting c \<and> \<not> cl_response_ready c \<and> cl_waiting c' \<and> cl_pending_msg_id c' = msg \<and>
      cl_pending_seq c' = cl_next_seq c \<and> cl_next_seq c' = cl_next_seq c + 1 \<and> cl_request_started_ms c' = now \<and>
      tx_q (cl_uart c') @ tx_pending (cl_link c') = tx_q (cl_uart c) @ tx_pending (cl_link c) @
        write_frame kMaxFrameSize FtRequest (cl_next_seq c) msg (bytes_at payload len)
    else cl_waiting c' = cl_waiting c \<and> cl_response_ready c' = cl_response_ready c \<and>
      tx_q (cl_uart c') @ tx_pending (cl_link c') = tx_q (cl_uart c) @ tx_pending (cl_link c)"
proof (cases "cl_waiting c \<or> cl_response_ready c \<or> unat len > kMaxPayload \<or> (len > 0 \<and> payload = None)")
  case True
  then show ?thesis using assms(4) by (auto simp: client_request_def split: if_splits)
next
  case False
  let ?c1 = "c\<lparr>cl_pending_seq := cl_next_seq c, cl_next_seq := cl_next_seq c + 1\<rparr>"
  have k: "link_inv (cl_link ?c1)" "uart_inv (cl_uart ?c1)" using assms(2,3) by (simp_all add: client_inv_def)
  obtain s lk u where s: "client_send io (cl_next_seq c) msg payload len ?c1 = (s, ?c1\<lparr>cl_link := lk, cl_uart := u\<rparr>)"
    "s = Ok \<longrightarrow> tx_q u @ tx_pending lk = tx_q (cl_uart ?c1) @ tx_pending (cl_link ?c1) @
       write_frame kMaxFrameSize FtRequest (cl_next_seq c) msg (bytes_at payload len)"
    "s \<noteq> Ok \<longrightarrow> u = cl_uart ?c1 \<and> tx_pending lk = tx_pending (cl_link ?c1)"
    using uart.client_send_spec[OF assms(1) k, of "cl_next_seq c" msg payload len] by blast
  have f: "cl_waiting c = False" "cl_response_ready c = False" "(unat len > kMaxPayload \<or> (len > 0 \<and> payload = None)) = False"
    using False by blast+
  note r = client_request_def[of io now msg payload len c, unfolded f Let_def, simplified, unfolded s(1)]
  show ?thesis
  proof (cases "s = Ok")
    case True
    with assms(4)[unfolded r] s(2) f show ?thesis by auto
  next
    case no: False
    with assms(4) have "st = s" "c' = ?c1\<lparr>cl_link := lk, cl_uart := u\<rparr>" unfolding r by simp_all
    then show ?thesis using s(3) no f by simp
  qed
qed

theorem request_effect_witness:
  "\<exists>c'. client_motor_stop app_side 5 (client_init transport_init) = (Ok, c') \<and> cl_waiting c' \<and>
     cl_pending_seq c' = 0 \<and> cl_request_started_ms c' = 5"
proof -
  obtain st c' where r: "client_request app_side 5 MotorStop None 0 (client_init transport_init) = (st, c')" by fastforce
  have u: "transport_inv (cl_uart (client_init transport_init))" by (simp add: client_init_def transport_inv_init)
  have "fst (link_send app_side FtRequest 0 MotorStop None 0 link_init transport_init) = Ok"
    using link_send_Ok[OF link_inv_init(1), of 0 None app_side FtRequest 0 MotorStop transport_init] link_inv_init(2)
    by (auto simp: limit_defs split: prod.splits)
  then have "st = Ok"
    using r by (auto simp: client_request_def client_send_def client_init_def Let_def split: prod.splits if_splits)
  then show ?thesis
    unfolding client_motor_stop_def r
    using request_effect[OF app_uart.uart_axioms client_inv_init u r] by (simp add: client_init_def)
qed

end
