(* ===== verification/Recipe.thy ===== *)
theory Recipe
  imports Common
begin

text \<open>
  The data of \<open>src/app/recipe/recipe.h\<close>. A recipe holds a fixed array of sixteen steps of which the
  first \<open>step_count\<close> count; C strings are character lists without the terminating zero.
\<close>

datatype step_kind = Note | Mix | Heat | Weigh

record recipe_step =
  st_kind :: step_kind
  st_text :: string
  st_target_temp :: deci_celsius
  st_dial_speed :: u8
  st_duration_s :: u32
  st_target_weight :: grams

definition step_init :: recipe_step where
  "step_init = \<lparr>st_kind = Note, st_text = [], st_target_temp = 0, st_dial_speed = 0, st_duration_s = 0,
     st_target_weight = 0\<rparr>"

record recipe =
  r_name :: string
  r_steps :: "recipe_step list"
  r_step_count :: nat

definition kMaxSteps :: nat where [limit_defs]: "kMaxSteps = 16"

definition recipe_init :: recipe where
  "recipe_init = \<lparr>r_name = [], r_steps = replicate kMaxSteps step_init, r_step_count = 0\<rparr>"

end
