(* ===== verification/Programs.thy ===== *)
theory Programs
  imports Mcu_Client Recipe "HOL-Library.Sublist"
begin

text \<open>
  The cooking programs of \<open>src/app/cooking/\<close>: manual, dough, steam, sous-vide, turbo pulse and guided
  recipe. A program is ticked every 10 ms with the milliseconds elapsed since its start; it drives the
  device only through requests of the client, whose telemetry store it may read. That contract, at most
  one request per tick, is the locale \<open>cooking_program\<close>, in which every program is interpreted.
\<close>

section \<open>The program contract\<close>

type_synonym ('p, 'u) program_tick =
  "'u uart_ops \<Rightarrow> millis \<Rightarrow> millis \<Rightarrow> 'p \<Rightarrow> 'u mcu_client \<Rightarrow> 'p \<times> 'u mcu_client"

definition one_request :: "'u uart_ops \<Rightarrow> millis \<Rightarrow> 'u mcu_client \<Rightarrow> 'u mcu_client \<Rightarrow> bool" where
  "one_request io now c c' \<longleftrightarrow>
     c' = c \<or> (\<exists>msg payload len. msg \<in> set named_msg_ids \<and> c' = snd (client_request io now msg payload len c))"

lemma one_request_intros [simp]:
  "one_request io now c c"
  "one_request io now c (snd (client_set_motor io now r p c))" "one_request io now c (snd (client_motor_stop io now c))"
  "one_request io now c (snd (client_set_heater io now t c))" "one_request io now c (snd (client_heater_off io now c))"
  "one_request io now c (snd (client_tare io now c))" "one_request io now c (snd (client_lock_lid io now b c))"
  unfolding one_request_def client_set_motor_def client_motor_stop_def client_set_heater_def client_heater_off_def
    client_tare_def client_lock_lid_def named_msg_ids_def by auto

locale cooking_program =
  fixes on_tick :: "('p, 'u) program_tick"
  assumes tick_requests: "one_request io now c (snd (on_tick io now elapsed p c))"
begin

lemma tick_cases:
  obtains "snd (on_tick io now elapsed p c) = c"
  | msg payload len where "msg \<in> set named_msg_ids" "snd (on_tick io now elapsed p c) = snd (client_request io now msg payload len c)"
  using tick_requests[of io now c elapsed p] by (auto simp: one_request_def)

lemma tick_keeps_inv:
  assumes "uart io rx_q tx_q uart_inv" "client_inv c" "uart_inv (cl_uart c)"
  shows "client_inv (snd (on_tick io now elapsed p c)) \<and> uart_inv (cl_uart (snd (on_tick io now elapsed p c)))"
  by (rule tick_cases[of io now elapsed p c]) (simp_all add: assms uart.client_request_spec[OF assms])

lemma tick_while_waiting: "cl_waiting c \<Longrightarrow> snd (on_tick io now elapsed p c) = c"
  by (rule tick_cases[of io now elapsed p c]) (simp_all add: client_request_def)

lemma tick_keeps_fault:
  "cl_last_fault (snd (on_tick io now elapsed p c)) = cl_last_fault c"
  "cl_store (snd (on_tick io now elapsed p c)) = cl_store c"
  by (rule_tac [!] tick_cases[of io now elapsed p c]) (simp_all add: client_request_def client_send_def Let_def case_prod_beta)

end

definition dial_to_rpm :: "u8 \<Rightarrow> rpm" where
  "dial_to_rpm dial = ucast (if dial > 10 then 10 else dial) * 1070"

section \<open>Manual mode\<close>

record manual_mode =
  man_temp :: deci_celsius
  man_dial :: u8
  man_duration_ms :: millis
  man_heater_set :: bool
  man_motor_set :: bool

definition manual_mode_new :: "deci_celsius \<Rightarrow> u8 \<Rightarrow> u32 \<Rightarrow> manual_mode" where
  "manual_mode_new temp dial duration_s = \<lparr>man_temp = temp, man_dial = dial, man_duration_ms = duration_s * 1000,
     man_heater_set = False, man_motor_set = False\<rparr>"

definition manual_on_tick :: "(manual_mode, 'u) program_tick" where
  "manual_on_tick io now elapsed p c =
     (if \<not> man_heater_set p
      then (if sint (man_temp p) \<le> 0 then (p\<lparr>man_heater_set := True\<rparr>, c)
            else case client_set_heater io now (man_temp p) c of (st, c') \<Rightarrow> (p\<lparr>man_heater_set := (st = Ok)\<rparr>, c'))
      else if \<not> man_motor_set p
      then case client_set_motor io now (dial_to_rpm (man_dial p)) kRampNormal c of
             (st, c') \<Rightarrow> (p\<lparr>man_motor_set := (st = Ok)\<rparr>, c')
      else (p, c))"

definition manual_name :: "manual_mode \<Rightarrow> string" where [simp]: "manual_name p = ''manual''"
definition manual_finished :: "millis \<Rightarrow> manual_mode \<Rightarrow> bool" where [simp]: "manual_finished elapsed p \<longleftrightarrow> elapsed \<ge> man_duration_ms p"
definition manual_status :: "manual_mode \<Rightarrow> string" where [simp]: "manual_status p = ''running''"

section \<open>Dough mode\<close>

definition kKneadMs :: millis where [limit_defs]: "kKneadMs = 4000"
definition kRestMs :: millis where [limit_defs]: "kRestMs = 2000"

record dough_mode =
  dou_duration_ms :: millis
  dou_kneading :: bool
  dou_command_pending :: bool

definition dough_mode_new :: "u32 \<Rightarrow> dough_mode" where
  "dough_mode_new duration_s = \<lparr>dou_duration_ms = duration_s * 1000, dou_kneading = False, dou_command_pending = True\<rparr>"

definition dough_on_tick :: "(dough_mode, 'u) program_tick" where
  "dough_on_tick io now elapsed p c =
     (let cycle = elapsed mod (kKneadMs + kRestMs);
          want_knead = (cycle < kKneadMs)
      in if want_knead \<noteq> dou_kneading p \<or> dou_command_pending p
         then case client_set_motor io now (if want_knead then dial_to_rpm 3 else 0) kRampFast c of
                (st, c') \<Rightarrow> (if st = Ok then p\<lparr>dou_kneading := want_knead, dou_command_pending := False\<rparr>
                            else p\<lparr>dou_command_pending := True\<rparr>, c')
         else (p, c))"

definition dough_name :: "dough_mode \<Rightarrow> string" where [simp]: "dough_name p = ''dough''"
definition dough_finished :: "millis \<Rightarrow> dough_mode \<Rightarrow> bool" where [simp]: "dough_finished elapsed p \<longleftrightarrow> elapsed \<ge> dou_duration_ms p"
definition dough_status :: "dough_mode \<Rightarrow> string" where [simp]: "dough_status p = (if dou_kneading p then ''kneading'' else ''resting'')"

section \<open>Steam mode\<close>

record steam_mode =
  ste_duration_ms :: millis
  ste_heater_set :: bool
  ste_motor_set :: bool
  ste_lid_open :: bool

definition steam_mode_new :: "u32 \<Rightarrow> steam_mode" where
  "steam_mode_new duration_s = \<lparr>ste_duration_ms = duration_s * 1000, ste_heater_set = False,
     ste_motor_set = False, ste_lid_open = False\<rparr>"

definition steam_on_tick :: "(steam_mode, 'u) program_tick" where
  "steam_on_tick io now elapsed p c =
     (if \<not> ste_heater_set p
      then case client_set_heater io now 1000 c of (st, c') \<Rightarrow> (p\<lparr>ste_heater_set := (st = Ok)\<rparr>, c')
      else if \<not> ste_motor_set p
      then case client_set_motor io now (dial_to_rpm 1) kRampGentle c of (st, c') \<Rightarrow> (p\<lparr>ste_motor_set := (st = Ok)\<rparr>, c')
      else (p\<lparr>ste_lid_open := (s_flags (store_latest (cl_store c)) AND kFlagLidClosed = 0)\<rparr>, c))"

definition steam_name :: "steam_mode \<Rightarrow> string" where [simp]: "steam_name p = ''steam''"
definition steam_finished :: "millis \<Rightarrow> steam_mode \<Rightarrow> bool" where [simp]: "steam_finished elapsed p \<longleftrightarrow> elapsed \<ge> ste_duration_ms p"
definition steam_status :: "steam_mode \<Rightarrow> string" where [simp]: "steam_status p = (if ste_lid_open p then ''paused (lid open)'' else ''steaming'')"

section \<open>Sous-vide mode\<close>

record sous_vide_mode =
  sou_target :: deci_celsius
  sou_duration_ms :: millis
  sou_heater_set :: bool
  sou_motor_set :: bool
  sou_at_temperature :: bool

definition sous_vide_mode_new :: "deci_celsius \<Rightarrow> u32 \<Rightarrow> sous_vide_mode" where
  "sous_vide_mode_new target duration_s =
     (let t1 = (if sint target < 370 then 370 else target);
          t2 = (if sint t1 > 900 then 900 else t1)
      in \<lparr>sou_target = t2, sou_duration_ms = duration_s * 1000, sou_heater_set = False, sou_motor_set = False,
          sou_at_temperature = False\<rparr>)"

definition sous_vide_on_tick :: "(sous_vide_mode, 'u) program_tick" where
  "sous_vide_on_tick io now elapsed p c =
     (if \<not> sou_heater_set p
      then case client_set_heater io now (sou_target p) c of (st, c') \<Rightarrow> (p\<lparr>sou_heater_set := (st = Ok)\<rparr>, c')
      else if \<not> sou_motor_set p
      then case client_set_motor io now (dial_to_rpm 2) kRampGentle c of (st, c') \<Rightarrow> (p\<lparr>sou_motor_set := (st = Ok)\<rparr>, c')
      else let bath = average_temp_c 2000 (cl_store c)
           in (if \<bar>fsub bath (to_celsius (sou_target p))\<bar> \<le> 1 / 2 then p\<lparr>sou_at_temperature := True\<rparr> else p, c))"

definition sous_vide_name :: "sous_vide_mode \<Rightarrow> string" where [simp]: "sous_vide_name p = ''sous-vide''"
definition sous_vide_finished :: "millis \<Rightarrow> sous_vide_mode \<Rightarrow> bool" where [simp]: "sous_vide_finished elapsed p \<longleftrightarrow> elapsed \<ge> sou_duration_ms p"
definition sous_vide_status :: "sous_vide_mode \<Rightarrow> string" where [simp]: "sous_vide_status p = (if sou_at_temperature p then ''at temperature'' else ''heating'')"

section \<open>Turbo pulse\<close>

datatype turbo_phase = Locking | Spinning | TurboStopping | Unlocking | Finished

record turbo_pulse =
  tur_pulse_ms :: millis
  tur_phase :: turbo_phase
  tur_spin_started_ms :: millis

definition turbo_pulse_new :: "u32 \<Rightarrow> turbo_pulse" where
  "turbo_pulse_new pulse_ms = \<lparr>tur_pulse_ms = (if pulse_ms > 2000 then 2000 else pulse_ms), tur_phase = Locking,
     tur_spin_started_ms = 0\<rparr>"

definition turbo_on_tick :: "(turbo_pulse, 'u) program_tick" where
  "turbo_on_tick io now elapsed p c =
     (case tur_phase p of
        Locking \<Rightarrow> (case client_lock_lid io now True c of
            (st, c') \<Rightarrow> (if st = Ok then p\<lparr>tur_phase := Spinning\<rparr> else p, c'))
      | Spinning \<Rightarrow>
          if tur_spin_started_ms p = 0
          then (case client_set_motor io now 10700 kRampBurst c of
              (st, c') \<Rightarrow> (if st = Ok then p\<lparr>tur_spin_started_ms := elapsed\<rparr> else p, c'))
          else if elapsed - tur_spin_started_ms p \<ge> tur_pulse_ms p then (p\<lparr>tur_phase := TurboStopping\<rparr>, c)
          else (p, c)
      | TurboStopping \<Rightarrow> (case client_motor_stop io now c of
            (st, c') \<Rightarrow> (if st = Ok then p\<lparr>tur_phase := Unlocking\<rparr> else p, c'))
      | Unlocking \<Rightarrow>
          if \<not> store_has_data (cl_store c) \<or> s_rpm (store_latest (cl_store c)) \<ge> 100 then (p, c)
          else (case client_lock_lid io now False c of
              (st, c') \<Rightarrow> (if st = Ok then p\<lparr>tur_phase := Finished\<rparr> else p, c'))
      | Finished \<Rightarrow> (p, c))"

definition turbo_name :: "turbo_pulse \<Rightarrow> string" where [simp]: "turbo_name p = ''turbo''"
definition turbo_finished :: "turbo_pulse \<Rightarrow> bool" where [simp]: "turbo_finished p \<longleftrightarrow> tur_phase p = Finished"

fun turbo_status :: "turbo_phase \<Rightarrow> string" where
  "turbo_status Locking = ''locking lid''"
| "turbo_status Spinning = ''pulse''"
| "turbo_status TurboStopping = ''winding down''"
| "turbo_status Unlocking = ''winding down''"
| "turbo_status Finished = ''done''"

section \<open>Guided recipe\<close>

datatype guided_phase = Setup | Run | Teardown

record guided_recipe =
  gui_recipe :: recipe
  gui_step_index :: nat
  gui_phase :: guided_phase
  gui_command_index :: u8
  gui_step_started_ms :: millis
  gui_advance_requested :: bool
  gui_scale_tared :: bool

definition guided_recipe_new :: "recipe \<Rightarrow> guided_recipe" where
  "guided_recipe_new r = \<lparr>gui_recipe = r, gui_step_index = 0, gui_phase = Setup, gui_command_index = 0,
     gui_step_started_ms = 0, gui_advance_requested = False, gui_scale_tared = False\<rparr>"

text \<open>The phases return whether they are complete, with the new program and client state.\<close>

definition run_setup ::
  "'u uart_ops \<Rightarrow> millis \<Rightarrow> recipe_step \<Rightarrow> guided_recipe \<Rightarrow> 'u mcu_client \<Rightarrow> bool \<times> guided_recipe \<times> 'u mcu_client" where
  "run_setup io now step p c =
     (case st_kind step of
        Note \<Rightarrow> (True, p, c)
      | Mix \<Rightarrow> (case client_set_motor io now (dial_to_rpm (st_dial_speed step)) kRampNormal c of (st, c') \<Rightarrow> (st = Ok, p, c'))
      | Heat \<Rightarrow>
          if gui_command_index p = 0
          then (case client_set_heater io now (st_target_temp step) c of
              (st, c') \<Rightarrow> (False, if st = Ok then p\<lparr>gui_command_index := 1\<rparr> else p, c'))
          else (case client_set_motor io now (dial_to_rpm (st_dial_speed step)) kRampGentle c of (st, c') \<Rightarrow> (st = Ok, p, c'))
      | Weigh \<Rightarrow>
          if gui_scale_tared p then (True, p, c)
          else (case client_tare io now c of (st, c') \<Rightarrow> (st = Ok, p\<lparr>gui_scale_tared := (st = Ok)\<rparr>, c')))"

definition step_done :: "millis \<Rightarrow> recipe_step \<Rightarrow> guided_recipe \<Rightarrow> telemetry_store \<Rightarrow> bool" where
  "step_done elapsed step p store =
     (case st_kind step of
        Note \<Rightarrow> gui_advance_requested p
      | Mix \<Rightarrow> elapsed - gui_step_started_ms p \<ge> st_duration_s step * 1000
      | Heat \<Rightarrow> elapsed - gui_step_started_ms p \<ge> st_duration_s step * 1000
      | Weigh \<Rightarrow> sint (s_grams (store_latest store)) \<ge> sint (st_target_weight step))"

definition run_teardown ::
  "'u uart_ops \<Rightarrow> millis \<Rightarrow> recipe_step \<Rightarrow> guided_recipe \<Rightarrow> 'u mcu_client \<Rightarrow> bool \<times> guided_recipe \<times> 'u mcu_client" where
  "run_teardown io now step p c =
     (case st_kind step of
        Note \<Rightarrow> (True, p, c)
      | Weigh \<Rightarrow> (True, p, c)
      | Mix \<Rightarrow> (case client_motor_stop io now c of (st, c') \<Rightarrow> (st = Ok, p, c'))
      | Heat \<Rightarrow>
          if gui_command_index p = 0
          then (case client_heater_off io now c of
              (st, c') \<Rightarrow> (False, if st = Ok then p\<lparr>gui_command_index := 1\<rparr> else p, c'))
          else (case client_motor_stop io now c of (st, c') \<Rightarrow> (st = Ok, p, c')))"

definition guided_advance :: "guided_recipe \<Rightarrow> guided_recipe" where
  "guided_advance p = p\<lparr>gui_step_index := gui_step_index p + 1, gui_phase := Setup, gui_command_index := 0,
     gui_advance_requested := False\<rparr>"

definition guided_on_tick :: "(guided_recipe, 'u) program_tick" where
  "guided_on_tick io now elapsed p c =
     (if gui_step_index p \<ge> r_step_count (gui_recipe p) then (p, c)
      else let step = r_steps (gui_recipe p) ! gui_step_index p
           in case gui_phase p of
                Setup \<Rightarrow> (case run_setup io now step p c of
                    (ready, p', c') \<Rightarrow>
                      (if ready then p'\<lparr>gui_step_started_ms := elapsed, gui_command_index := 0, gui_phase := Run\<rparr>
                       else p', c'))
              | Run \<Rightarrow> (if step_done elapsed step p (cl_store c) then p\<lparr>gui_command_index := 0, gui_phase := Teardown\<rparr> else p, c)
              | Teardown \<Rightarrow> (case run_teardown io now step p c of
                    (ready, p', c') \<Rightarrow> (if ready then guided_advance p' else p', c')))"

definition guided_name :: "guided_recipe \<Rightarrow> string" where [simp]: "guided_name p = r_name (gui_recipe p)"
definition guided_finished :: "guided_recipe \<Rightarrow> bool" where [simp]: "guided_finished p \<longleftrightarrow> gui_step_index p \<ge> r_step_count (gui_recipe p)"
definition guided_user_next :: "guided_recipe \<Rightarrow> guided_recipe" where [simp]: "guided_user_next p = p\<lparr>gui_advance_requested := True\<rparr>"
definition guided_progress_total :: "guided_recipe \<Rightarrow> nat" where [simp]: "guided_progress_total p = r_step_count (gui_recipe p)"

definition guided_status :: "guided_recipe \<Rightarrow> string" where
  "guided_status p =
     (if gui_step_index p \<ge> r_step_count (gui_recipe p) then ''done''
      else let step = r_steps (gui_recipe p) ! gui_step_index p
           in if st_text step \<noteq> [] then st_text step else ''working'')"

definition guided_awaiting_user :: "guided_recipe \<Rightarrow> bool" where
  "guided_awaiting_user p \<longleftrightarrow> gui_phase p = Run \<and> gui_step_index p < r_step_count (gui_recipe p) \<and>
     st_kind (r_steps (gui_recipe p) ! gui_step_index p) = Note"

definition guided_progress_current :: "guided_recipe \<Rightarrow> nat" where
  "guided_progress_current p =
     (if gui_step_index p < r_step_count (gui_recipe p) then gui_step_index p + 1 else r_step_count (gui_recipe p))"

section \<open>The virtual functions\<close>

text \<open>\<open>std::unique_ptr<Program>\<close> owns one of the six programs; a virtual call dispatches on it.\<close>

datatype program =
  PManual manual_mode | PDough dough_mode | PSteam steam_mode | PSousVide sous_vide_mode
  | PTurbo turbo_pulse | PGuided guided_recipe

fun program_name :: "program \<Rightarrow> string" where
  "program_name (PManual p) = manual_name p"
| "program_name (PDough p) = dough_name p"
| "program_name (PSteam p) = steam_name p"
| "program_name (PSousVide p) = sous_vide_name p"
| "program_name (PTurbo p) = turbo_name p"
| "program_name (PGuided p) = guided_name p"

fun program_on_tick :: "(program, 'u) program_tick" where
  "program_on_tick io now elapsed (PManual p) c = (case manual_on_tick io now elapsed p c of (p', c') \<Rightarrow> (PManual p', c'))"
| "program_on_tick io now elapsed (PDough p) c = (case dough_on_tick io now elapsed p c of (p', c') \<Rightarrow> (PDough p', c'))"
| "program_on_tick io now elapsed (PSteam p) c = (case steam_on_tick io now elapsed p c of (p', c') \<Rightarrow> (PSteam p', c'))"
| "program_on_tick io now elapsed (PSousVide p) c = (case sous_vide_on_tick io now elapsed p c of (p', c') \<Rightarrow> (PSousVide p', c'))"
| "program_on_tick io now elapsed (PTurbo p) c = (case turbo_on_tick io now elapsed p c of (p', c') \<Rightarrow> (PTurbo p', c'))"
| "program_on_tick io now elapsed (PGuided p) c = (case guided_on_tick io now elapsed p c of (p', c') \<Rightarrow> (PGuided p', c'))"

fun program_finished :: "millis \<Rightarrow> program \<Rightarrow> bool" where
  "program_finished elapsed (PManual p) = manual_finished elapsed p"
| "program_finished elapsed (PDough p) = dough_finished elapsed p"
| "program_finished elapsed (PSteam p) = steam_finished elapsed p"
| "program_finished elapsed (PSousVide p) = sous_vide_finished elapsed p"
| "program_finished elapsed (PTurbo p) = turbo_finished p"
| "program_finished elapsed (PGuided p) = guided_finished p"

fun program_status :: "program \<Rightarrow> string" where
  "program_status (PManual p) = manual_status p"
| "program_status (PDough p) = dough_status p"
| "program_status (PSteam p) = steam_status p"
| "program_status (PSousVide p) = sous_vide_status p"
| "program_status (PTurbo p) = turbo_status (tur_phase p)"
| "program_status (PGuided p) = guided_status p"

fun program_awaiting_user :: "program \<Rightarrow> bool" where
  "program_awaiting_user (PGuided p) = guided_awaiting_user p"
| "program_awaiting_user _ = False"

fun program_user_next :: "program \<Rightarrow> program" where
  "program_user_next (PGuided p) = PGuided (guided_user_next p)"
| "program_user_next p = p"

fun program_progress_current :: "program \<Rightarrow> nat" where
  "program_progress_current (PGuided p) = guided_progress_current p"
| "program_progress_current _ = 0"

fun program_progress_total :: "program \<Rightarrow> nat" where
  "program_progress_total (PGuided p) = guided_progress_total p"
| "program_progress_total _ = 0"

section \<open>The contract holds\<close>

interpretation manual: cooking_program manual_on_tick
  by unfold_locales (simp add: manual_on_tick_def case_prod_beta)

interpretation dough: cooking_program dough_on_tick
  by unfold_locales (simp add: dough_on_tick_def case_prod_beta Let_def)

interpretation steam: cooking_program steam_on_tick
  by unfold_locales (simp add: steam_on_tick_def case_prod_beta)

interpretation sous_vide: cooking_program sous_vide_on_tick
  by unfold_locales (simp add: sous_vide_on_tick_def case_prod_beta Let_def)

interpretation turbo: cooking_program turbo_on_tick
  by unfold_locales (simp add: turbo_on_tick_def case_prod_beta split: turbo_phase.split)

lemma guided_phases_request:
  "one_request io now c (snd (snd (run_setup io now step p c)))"
  "one_request io now c (snd (snd (run_teardown io now step p c)))"
  by (simp_all add: run_setup_def run_teardown_def case_prod_beta split: step_kind.split)

interpretation guided: cooking_program guided_on_tick
  by unfold_locales (simp add: guided_on_tick_def case_prod_beta Let_def guided_phases_request split: guided_phase.split)

interpretation any_program: cooking_program program_on_tick
proof unfold_locales
  fix io :: "'u uart_ops" and now c elapsed p
  show "one_request io now c (snd (program_on_tick io now elapsed p c))"
    by (cases p) (simp_all add: case_prod_beta manual.tick_requests dough.tick_requests steam.tick_requests
        sous_vide.tick_requests turbo.tick_requests guided.tick_requests)
qed

section \<open>What a program asks for\<close>

text \<open>
  The requests a program gets accepted over a sequence of ticks, each with its clock, elapsed time and
  client state: a request was accepted if the client starts waiting for its reply.
\<close>

definition accepted :: "'u mcu_client \<Rightarrow> 'u mcu_client \<Rightarrow> msg_id list" where
  "accepted c c' = (if \<not> cl_waiting c \<and> cl_waiting c' then [cl_pending_msg_id c'] else [])"

fun program_log ::
  "('p, 'u) program_tick \<Rightarrow> 'u uart_ops \<Rightarrow> (millis \<times> millis \<times> 'u mcu_client) list \<Rightarrow> 'p \<Rightarrow> msg_id list" where
  "program_log on_tick io [] p = []"
| "program_log on_tick io ((now, elapsed, c) # rest) p =
     (case on_tick io now elapsed p c of (p', c') \<Rightarrow> accepted c c' @ program_log on_tick io rest p')"

lemma accepted_same [simp]: "accepted c c = []"
  by (simp add: accepted_def)

lemma accepted_request:
  "client_request io now msg payload len c = (st, c') \<Longrightarrow> accepted c c' = (if st = Ok then [msg] else [])"
  by (auto simp: accepted_def client_request_def client_send_def Let_def split: prod.splits if_splits)

lemma accepted_commands:
  "client_set_motor io now r p c = (st, c') \<Longrightarrow> accepted c c' = (if st = Ok then [MotorSetTarget] else [])"
  "client_motor_stop io now c = (st, c') \<Longrightarrow> accepted c c' = (if st = Ok then [MotorStop] else [])"
  "client_lock_lid io now b c = (st, c') \<Longrightarrow> accepted c c' = (if st = Ok then [if b then LidLock else LidUnlock] else [])"
  by (auto simp: client_set_motor_def client_motor_stop_def client_lock_lid_def dest: accepted_request)

fun turbo_rest :: "turbo_phase \<Rightarrow> nat \<Rightarrow> msg_id list" where
  "turbo_rest Locking n = LidLock # replicate n MotorSetTarget @ [MotorStop, LidUnlock]"
| "turbo_rest Spinning n = replicate n MotorSetTarget @ [MotorStop, LidUnlock]"
| "turbo_rest TurboStopping n = [MotorStop, LidUnlock]"
| "turbo_rest Unlocking n = [LidUnlock]"
| "turbo_rest Finished n = []"

lemma turbo_tick_log:
  assumes "turbo_on_tick io now elapsed p c = (p', c')" "prefix ms (turbo_rest (tur_phase p') n)"
  shows "\<exists>m. prefix (accepted c c' @ ms) (turbo_rest (tur_phase p) m)"
proof (cases "tur_phase p")
  case Locking
  then show ?thesis using assms by (auto simp: turbo_on_tick_def accepted_commands split: prod.splits if_splits intro!: exI[of _ n])
next
  case Spinning
  then have "prefix (accepted c c' @ ms) (turbo_rest Spinning n) \<or> prefix (accepted c c' @ ms) (turbo_rest Spinning (Suc n)) \<or>
      prefix (accepted c c' @ ms) (turbo_rest Spinning 0)"
    using assms by (auto simp: turbo_on_tick_def accepted_commands split: prod.splits if_splits)
  then show ?thesis unfolding Spinning by blast
qed (use assms in \<open>auto simp: turbo_on_tick_def accepted_commands split: prod.splits if_splits\<close>)

lemma turbo_log_prefix: "\<exists>n. prefix (program_log turbo_on_tick io ticks p) (turbo_rest (tur_phase p) n)"
proof (induction ticks arbitrary: p)
  case (Cons t ticks)
  obtain now elapsed c where t: "t = (now, elapsed, c)" using prod_cases3 by blast
  obtain p' c' where tick: "turbo_on_tick io now elapsed p c = (p', c')" by fastforce
  from Cons.IH[of p'] show ?case using turbo_tick_log[OF tick] t tick by fastforce
qed simp

section \<open>Properties\<close>

text \<open>
  The turbo pulse runs its commands in the safe order. Whatever the clock, the telemetry and the
  client's answers at each tick, the accepted requests of a turbo pulse are, in order, one lid lock, then
  burst commands, then one motor stop, then one unlock, or a prefix of that; in particular it never
  unlocks before it has stopped the motor and never bursts before it has locked the lid.
\<close>

theorem turbo_request_order:
  "\<exists>n. prefix (program_log turbo_on_tick io ticks (turbo_pulse_new pulse_ms))
     (LidLock # replicate n MotorSetTarget @ [MotorStop, LidUnlock])"
  using turbo_log_prefix[of io ticks "turbo_pulse_new pulse_ms"] by (simp add: turbo_pulse_new_def)

text \<open>
  Dough kneading follows its schedule. After every tick at which no command is outstanding, the
  dough program kneads exactly in the first four of every six seconds of its elapsed time.
\<close>

theorem dough_schedule:
  "dou_command_pending (fst (dough_on_tick io now elapsed p c)) \<or>
   (dou_kneading (fst (dough_on_tick io now elapsed p c)) \<longleftrightarrow> unat elapsed mod 6000 < 4000)"
proof -
  have "elapsed mod 6000 < 4000 \<longleftrightarrow> unat elapsed mod 6000 < 4000"
    by (simp only: word_less_nat_alt unat_mod) simp
  then show ?thesis by (simp add: dough_on_tick_def Let_def limit_defs case_prod_beta)
qed

end
