(* ===== verification/Ota_Updater.thy ===== *)
theory Ota_Updater
  imports Common Crc16
begin

text \<open>
  \<open>src/app/ota/ota_updater.h\<close> and \<open>ota_updater.cpp\<close>: verification of a staged firmware image in
  chunks of 4096 bytes. Shown here: the chunked checksum is the checksum of the whole image, and the
  verdict is reached after exactly as many steps as the image has chunks.
\<close>

section \<open>The updater\<close>

datatype ota_state = OtaIdle | OtaVerifying | OtaReady | OtaFailed

record ota_updater =
  o_state :: ota_state
  o_image :: "u8 list"
  o_image_len :: nat
  o_verified :: nat
  o_expected_crc :: u16
  o_running_crc :: u16

definition kChunkBytes :: nat where [limit_defs]: "kChunkBytes = 4096"

definition ota_init :: ota_updater where
  "ota_init = \<lparr>o_state = OtaIdle, o_image = [], o_image_len = 0, o_verified = 0, o_expected_crc = 0,
     o_running_crc = 0xFFFF\<rparr>"

definition ota_busy :: "ota_updater \<Rightarrow> bool" where
  "ota_busy ou = (o_state ou = OtaVerifying)"

text \<open>The image is a pointer (\<open>None\<close> is null) and a length.\<close>

definition ota_begin :: "u8 list option \<Rightarrow> nat \<Rightarrow> u16 \<Rightarrow> ota_updater \<Rightarrow> status \<times> ota_updater" where
  "ota_begin img len expected_crc ou =
     (case img of
        None \<Rightarrow> (InvalidArgument, ou)
      | Some bytes \<Rightarrow>
          if len = 0 then (InvalidArgument, ou)
          else if o_state ou = OtaVerifying then (NotReady, ou)
          else (Ok, ou\<lparr>o_image := bytes, o_image_len := len, o_verified := 0, o_expected_crc := expected_crc,
                     o_running_crc := 0xFFFF, o_state := OtaVerifying\<rparr>))"

definition ota_step :: "ota_updater \<Rightarrow> ota_updater" where
  "ota_step ou =
     (if o_state ou \<noteq> OtaVerifying then ou
      else let rest = o_image_len ou - o_verified ou;
               chunk = (if rest > kChunkBytes then kChunkBytes else rest);
               crc = crc16_ccitt (take chunk (drop (o_verified ou) (o_image ou))) (o_running_crc ou);
               o1 = ou\<lparr>o_running_crc := crc, o_verified := o_verified ou + chunk\<rparr>
           in if o_verified o1 \<ge> o_image_len o1
              then o1\<lparr>o_state := (if o_running_crc o1 = o_expected_crc o1 then OtaReady else OtaFailed)\<rparr>
              else o1)"

definition progress_percent :: "ota_updater \<Rightarrow> nat" where
  "progress_percent ou = (if o_image_len ou = 0 then 0 else o_verified ou * 100 div o_image_len ou)"

section \<open>Properties\<close>

text \<open>After \<open>n\<close> steps of a verification, while it is still running, \<open>4096 n\<close> bytes are checked.\<close>

lemma ota_steps_running:
  assumes "ota_begin (Some img) (length img) crc ou = (Ok, o1)" "4096 * n < length img"
  shows "(ota_step ^^ n) o1 = o1\<lparr>o_verified := 4096 * n, o_running_crc := crc16_ccitt (take (4096 * n) img) 0xFFFF\<rparr>"
  using assms(2)
proof (induction n)
  case 0
  then show ?case using assms(1) by (auto simp: ota_begin_def split: if_splits)
next
  case (Suc n)
  have o1: "o1 = ou\<lparr>o_image := img, o_image_len := length img, o_verified := 0, o_expected_crc := crc,
      o_running_crc := 0xFFFF, o_state := OtaVerifying\<rparr>"
    using assms(1) by (auto simp: ota_begin_def split: if_splits)
  have "take (4096 + 4096 * n) img = take (4096 * n) img @ take 4096 (drop (4096 * n) img)"
    by (metis add.commute take_add)
  then show ?case
    using Suc by (simp add: o1 ota_step_def Let_def limit_defs)
qed

lemma ota_last_step:
  assumes "ota_begin (Some img) (length img) crc ou = (Ok, o1)"
    "4096 * n < length img" "length img \<le> 4096 * Suc n"
  shows "(ota_step ^^ Suc n) o1 = o1\<lparr>o_verified := length img, o_running_crc := crc16_ccitt img 0xFFFF,
    o_state := (if crc16_ccitt img 0xFFFF = crc then OtaReady else OtaFailed)\<rparr>"
proof -
  have o1: "o1 = ou\<lparr>o_image := img, o_image_len := length img, o_verified := 0, o_expected_crc := crc,
      o_running_crc := 0xFFFF, o_state := OtaVerifying\<rparr>"
    using assms(1) by (auto simp: ota_begin_def split: if_splits)
  have "crc16_ccitt (drop (4096 * n) img) (crc16_ccitt (take (4096 * n) img) 0xFFFF) = crc16_ccitt img 0xFFFF"
    by (simp flip: crc16_ccitt_append)
  then show ?thesis
    using ota_steps_running[OF assms(1,2)] assms(2,3) by (simp add: o1 ota_step_def Let_def limit_defs)
qed

text \<open>
  Verifying an image takes exactly as many steps as it has 4096-byte chunks, and the verdict is
  \<open>Ready\<close> if and only if the CRC-16 of the whole image is the expected one. Until the last step the
  updater stays busy, and later steps change nothing.
\<close>

theorem ota_verdict:
  assumes "ota_begin (Some img) (length img) crc ou = (Ok, o1)"
  shows "(n < (length img + 4095) div 4096 \<longrightarrow> ota_busy ((ota_step ^^ n) o1)) \<and>
    ((length img + 4095) div 4096 \<le> n \<longrightarrow>
      o_state ((ota_step ^^ n) o1) = (if crc16_ccitt img 0xFFFF = crc then OtaReady else OtaFailed))"
proof -
  define k where "k = (length img + 4095) div 4096"
  have v: "o_state o1 = OtaVerifying" "length img > 0" using assms by (auto simp: ota_begin_def split: if_splits)
  then have "4096 \<le> length img + 4095" by linarith
  then have k: "k > 0" by (simp add: k_def div_greater_zero_iff)
  have below: "4096 * n < length img" if "n < k" using that by (simp add: k_def)
  have last: "length img \<le> 4096 * k" by (simp add: k_def)
  define r where "r = (if crc16_ccitt img 0xFFFF = crc then OtaReady else OtaFailed)"
  obtain j where j: "k = Suc j" using k by (cases k) auto
  have e: "4096 * j < length img" using j by (simp add: k_def)
  have fin: "o_state ((ota_step ^^ k) o1) = r" "r \<noteq> OtaVerifying"
    using ota_last_step[OF assms e] last by (simp_all add: j r_def)
  have stay: "o_state ((ota_step ^^ (k + i)) o1) = r" for i
    using fin by (induction i) (simp_all add: ota_step_def)
  have "n < k \<longrightarrow> ota_busy ((ota_step ^^ n) o1)" using ota_steps_running[OF assms below] v by (simp add: ota_busy_def)
  moreover have "k \<le> n \<longrightarrow> o_state ((ota_step ^^ n) o1) = r" using stay[of "n - k"] by auto
  ultimately show ?thesis by (simp add: k_def r_def)
qed

theorem ota_verdict_witness:
  "let o1 = snd (ota_begin (Some [0x31, 0x32, 0x33]) 3 0 ota_init)
   in fst (ota_begin (Some [0x31, 0x32, 0x33]) 3 0 ota_init) = Ok \<and> ota_busy ((ota_step ^^ 0) o1)"
proof -
  have "ota_begin (Some [0x31, 0x32, 0x33]) (length [0x31, 0x32, 0x33 :: u8]) 0 ota_init =
      (Ok, snd (ota_begin (Some [0x31, 0x32, 0x33]) 3 0 ota_init))"
    by (simp add: ota_begin_def ota_init_def)
  from ota_verdict[OF this, of 0] show ?thesis by (simp add: ota_begin_def ota_init_def)
qed

end
