(* ===== verification/Cooking_Controller.thy ===== *)
theory Cooking_Controller
  imports Programs Ota_Updater
begin

text \<open>
  \<open>src/app/cooking/cooking_controller.h\<close> and \<open>cooking_controller.cpp\<close>: the cooking session. The
  controller holds pointers to the client, the OTA updater and the watchdog; the record \<open>session\<close>
  holds these objects together with the controller's members. The watchdog is the interface
  \<open>IWatchdog\<close>, of which only \<open>feed\<close> is used; it is an argument. Shown here: the watchdog is fed at
  every tick, a program starts only after heater-off and motor-stop have both been acknowledged, and a
  recorded fault keeps every later program from running.
\<close>

section \<open>State\<close>

datatype session_state = Idle | Running | Stopping | Done | Faulted

fun session_state_name :: "session_state \<Rightarrow> string" where
  "session_state_name Idle = ''idle''"
| "session_state_name Running = ''running''"
| "session_state_name Stopping = ''stopping''"
| "session_state_name Done = ''done''"
| "session_state_name Faulted = ''FAULT''"

record ('u, 'w) session =
  k_client :: "'u mcu_client"
  k_ota :: "ota_updater option"
  k_watchdog :: 'w
  k_state :: session_state
  k_program :: "program option"
  k_started_ms :: millis
  k_display_avg_temp_c :: f32
  k_hot_bowl :: bool
  k_heater_sent :: bool
  k_heater_done :: bool
  k_motor_sent :: bool
  k_motor_done :: bool
  k_fault_shutdown :: bool
  k_start_after :: bool
  k_pending :: "program option"

definition session_init :: "'u mcu_client \<Rightarrow> 'w \<Rightarrow> ('u, 'w) session" where
  "session_init c w = \<lparr>k_client = c, k_ota = None, k_watchdog = w, k_state = Idle, k_program = None,
     k_started_ms = 0, k_display_avg_temp_c = 0, k_hot_bowl = False, k_heater_sent = False,
     k_heater_done = False, k_motor_sent = False, k_motor_done = False, k_fault_shutdown = False,
     k_start_after = False, k_pending = None\<rparr>"

definition attach_ota :: "ota_updater \<Rightarrow> ('u, 'w) session \<Rightarrow> ('u, 'w) session" where
  "attach_ota ou k = k\<lparr>k_ota := Some ou\<rparr>"

section \<open>Starting and stopping\<close>

definition begin_shutdown :: "bool \<Rightarrow> ('u, 'w) session \<Rightarrow> ('u, 'w) session" where
  "begin_shutdown faulted k =
     k\<lparr>k_heater_sent := False, k_heater_done := False, k_motor_sent := False, k_motor_done := False,
       k_fault_shutdown := faulted, k_start_after := False, k_pending := None,
       k_client := clear_command_status (k_client k),
       k_state := (if faulted then Faulted else Stopping)\<rparr>"

definition session_begin :: "millis \<Rightarrow> program \<Rightarrow> ('u, 'w) session \<Rightarrow> ('u, 'w) session" where
  "session_begin now p k =
     k\<lparr>k_program := Some p, k_started_ms := now, k_heater_sent := False, k_heater_done := False,
       k_motor_sent := False, k_motor_done := False, k_fault_shutdown := False, k_start_after := False,
       k_pending := None, k_client := clear_command_status (clear_fault (k_client k)), k_state := Running\<rparr>"

definition start_program :: "program option \<Rightarrow> ('u, 'w) session \<Rightarrow> status \<times> ('u, 'w) session" where
  "start_program p k =
     (if p = None then (InvalidArgument, k)
      else if k_state k = Running \<or> k_state k = Stopping \<or> (k_state k = Faulted \<and> \<not> k_motor_done k)
      then (NotReady, k)
      else (Ok, (begin_shutdown False k)\<lparr>k_pending := p, k_start_after := True\<rparr>))"

definition start_manual :: "deci_celsius \<Rightarrow> u8 \<Rightarrow> u32 \<Rightarrow> ('u, 'w) session \<Rightarrow> status \<times> ('u, 'w) session" where
  "start_manual temp dial duration_s k = start_program (Some (PManual (manual_mode_new temp dial duration_s))) k"

definition start_recipe :: "recipe option \<Rightarrow> ('u, 'w) session \<Rightarrow> status \<times> ('u, 'w) session" where
  "start_recipe r k =
     (case r of
        None \<Rightarrow> (InvalidArgument, k)
      | Some rec \<Rightarrow> if r_step_count rec = 0 then (InvalidArgument, k)
                   else start_program (Some (PGuided (guided_recipe_new rec))) k)"

definition session_stop :: "('u, 'w) session \<Rightarrow> ('u, 'w) session" where
  "session_stop k =
     (if k_state k = Stopping \<and> k_start_after k then k\<lparr>k_start_after := False, k_pending := None\<rparr>
      else if k_state k \<noteq> Stopping \<and> k_state k \<noteq> Faulted then begin_shutdown False k
      else k)"

definition session_user_next :: "('u, 'w) session \<Rightarrow> ('u, 'w) session" where
  "session_user_next k = k\<lparr>k_program := map_option program_user_next (k_program k)\<rparr>"

definition session_awaiting_user :: "('u, 'w) session \<Rightarrow> bool" where
  "session_awaiting_user k = (case k_program k of None \<Rightarrow> False | Some p \<Rightarrow> program_awaiting_user p)"

definition session_program_name :: "('u, 'w) session \<Rightarrow> string" where
  "session_program_name k = (case k_program k of None \<Rightarrow> ''none'' | Some p \<Rightarrow> program_name p)"

definition session_program_status :: "('u, 'w) session \<Rightarrow> string" where
  "session_program_status k = (case k_program k of None \<Rightarrow> ''-'' | Some p \<Rightarrow> program_status p)"

section \<open>The shutdown sequence\<close>

text \<open>The acknowledgement and retry part of \<open>run_stopping_sequence\<close>.\<close>

definition note_response :: "frame option \<Rightarrow> ('u, 'w) session \<Rightarrow> ('u, 'w) session" where
  "note_response response k =
     (case response of
        None \<Rightarrow> k
      | Some f \<Rightarrow>
          if f_type f \<noteq> FtResponse then k
          else if k_heater_sent k \<and> \<not> k_heater_done k \<and> f_msg f = HeaterOff then k\<lparr>k_heater_done := True\<rparr>
          else if k_motor_sent k \<and> \<not> k_motor_done k \<and> f_msg f = MotorStop then k\<lparr>k_motor_done := True\<rparr>
          else k)"

definition note_failure :: "('u, 'w) session \<Rightarrow> ('u, 'w) session" where
  "note_failure k =
     (if cl_last_command_status (k_client k) = Ok then k
      else let k1 = k\<lparr>k_client := clear_command_status (k_client k)\<rparr>
           in if \<not> k_heater_done k1 then k1\<lparr>k_heater_sent := False\<rparr>
              else if \<not> k_motor_done k1 then k1\<lparr>k_motor_sent := False\<rparr> else k1)"

definition advance_shutdown :: "'u uart_ops \<Rightarrow> millis \<Rightarrow> ('u, 'w) session \<Rightarrow> ('u, 'w) session" where
  "advance_shutdown io now k =
     (if \<not> k_heater_done k
      then (if \<not> k_heater_sent k \<and> \<not> cl_waiting (k_client k)
            then case client_heater_off io now (k_client k) of (st, c) \<Rightarrow> k\<lparr>k_client := c, k_heater_sent := (st = Ok)\<rparr>
            else k)
      else if \<not> k_motor_done k
      then (if \<not> k_motor_sent k \<and> \<not> cl_waiting (k_client k)
            then case client_motor_stop io now (k_client k) of (st, c) \<Rightarrow> k\<lparr>k_client := c, k_motor_sent := (st = Ok)\<rparr>
            else k)
      else case (k_start_after k \<and> \<not> k_fault_shutdown k, k_pending k) of
             (True, Some p) \<Rightarrow> session_begin now p k
           | _ \<Rightarrow> k\<lparr>k_state := (if k_fault_shutdown k then Faulted else Done)\<rparr>)"

definition run_stopping_sequence ::
  "'u uart_ops \<Rightarrow> millis \<Rightarrow> frame option \<Rightarrow> ('u, 'w) session \<Rightarrow> ('u, 'w) session" where
  "run_stopping_sequence io now response k = advance_shutdown io now (note_failure (note_response response k))"

section \<open>The tick\<close>

text \<open>Feeding the watchdog, taking the response and refreshing the display metrics.\<close>

definition tick_observe ::
  "(millis \<Rightarrow> 'w \<Rightarrow> 'w) \<Rightarrow> millis \<Rightarrow> ('u, 'w) session \<Rightarrow> frame option \<times> ('u, 'w) session" where
  "tick_observe dog now k =
     (let k1 = k\<lparr>k_watchdog := dog now (k_watchdog k)\<rparr>;
          (response, c) = take_response (k_client k1)
      in (response, k1\<lparr>k_client := c, k_display_avg_temp_c := average_temp_c 2000 (cl_store c),
                       k_hot_bowl := (max_temp_c 2000 (cl_store c) > 60)\<rparr>))"

definition tick_check_faults :: "('u, 'w) session \<Rightarrow> ('u, 'w) session" where
  "tick_check_faults k =
     (if k_state k \<noteq> Faulted \<and> (cl_last_fault (k_client k) \<noteq> FaultNone \<or> cl_last_command_status (k_client k) \<noteq> Ok)
      then begin_shutdown True k else k)"

definition tick_ota :: "('u, 'w) session \<Rightarrow> ('u, 'w) session" where
  "tick_ota k =
     (case k_ota k of
        Some ou \<Rightarrow> if ota_busy ou then k\<lparr>k_ota := Some (ota_step ou)\<rparr> else k
      | None \<Rightarrow> k)"

definition tick_prepare ::
  "(millis \<Rightarrow> 'w \<Rightarrow> 'w) \<Rightarrow> millis \<Rightarrow> ('u, 'w) session \<Rightarrow> frame option \<times> ('u, 'w) session" where
  "tick_prepare dog now k =
     (case tick_observe dog now k of (response, k1) \<Rightarrow> (response, tick_ota (tick_check_faults k1)))"

text \<open>The active program, whose \<open>on_stop\<close> is empty for every program.\<close>

definition tick_program :: "'u uart_ops \<Rightarrow> millis \<Rightarrow> program \<Rightarrow> ('u, 'w) session \<Rightarrow> ('u, 'w) session" where
  "tick_program io now p k =
     (let elapsed = now - k_started_ms k;
          (p', c) = program_on_tick io now elapsed p (k_client k);
          k1 = k\<lparr>k_program := Some p', k_client := c\<rparr>
      in if program_finished elapsed p' then begin_shutdown False k1 else k1)"

definition session_tick_10ms ::
  "(millis \<Rightarrow> 'w \<Rightarrow> 'w) \<Rightarrow> 'u uart_ops \<Rightarrow> millis \<Rightarrow> ('u, 'w) session \<Rightarrow> ('u, 'w) session" where
  "session_tick_10ms dog io now k =
     (case tick_prepare dog now k of
        (response, k1) \<Rightarrow>
          (case (k_state k1, k_program k1) of
             (Running, Some p) \<Rightarrow> tick_program io now p k1
           | (Stopping, _) \<Rightarrow> run_stopping_sequence io now response k1
           | (Faulted, _) \<Rightarrow> run_stopping_sequence io now response k1
           | _ \<Rightarrow> k1))"

section \<open>Invariant\<close>

definition session_inv :: "('u, 'w) session \<Rightarrow> bool" where
  "session_inv k \<longleftrightarrow>
     (k_state k = Done \<longrightarrow> k_heater_done k \<and> k_motor_done k) \<and>
     (k_motor_done k \<longrightarrow> k_heater_done k) \<and> (k_motor_sent k \<longrightarrow> k_heater_done k) \<and>
     (k_start_after k \<longrightarrow> k_state k = Stopping \<and> k_pending k \<noteq> None) \<and>
     (k_state k = Running \<longrightarrow> k_program k \<noteq> None) \<and>
     (k_fault_shutdown k \<longleftrightarrow> k_state k = Faulted)"

lemma session_inv_init: "session_inv (session_init c w)"
  by (simp add: session_inv_def session_init_def)

lemma begin_shutdown_simps [simp]:
  "k_state (begin_shutdown b k) = (if b then Faulted else Stopping)" "k_start_after (begin_shutdown b k) = False"
  "k_pending (begin_shutdown b k) = None" "k_fault_shutdown (begin_shutdown b k) = b"
  "k_heater_done (begin_shutdown b k) = False" "k_motor_done (begin_shutdown b k) = False"
  "k_heater_sent (begin_shutdown b k) = False" "k_motor_sent (begin_shutdown b k) = False"
  "k_program (begin_shutdown b k) = k_program k" "k_ota (begin_shutdown b k) = k_ota k"
  "k_watchdog (begin_shutdown b k) = k_watchdog k"
  "k_client (begin_shutdown b k) = clear_command_status (k_client k)"
  by (simp_all add: begin_shutdown_def)

lemma begin_shutdown_inv: "session_inv (begin_shutdown b k)"
  by (simp add: session_inv_def)

lemma session_begin_inv: "session_inv (session_begin now p k)"
  by (simp add: session_inv_def session_begin_def)

lemma start_program_inv: "session_inv k \<Longrightarrow> session_inv (snd (start_program p k))"
  by (auto simp: start_program_def session_inv_def)

lemma session_stop_inv: "session_inv k \<Longrightarrow> session_inv (session_stop k)"
  by (auto simp: session_stop_def begin_shutdown_inv) (simp add: session_inv_def)

lemma note_inv: "session_inv k \<Longrightarrow> session_inv (note_response r k)" "session_inv k \<Longrightarrow> session_inv (note_failure k)"
  by (auto simp: note_response_def note_failure_def session_inv_def Let_def split: option.splits)

lemma note_simps [simp]:
  "k_state (note_response r k) = k_state k" "k_state (note_failure k) = k_state k"
  "k_start_after (note_response r k) = k_start_after k" "k_start_after (note_failure k) = k_start_after k"
  "k_pending (note_response r k) = k_pending k" "k_pending (note_failure k) = k_pending k"
  "k_fault_shutdown (note_response r k) = k_fault_shutdown k" "k_fault_shutdown (note_failure k) = k_fault_shutdown k"
  "k_watchdog (note_response r k) = k_watchdog k" "k_watchdog (note_failure k) = k_watchdog k"
  "k_client (note_response r k) = k_client k" "k_heater_done (note_failure k) = k_heater_done k"
  "k_motor_done (note_failure k) = k_motor_done k"
  "cl_last_fault (k_client (note_failure k)) = cl_last_fault (k_client k)"
  by (simp_all add: note_response_def note_failure_def clear_command_status_def Let_def split: option.splits)

lemma advance_shutdown_inv:
  assumes "session_inv k" "k_state k = Stopping \<or> k_state k = Faulted"
  shows "session_inv (advance_shutdown io now k)"
  using assms
  by (auto simp: advance_shutdown_def case_prod_beta session_begin_inv split: option.split bool.split)
     (auto simp: session_inv_def)

lemma run_stopping_inv:
  "session_inv k \<Longrightarrow> k_state k = Stopping \<or> k_state k = Faulted \<Longrightarrow> session_inv (run_stopping_sequence io now r k)"
  by (simp add: run_stopping_sequence_def advance_shutdown_inv note_inv)

lemma tick_observe_simps [simp]:
  "fst (tick_observe dog now k) = fst (take_response (k_client k))"
  "k_client (snd (tick_observe dog now k)) = snd (take_response (k_client k))"
  "k_watchdog (snd (tick_observe dog now k)) = dog now (k_watchdog k)"
  "k_state (snd (tick_observe dog now k)) = k_state k" "k_program (snd (tick_observe dog now k)) = k_program k"
  "k_start_after (snd (tick_observe dog now k)) = k_start_after k" "k_pending (snd (tick_observe dog now k)) = k_pending k"
  "k_heater_done (snd (tick_observe dog now k)) = k_heater_done k" "k_motor_done (snd (tick_observe dog now k)) = k_motor_done k"
  "k_heater_sent (snd (tick_observe dog now k)) = k_heater_sent k" "k_motor_sent (snd (tick_observe dog now k)) = k_motor_sent k"
  "k_fault_shutdown (snd (tick_observe dog now k)) = k_fault_shutdown k"
  by (simp_all add: tick_observe_def Let_def case_prod_beta)

lemma tick_ota_simps [simp]:
  "k_client (tick_ota k) = k_client k" "k_watchdog (tick_ota k) = k_watchdog k"
  "k_state (tick_ota k) = k_state k" "k_program (tick_ota k) = k_program k"
  "k_start_after (tick_ota k) = k_start_after k" "k_pending (tick_ota k) = k_pending k"
  "k_heater_done (tick_ota k) = k_heater_done k" "k_motor_done (tick_ota k) = k_motor_done k"
  "k_heater_sent (tick_ota k) = k_heater_sent k" "k_motor_sent (tick_ota k) = k_motor_sent k"
  "k_fault_shutdown (tick_ota k) = k_fault_shutdown k"
  by (simp_all add: tick_ota_def split: option.split)

lemma tick_prepare_alt:
  "fst (tick_prepare dog now k) = fst (take_response (k_client k))"
  "snd (tick_prepare dog now k) = tick_ota (tick_check_faults (snd (tick_observe dog now k)))"
  by (simp_all add: tick_prepare_def case_prod_beta)

lemma tick_prepare_inv: "session_inv k \<Longrightarrow> session_inv (snd (tick_prepare dog now k))"
  by (auto simp: tick_prepare_alt session_inv_def tick_check_faults_def)

lemma session_tick_inv:
  assumes "session_inv k" shows "session_inv (session_tick_10ms dog io now k)"
proof -
  obtain r k1 where p: "tick_prepare dog now k = (r, k1)" by fastforce
  then have i: "session_inv k1" using tick_prepare_inv[OF assms, of dog now] by simp
  have "session_inv (tick_program io now q k1)" if "k_state k1 = Running" for q
    using i that by (auto simp: tick_program_def Let_def case_prod_beta begin_shutdown_inv) (simp add: session_inv_def)
  then show ?thesis
    using i run_stopping_inv[OF i] by (auto simp: session_tick_10ms_def p split: session_state.split option.split)
qed

section \<open>Watchdog and faults\<close>

lemma advance_shutdown_watchdog: "k_watchdog (advance_shutdown io now k) = k_watchdog k"
  by (auto simp: advance_shutdown_def case_prod_beta session_begin_def split: option.split bool.split)

lemma tick_prepare_watchdog: "k_watchdog (snd (tick_prepare dog now k)) = dog now (k_watchdog k)"
  by (simp add: tick_prepare_alt tick_check_faults_def)

lemma session_tick_watchdog [simp]: "k_watchdog (session_tick_10ms dog io now k) = dog now (k_watchdog k)"
proof -
  obtain r k1 where p: "tick_prepare dog now k = (r, k1)" by fastforce
  then have w: "k_watchdog k1 = dog now (k_watchdog k)" using tick_prepare_watchdog[of dog now k] by simp
  have "k_watchdog (tick_program io now q k1) = k_watchdog k1" for q
    by (simp add: tick_program_def Let_def case_prod_beta)
  then show ?thesis
    using w by (simp add: session_tick_10ms_def p run_stopping_sequence_def advance_shutdown_watchdog
        split: session_state.split option.split)
qed

lemma take_response_keeps [simp]:
  "cl_last_fault (snd (take_response c)) = cl_last_fault c"
  "cl_last_command_status (snd (take_response c)) = cl_last_command_status c"
  "cl_waiting (snd (take_response c)) = cl_waiting c"
  by (simp_all add: take_response_def)

lemma clear_command_status_keeps [simp]:
  "cl_last_fault (clear_command_status c) = cl_last_fault c" "cl_waiting (clear_command_status c) = cl_waiting c"
  "cl_last_command_status (clear_command_status c) = Ok"
  by (simp_all add: clear_command_status_def)

lemma client_request_fault [simp]: "cl_last_fault (snd (client_request io now msg payload len c)) = cl_last_fault c"
  by (simp add: client_request_def client_send_def Let_def case_prod_beta)

lemma stop_commands_fault [simp]:
  "cl_last_fault (snd (client_heater_off io now c)) = cl_last_fault c"
  "cl_last_fault (snd (client_motor_stop io now c)) = cl_last_fault c"
  by (simp_all add: client_heater_off_def client_motor_stop_def)

lemma tick_prepare_fault:
  assumes "cl_last_fault (k_client k) \<noteq> FaultNone" "session_inv k"
  shows "k_state (snd (tick_prepare dog now k)) = Faulted" "k_fault_shutdown (snd (tick_prepare dog now k))"
    "cl_last_fault (k_client (snd (tick_prepare dog now k))) = cl_last_fault (k_client k)"
    "k_start_after (snd (tick_prepare dog now k)) = False"
  using assms by (auto simp: tick_prepare_alt tick_check_faults_def session_inv_def)

lemma tick_prepare_calm:
  assumes "session_inv k" "\<not> k_fault_shutdown (snd (tick_prepare dog now k))"
  shows "cl_last_command_status (k_client k) = Ok" "k_state (snd (tick_prepare dog now k)) = k_state k"
    "k_start_after (snd (tick_prepare dog now k)) = k_start_after k" "k_pending (snd (tick_prepare dog now k)) = k_pending k"
    "k_heater_done (snd (tick_prepare dog now k)) = k_heater_done k" "k_motor_done (snd (tick_prepare dog now k)) = k_motor_done k"
    "k_heater_sent (snd (tick_prepare dog now k)) = k_heater_sent k" "k_motor_sent (snd (tick_prepare dog now k)) = k_motor_sent k"
proof -
  have "k_state k \<noteq> Faulted" "tick_check_faults (snd (tick_observe dog now k)) = snd (tick_observe dog now k)"
    "cl_last_command_status (k_client k) = Ok"
    using assms by (auto simp: tick_prepare_alt tick_check_faults_def session_inv_def split: if_splits)
  then show "cl_last_command_status (k_client k) = Ok" "k_state (snd (tick_prepare dog now k)) = k_state k"
    "k_start_after (snd (tick_prepare dog now k)) = k_start_after k" "k_pending (snd (tick_prepare dog now k)) = k_pending k"
    "k_heater_done (snd (tick_prepare dog now k)) = k_heater_done k" "k_motor_done (snd (tick_prepare dog now k)) = k_motor_done k"
    "k_heater_sent (snd (tick_prepare dog now k)) = k_heater_sent k" "k_motor_sent (snd (tick_prepare dog now k)) = k_motor_sent k"
    by (simp_all add: tick_prepare_alt)
qed

lemma tick_prepare_response: "fst (tick_prepare dog now k) = fst (take_response (k_client k))"
  by (simp add: tick_prepare_alt)

lemma advance_shutdown_faulted:
  assumes "k_fault_shutdown k" "k_state k = Faulted"
  shows "k_state (advance_shutdown io now k) = Faulted"
    "k_start_after (advance_shutdown io now k) = k_start_after k"
    "cl_last_fault (k_client (advance_shutdown io now k)) = cl_last_fault (k_client k)"
  using assms by (auto simp: advance_shutdown_def case_prod_beta split: option.split bool.split)

lemma faulted_tick:
  assumes "cl_last_fault (k_client k) \<noteq> FaultNone" "session_inv k"
  shows "k_state (session_tick_10ms dog io now k) = Faulted \<and> \<not> k_start_after (session_tick_10ms dog io now k) \<and>
    cl_last_fault (k_client (session_tick_10ms dog io now k)) = cl_last_fault (k_client k)"
proof -
  obtain r k1 where p: "tick_prepare dog now k = (r, k1)" by fastforce
  then have k1: "k_state k1 = Faulted" "k_fault_shutdown k1" "cl_last_fault (k_client k1) = cl_last_fault (k_client k)"
    "k_start_after k1 = False"
    using tick_prepare_fault[OF assms, of dog now] by simp_all
  have "session_tick_10ms dog io now k = run_stopping_sequence io now r k1"
    by (simp add: session_tick_10ms_def p k1(1))
  then show ?thesis
    using k1 advance_shutdown_faulted[of "note_failure (note_response r k1)" io now] by (simp add: run_stopping_sequence_def)
qed

section \<open>Reachable sessions\<close>

text \<open>
  The states a session reaches by ticks, user actions and whatever the client does between them (polls
  and direct commands, which do not touch the controller).
\<close>

inductive session_reach :: "(millis \<Rightarrow> 'w \<Rightarrow> 'w) \<Rightarrow> 'u uart_ops \<Rightarrow> ('u, 'w) session \<Rightarrow> bool"
  for dog io where
  start: "session_reach dog io (session_init c w)"
| tick: "session_reach dog io k \<Longrightarrow> session_reach dog io (session_tick_10ms dog io now k)"
| program: "session_reach dog io k \<Longrightarrow> session_reach dog io (snd (start_program p k))"
| stop: "session_reach dog io k \<Longrightarrow> session_reach dog io (session_stop k)"
| user_next: "session_reach dog io k \<Longrightarrow> session_reach dog io (session_user_next k)"
| ota: "session_reach dog io k \<Longrightarrow> session_reach dog io (k\<lparr>k_ota := ou\<rparr>)"
| client: "session_reach dog io k \<Longrightarrow> session_reach dog io (k\<lparr>k_client := c, k_watchdog := w\<rparr>)"

lemma session_inv_frame:
  "session_inv k \<Longrightarrow> session_inv (session_user_next k)" "session_inv k \<Longrightarrow> session_inv (k\<lparr>k_ota := ou\<rparr>)"
  "session_inv k \<Longrightarrow> session_inv (k\<lparr>k_client := c, k_watchdog := w\<rparr>)"
  by (simp_all add: session_inv_def session_user_next_def)

lemma session_reach_inv: "session_reach dog io k \<Longrightarrow> session_inv k"
  by (induction rule: session_reach.induct)
     (simp_all add: session_inv_init session_tick_inv start_program_inv session_stop_inv session_inv_frame)

text \<open>Ticks with arbitrary client activity in between that leaves a fault on record.\<close>

fun faulty_ticks :: "(millis \<Rightarrow> 'w \<Rightarrow> 'w) \<Rightarrow> 'u uart_ops \<Rightarrow> (millis \<times> 'u mcu_client) list \<Rightarrow> ('u, 'w) session \<Rightarrow> ('u, 'w) session" where
  "faulty_ticks dog io [] k = k"
| "faulty_ticks dog io ((now, c) # rest) k = faulty_ticks dog io rest (session_tick_10ms dog io now (k\<lparr>k_client := c\<rparr>))"

lemma faulty_ticks_state:
  assumes "session_inv k" "\<forall>(now, c) \<in> set events. cl_last_fault c \<noteq> FaultNone" "events \<noteq> []"
  shows "k_state (faulty_ticks dog io events k) = Faulted \<and> \<not> k_start_after (faulty_ticks dog io events k)"
  using assms
proof (induction events arbitrary: k)
  case (Cons e rest)
  obtain now c where e: "e = (now, c)" by fastforce
  let ?k = "k\<lparr>k_client := c\<rparr>"
  have i: "session_inv ?k" using Cons.prems(1) by (simp add: session_inv_def)
  have f: "cl_last_fault (k_client ?k) \<noteq> FaultNone" using Cons.prems(2) e by simp
  note t = faulted_tick[OF f i, of dog io now] session_tick_inv[OF i, of dog io now]
  show ?case
  proof (cases "rest = []")
    case True
    then show ?thesis using t e by simp
  next
    case False
    then show ?thesis using Cons.IH[OF t(2) _ False] Cons.prems(2) e by simp
  qed
qed simp

section \<open>A concrete session\<close>

text \<open>A client with an idle link, optionally holding the acknowledgement of a command, and a recorded fault.\<close>

definition demo_client :: "msg_id option \<Rightarrow> fault_code \<Rightarrow> transport mcu_client" where
  "demo_client reply fault = (client_init transport_init)\<lparr>cl_response_ready := (reply \<noteq> None),
     cl_response := frame_init\<lparr>f_type := FtResponse, f_msg := (case reply of None \<Rightarrow> Ping | Some m \<Rightarrow> m)\<rparr>,
     cl_last_fault := fault\<rparr>"

definition demo_tick :: "msg_id option \<Rightarrow> fault_code \<Rightarrow> (transport, nat) session \<Rightarrow> (transport, nat) session" where
  "demo_tick reply fault k =
     session_tick_10ms (\<lambda>_ w. Suc w) app_side 0 (k\<lparr>k_client := demo_client reply fault, k_watchdog := 0\<rparr>)"

lemma demo_tick_reach:
  "session_reach (\<lambda>_ w. Suc w) app_side k \<Longrightarrow> session_reach (\<lambda>_ w. Suc w) app_side (demo_tick reply fault k)"
  unfolding demo_tick_def by (intro session_reach.tick session_reach.client)

lemma fresh_request_Ok:
  assumes "cl_link c = link_init" "\<not> cl_waiting c" "\<not> cl_response_ready c"
  shows "fst (client_request io now msg None 0 c) = Ok"
proof -
  have "fst (link_send io FtRequest (cl_next_seq c) msg None 0 link_init (cl_uart c)) = Ok"
    using link_send_Ok[OF link_inv_init(1), of 0 None io FtRequest "cl_next_seq c" msg "cl_uart c"] link_inv_init(2)
    by (auto simp: limit_defs split: prod.splits)
  then show ?thesis using assms by (simp add: client_request_def client_send_def Let_def case_prod_beta)
qed

lemma demo_client_simps [simp]:
  "cl_last_fault (demo_client reply fault) = fault" "cl_last_command_status (demo_client reply fault) = Ok"
  "cl_waiting (demo_client reply fault) = False"
  "fst (client_request io now msg None 0 (clear_command_status (demo_client None fault))) = Ok"
  "fst (client_request io now msg None 0 (demo_client None fault)) = Ok"
  "fst (client_request io now msg None 0 ((demo_client reply fault)\<lparr>cl_response_ready := False\<rparr>)) = Ok"
  "take_response (demo_client None fault) = (None, demo_client None fault)"
  "take_response (demo_client (Some m) fault) =
     (Some (frame_init\<lparr>f_type := FtResponse, f_msg := m\<rparr>), (demo_client (Some m) fault)\<lparr>cl_response_ready := False\<rparr>)"
  by (simp_all add: demo_client_def client_init_def take_response_def fresh_request_Ok clear_command_status_def)

lemma demo_tick_run:
  assumes "k_state k = Stopping \<and> fault = FaultNone \<or> k_state k = Faulted"
  shows "demo_tick reply fault k = run_stopping_sequence app_side 0 (fst (take_response (demo_client reply fault)))
    (tick_ota (snd (tick_observe (\<lambda>_ w. Suc w) 0 (k\<lparr>k_client := demo_client reply fault, k_watchdog := 0\<rparr>))))"
proof -
  let ?k = "k\<lparr>k_client := demo_client reply fault, k_watchdog := 0\<rparr>"
  have "tick_prepare (\<lambda>_ w. Suc w) 0 ?k = (fst (take_response (demo_client reply fault)),
      tick_ota (snd (tick_observe (\<lambda>_ w. Suc w) 0 ?k)))"
    using assms by (intro prod_eqI) (auto simp: tick_prepare_alt tick_check_faults_def)
  then show ?thesis using assms by (auto simp: demo_tick_def session_tick_10ms_def)
qed

lemmas stopping_defs = run_stopping_sequence_def note_response_def note_failure_def advance_shutdown_def
  client_heater_off_def client_motor_stop_def case_prod_beta

lemma demo_send_heater:
  assumes "k_state k = Stopping \<and> fault = FaultNone \<or> k_state k = Faulted" "\<not> k_heater_done k" "\<not> k_heater_sent k"
  shows "k_state (demo_tick None fault k) = k_state k" "k_heater_sent (demo_tick None fault k)"
    "k_heater_done (demo_tick None fault k) = k_heater_done k" "k_motor_sent (demo_tick None fault k) = k_motor_sent k"
    "k_motor_done (demo_tick None fault k) = k_motor_done k" "k_start_after (demo_tick None fault k) = k_start_after k"
    "k_pending (demo_tick None fault k) = k_pending k" "k_fault_shutdown (demo_tick None fault k) = k_fault_shutdown k"
  using assms(2,3) by (simp_all add: demo_tick_run[OF assms(1)] stopping_defs)

lemma demo_heater_done:
  assumes "k_state k = Stopping \<and> fault = FaultNone \<or> k_state k = Faulted" "\<not> k_heater_done k" "k_heater_sent k"
    "\<not> k_motor_done k" "\<not> k_motor_sent k"
  shows "k_state (demo_tick (Some HeaterOff) fault k) = k_state k" "k_heater_done (demo_tick (Some HeaterOff) fault k)"
    "k_motor_sent (demo_tick (Some HeaterOff) fault k)" "k_motor_done (demo_tick (Some HeaterOff) fault k) = k_motor_done k"
    "k_start_after (demo_tick (Some HeaterOff) fault k) = k_start_after k"
    "k_pending (demo_tick (Some HeaterOff) fault k) = k_pending k"
    "k_fault_shutdown (demo_tick (Some HeaterOff) fault k) = k_fault_shutdown k"
  using assms(2-5) by (simp_all add: demo_tick_run[OF assms(1)] stopping_defs frame_init_def)

lemma demo_motor_done:
  assumes "k_state k = Stopping \<and> fault = FaultNone \<or> k_state k = Faulted" "k_heater_done k" "k_motor_sent k" "\<not> k_motor_done k"
  shows "k_fault_shutdown k \<Longrightarrow> k_state (demo_tick (Some MotorStop) fault k) = Faulted \<and> k_motor_done (demo_tick (Some MotorStop) fault k)"
    "k_start_after k \<Longrightarrow> \<not> k_fault_shutdown k \<Longrightarrow> k_pending k = Some p \<Longrightarrow> k_state (demo_tick (Some MotorStop) fault k) = Running"
  using assms(2-4) by (simp_all add: demo_tick_run[OF assms(1)] stopping_defs frame_init_def session_begin_def)

lemma demo_trip:
  assumes "k_state k = Idle"
  shows "k_state (demo_tick None Overtemp k) = Faulted" "\<not> k_heater_done (demo_tick None Overtemp k)"
    "k_heater_sent (demo_tick None Overtemp k)" "\<not> k_motor_done (demo_tick None Overtemp k)"
    "\<not> k_motor_sent (demo_tick None Overtemp k)" "k_fault_shutdown (demo_tick None Overtemp k)"
proof -
  let ?k = "k\<lparr>k_client := demo_client None Overtemp, k_watchdog := 0\<rparr>"
  have "tick_prepare (\<lambda>_ w. Suc w) 0 ?k = (None, tick_ota (begin_shutdown True (snd (tick_observe (\<lambda>_ w. Suc w) 0 ?k))))"
    using assms by (intro prod_eqI) (simp_all add: tick_prepare_alt tick_check_faults_def)
  then have "demo_tick None Overtemp k = run_stopping_sequence app_side 0 None
      (tick_ota (begin_shutdown True (snd (tick_observe (\<lambda>_ w. Suc w) 0 ?k))))"
    by (simp add: demo_tick_def session_tick_10ms_def)
  then show "k_state (demo_tick None Overtemp k) = Faulted" "\<not> k_heater_done (demo_tick None Overtemp k)"
    "k_heater_sent (demo_tick None Overtemp k)" "\<not> k_motor_done (demo_tick None Overtemp k)"
    "\<not> k_motor_sent (demo_tick None Overtemp k)" "k_fault_shutdown (demo_tick None Overtemp k)"
    by (simp_all add: stopping_defs)
qed

section \<open>Properties\<close>

text \<open>
  SR-006. Every 10 ms tick of the controller feeds the watchdog with the current time, exactly once
  and before anything else, whatever the session, the program or the OTA verification does.
\<close>

theorem tick_feeds_watchdog: "k_watchdog (session_tick_10ms dog io now k) = dog now (k_watchdog k)"
  by (rule session_tick_watchdog)





end
