(* ===== verification/Telemetry_Publisher.thy ===== *)
theory Telemetry_Publisher
  imports Link
begin

text \<open>
  \<open>src/mcu/telemetry_publisher.h\<close> and \<open>telemetry_publisher.cpp\<close>: periodic telemetry and the fault
  notification that has to leave first. Shown here: a pending fault is kept until its frame is
  queued, and it is queued before any later telemetry.
\<close>

definition kPeriodMs :: millis where [limit_defs]: "kPeriodMs = 10"

record telemetry_publisher =
  tp_last_publish_ms :: millis
  tp_seq :: u8
  tp_pending_fault :: fault_code

definition telemetry_init :: telemetry_publisher where
  "telemetry_init = \<lparr>tp_last_publish_ms = 0, tp_seq = 0, tp_pending_fault = FaultNone\<rparr>"

definition publish_fault :: "fault_code \<Rightarrow> telemetry_publisher \<Rightarrow> telemetry_publisher" where
  "publish_fault code tp = tp\<lparr>tp_pending_fault := code\<rparr>"

text \<open>The second half of \<open>maybe_publish\<close>: the periodic telemetry frame.\<close>

definition publish_periodic ::
  "'u uart_ops \<Rightarrow> millis \<Rightarrow> telemetry_data \<Rightarrow> telemetry_publisher \<Rightarrow> link \<Rightarrow> 'u \<Rightarrow>
   telemetry_publisher \<times> link \<times> 'u" where
  "publish_periodic io now data tp lk u =
     (if now - tp_last_publish_ms tp < kPeriodMs then (tp, lk, u)
      else case link_send io FtTelemetry (tp_seq tp) MsgTelemetry (Some (encode_telemetry data))
                  (of_nat kTelemetryPayloadSize) lk u of
             (st, lk', u') \<Rightarrow>
               (if st = Ok then tp\<lparr>tp_seq := tp_seq tp + 1, tp_last_publish_ms := now\<rparr> else tp, lk', u'))"

definition maybe_publish ::
  "'u uart_ops \<Rightarrow> millis \<Rightarrow> telemetry_data \<Rightarrow> telemetry_publisher \<Rightarrow> link \<Rightarrow> 'u \<Rightarrow>
   telemetry_publisher \<times> link \<times> 'u" where
  "maybe_publish io now data tp lk u =
     (if tp_pending_fault tp \<noteq> FaultNone
      then case link_send io FtTelemetry (tp_seq tp) MsgFault (Some [byte_of_fault (tp_pending_fault tp)]) 1 lk u of
             (st, lk', u') \<Rightarrow>
               if st \<noteq> Ok then (tp, lk', u')
               else publish_periodic io now data
                      (tp\<lparr>tp_seq := tp_seq tp + 1, tp_pending_fault := FaultNone\<rparr>) lk' u'
      else publish_periodic io now data tp lk u)"

section \<open>Properties\<close>

lemma bytes_at_telemetry [simp]: "bytes_at (Some (encode_telemetry d)) (of_nat kTelemetryPayloadSize) = encode_telemetry d"
  using length_encode_telemetry[of d] by (simp add: bytes_at_def limit_defs)

text \<open>The telemetry frame and the fault frame on the wire.\<close>

abbreviation telemetry_frame :: "u8 \<Rightarrow> telemetry_data \<Rightarrow> u8 list" where
  "telemetry_frame seq d \<equiv> write_frame kMaxFrameSize FtTelemetry seq MsgTelemetry (encode_telemetry d)"

abbreviation fault_frame :: "u8 \<Rightarrow> fault_code \<Rightarrow> u8 list" where
  "fault_frame seq c \<equiv> write_frame kMaxFrameSize FtTelemetry seq MsgFault [byte_of_fault c]"

context uart
begin

lemma publish_periodic_spec:
  assumes "link_inv lk" "uart_inv u"
  shows "\<exists>tp' lk' u'. publish_periodic io now data tp lk u = (tp', lk', u') \<and> link_inv lk' \<and> uart_inv u' \<and>
    rx_q u' = rx_q u \<and> l_parser lk' = l_parser lk \<and> tp_pending_fault tp' = tp_pending_fault tp \<and>
    (tp' = tp \<and> tx_q u' @ tx_pending lk' = tx_q u @ tx_pending lk \<or>
     \<not> now - tp_last_publish_ms tp < kPeriodMs \<and> tp_last_publish_ms tp' = now \<and> tp_seq tp' = tp_seq tp + 1 \<and>
     tx_q u' @ tx_pending lk' = tx_q u @ tx_pending lk @ telemetry_frame (tp_seq tp) data)"
proof (cases "now - tp_last_publish_ms tp < kPeriodMs")
  case True
  then show ?thesis using assms by (simp add: publish_periodic_def)
next
  case False
  obtain st lk' u' where s: "link_send io FtTelemetry (tp_seq tp) MsgTelemetry (Some (encode_telemetry data))
      (of_nat kTelemetryPayloadSize) lk u = (st, lk', u')" "link_inv lk'" "uart_inv u'" "rx_q u' = rx_q u"
    "l_parser lk' = l_parser lk"
    "st = Ok \<longrightarrow> tx_q u' @ tx_pending lk' = tx_q u @ tx_pending lk @ telemetry_frame (tp_seq tp) data"
    "st \<noteq> Ok \<longrightarrow> u' = u \<and> tx_pending lk' = tx_pending lk"
    using link_send_spec[OF assms, of FtTelemetry "tp_seq tp" MsgTelemetry "Some (encode_telemetry data)"
        "of_nat kTelemetryPayloadSize"] unfolding bytes_at_telemetry by blast
  then show ?thesis using False by (cases "st = Ok") (simp_all add: publish_periodic_def)
qed

lemma publish_periodic_sent:
  assumes "link_inv lk" "uart_inv u"
  shows "\<exists>tp' lk' u' sent. publish_periodic io now data tp lk u = (tp', lk', u') \<and> link_inv lk' \<and> uart_inv u' \<and>
    rx_q u' = rx_q u \<and> l_parser lk' = l_parser lk \<and> tp_pending_fault tp' = tp_pending_fault tp \<and>
    tx_q u' @ tx_pending lk' = tx_q u @ tx_pending lk @ sent \<and> (sent = [] \<or> sent = telemetry_frame (tp_seq tp) data)"
  using publish_periodic_spec[OF assms, of now data tp] by (elim exE conjE disjE) auto

lemma maybe_publish_spec:
  assumes "link_inv lk" "uart_inv u"
  shows "\<exists>tp' lk' u' sent. maybe_publish io now data tp lk u = (tp', lk', u') \<and> link_inv lk' \<and> uart_inv u' \<and>
    rx_q u' = rx_q u \<and> l_parser lk' = l_parser lk \<and>
    tx_q u' @ tx_pending lk' = tx_q u @ tx_pending lk @ sent \<and>
    (tp_pending_fault tp = FaultNone \<longrightarrow> tp_pending_fault tp' = FaultNone \<and>
       (sent = [] \<or> sent = telemetry_frame (tp_seq tp) data)) \<and>
    (tp_pending_fault tp \<noteq> FaultNone \<longrightarrow>
       tp' = tp \<and> sent = [] \<or>
       tp_pending_fault tp' = FaultNone \<and>
       (sent = fault_frame (tp_seq tp) (tp_pending_fault tp) \<or>
        sent = fault_frame (tp_seq tp) (tp_pending_fault tp) @ telemetry_frame (tp_seq tp + 1) data))"
proof (cases "tp_pending_fault tp = FaultNone")
  case True
  have e: "maybe_publish io now data tp lk u = publish_periodic io now data tp lk u"
    using True by (simp add: maybe_publish_def)
  obtain tp' lk' u' sent where "publish_periodic io now data tp lk u = (tp', lk', u')" "link_inv lk'" "uart_inv u'"
    "rx_q u' = rx_q u" "l_parser lk' = l_parser lk" "tp_pending_fault tp' = tp_pending_fault tp"
    "tx_q u' @ tx_pending lk' = tx_q u @ tx_pending lk @ sent" "sent = [] \<or> sent = telemetry_frame (tp_seq tp) data"
    using publish_periodic_sent[OF assms] by blast
  then show ?thesis using True unfolding e by (intro exI[of _ tp'] exI[of _ lk'] exI[of _ u'] exI[of _ sent]) simp
next
  case False
  obtain st lk1 u1 where s: "link_send io FtTelemetry (tp_seq tp) MsgFault (Some [byte_of_fault (tp_pending_fault tp)]) 1 lk u
      = (st, lk1, u1)" "link_inv lk1" "uart_inv u1" "rx_q u1 = rx_q u" "l_parser lk1 = l_parser lk"
    "st = Ok \<longrightarrow> tx_q u1 @ tx_pending lk1 = tx_q u @ tx_pending lk @ fault_frame (tp_seq tp) (tp_pending_fault tp)"
    "st \<noteq> Ok \<longrightarrow> u1 = u \<and> tx_pending lk1 = tx_pending lk"
    using link_send_spec[OF assms, of FtTelemetry "tp_seq tp" MsgFault "Some [byte_of_fault (tp_pending_fault tp)]" 1]
    by (auto simp: bytes_at_def)
  show ?thesis
  proof (cases "st = Ok")
    case True
    define tp1 where "tp1 = tp\<lparr>tp_seq := tp_seq tp + 1, tp_pending_fault := FaultNone\<rparr>"
    have "maybe_publish io now data tp lk u = publish_periodic io now data tp1 lk1 u1"
      using False True s(1) by (simp add: maybe_publish_def tp1_def)
    moreover obtain tp' lk' u' sent where "publish_periodic io now data tp1 lk1 u1 = (tp', lk', u')" "link_inv lk'"
      "uart_inv u'" "rx_q u' = rx_q u1" "l_parser lk' = l_parser lk1" "tp_pending_fault tp' = tp_pending_fault tp1"
      "tx_q u' @ tx_pending lk' = (tx_q u1 @ tx_pending lk1) @ sent" "sent = [] \<or> sent = telemetry_frame (tp_seq tp1) data"
      using publish_periodic_sent[OF s(2,3)] append_assoc by metis
    ultimately show ?thesis
      using s True False unfolding tp1_def
      by (intro exI[of _ tp'] exI[of _ lk'] exI[of _ u']
          exI[of _ "fault_frame (tp_seq tp) (tp_pending_fault tp) @ sent"]) auto
  next
    case no: False
    then show ?thesis using False s by (simp add: maybe_publish_def)
  qed
qed

end

text \<open>
  Fault notifications are neither lost nor overtaken. While a fault is pending, publishing either
  leaves everything pending and adds nothing to the outgoing stream, or the first frame it adds is the
  fault frame, possibly followed by one telemetry frame with the next sequence number.
\<close>

theorem fault_published_first:
  assumes "uart io rx_q tx_q uart_inv" "link_inv lk" "uart_inv u" "tp_pending_fault tp \<noteq> FaultNone"
  shows "\<exists>tp' lk' u' sent. maybe_publish io now data tp lk u = (tp', lk', u') \<and>
    tx_q u' @ tx_pending lk' = tx_q u @ tx_pending lk @ sent \<and>
    (tp' = tp \<and> sent = [] \<or>
     tp_pending_fault tp' = FaultNone \<and>
       (sent = fault_frame (tp_seq tp) (tp_pending_fault tp) \<or>
        sent = fault_frame (tp_seq tp) (tp_pending_fault tp) @ telemetry_frame (tp_seq tp + 1) data))"
  using uart.maybe_publish_spec[OF assms(1-3), of now data tp] assms(4) by blast

theorem fault_published_first_witness:
  "let tp = publish_fault LinkLost telemetry_init; d = \<lparr>td_tick = 1, td_deci_celsius = 200, td_rpm = 0, td_grams = 0, td_flags = 1\<rparr> in
   \<exists>tp' lk' u' sent. maybe_publish mcu_side 3 d tp link_init transport_init = (tp', lk', u') \<and>
     (tp' = tp \<and> sent = [] \<or> tp_pending_fault tp' = FaultNone)"
proof -
  let ?tp = "publish_fault LinkLost telemetry_init"
  have h: "tp_pending_fault ?tp \<noteq> FaultNone" by (simp add: publish_fault_def)
  show ?thesis
    unfolding Let_def using fault_published_first[OF mcu_uart.uart_axioms link_inv_init(1) transport_inv_init h, of 3] by blast
qed

end
