(* ===== verification/Interlocks.thy ===== *)
theory Interlocks
  imports C1link
begin

text \<open>
  \<open>src/mcu/safety_limits.h\<close>, \<open>interlocks.h\<close> and \<open>interlocks.cpp\<close>: the limits of
  \<open>docs/safety-requirements.md\<close> and the pure decisions taken from the sampled inputs. The guard
  conditions SR-001 and SR-002 are stated once as \<open>speed_permitted\<close>; the speed cap is shown to be
  exactly the largest permitted speed and the request clamp to be the minimum with it.
\<close>

section \<open>Limits\<close>

definition kMaxRpm :: rpm where [limit_defs]: "kMaxRpm = 10700"
definition kLidOpenMaxRpm :: rpm where [limit_defs]: "kLidOpenMaxRpm = 500"
definition kUnlockedMaxRpm :: rpm where [limit_defs]: "kUnlockedMaxRpm = 6400"
definition kUnlockMaxRpm :: rpm where [limit_defs]: "kUnlockMaxRpm = 100"
definition kSpillGuardTempC :: f32 where [limit_defs]: "kSpillGuardTempC = 60"
definition kSpillGuardMaxRpm :: rpm where [limit_defs]: "kSpillGuardMaxRpm = 6400"
definition kTareMaxRpm :: rpm where [limit_defs]: "kTareMaxRpm = 50"
definition kOvertempCutoffC :: f32 where [limit_defs]: "kOvertempCutoffC = 165"
definition kHeaterMinTargetDeci :: deci_celsius where [limit_defs]: "kHeaterMinTargetDeci = 370"
definition kHeaterMaxTargetDeci :: deci_celsius where [limit_defs]: "kHeaterMaxTargetDeci = 1600"
definition kLinkTimeoutMs :: millis where [limit_defs]: "kLinkTimeoutMs = 5000"

section \<open>Decisions\<close>

record inputs =
  in_temp_c :: f32
  in_rpm :: rpm
  in_lid_closed :: bool
  in_lid_locked :: bool
  in_motor_stalled :: bool

definition inputs_init :: inputs where
  "inputs_init = \<lparr>in_temp_c = 20, in_rpm = 0, in_lid_closed = True, in_lid_locked = False,
     in_motor_stalled = False\<rparr>"

definition clamp_speed_request :: "rpm \<Rightarrow> inputs \<Rightarrow> rpm" where
  "clamp_speed_request requested inp =
     (let a0 = requested;
          a1 = (if \<not> in_lid_closed inp \<and> a0 > kLidOpenMaxRpm then kLidOpenMaxRpm else a0);
          a2 = (if in_lid_closed inp \<and> \<not> in_lid_locked inp \<and> a1 > kUnlockedMaxRpm
                then kUnlockedMaxRpm else a1)
      in if in_temp_c inp > kSpillGuardTempC \<and> a2 > kSpillGuardMaxRpm then kSpillGuardMaxRpm else a2)"

definition continuous_cap :: "inputs \<Rightarrow> rpm" where
  "continuous_cap inp =
     (let cap = (if in_temp_c inp > kSpillGuardTempC then kSpillGuardMaxRpm else kMaxRpm)
      in if \<not> in_lid_closed inp \<and> cap > kLidOpenMaxRpm then kLidOpenMaxRpm
         else if \<not> in_lid_locked inp \<and> cap > kUnlockedMaxRpm then kUnlockedMaxRpm
         else cap)"

definition evaluate :: "inputs \<Rightarrow> fault_code" where
  "evaluate inp =
     (if in_temp_c inp \<ge> kOvertempCutoffC then Overtemp
      else if in_motor_stalled inp then MotorStall
      else FaultNone)"

section \<open>The guard conditions\<close>

text \<open>
  What SR-001 and SR-002 permit: with the lid open at most 500 RPM, above 6,400 RPM only with a
  locked lid, above 60 degrees at most 6,400 RPM, and never more than the drive's maximum.
\<close>

definition speed_permitted :: "inputs \<Rightarrow> rpm \<Rightarrow> bool" where
  "speed_permitted inp r \<longleftrightarrow>
     unat r \<le> 10700 \<and>
     (\<not> in_lid_closed inp \<longrightarrow> unat r \<le> 500) \<and>
     (unat r > 6400 \<longrightarrow> in_lid_locked inp) \<and>
     (in_temp_c inp > 60 \<longrightarrow> unat r \<le> 6400)"

lemma continuous_cap_max: "continuous_cap inp \<le> kMaxRpm"
  by (simp add: continuous_cap_def limit_defs Let_def)

lemma speed_permitted_mono: "speed_permitted inp r \<Longrightarrow> s \<le> r \<Longrightarrow> speed_permitted inp s"
  by (auto simp: speed_permitted_def word_le_nat_alt)

lemma evaluate_eq_None:
  "evaluate inp = FaultNone \<longleftrightarrow> in_temp_c inp < 165 \<and> \<not> in_motor_stalled inp"
  by (auto simp: evaluate_def limit_defs)

lemma clamp_min: "r \<le> kMaxRpm \<Longrightarrow> clamp_speed_request r inp = min r (continuous_cap inp)"
  by (auto simp: clamp_speed_request_def continuous_cap_def limit_defs min_def word_le_nat_alt
      word_less_nat_alt Let_def)

lemma cap_permitted: "r \<le> continuous_cap inp \<longleftrightarrow> speed_permitted inp r"
  by (auto simp: continuous_cap_def speed_permitted_def limit_defs word_le_nat_alt word_less_nat_alt Let_def)

text \<open>
  C10: the continuous motor cap is exactly the guard conditions SR-001 and SR-002: a speed does not
  exceed the cap if and only if it is permitted with the lid, the lock and the temperature sampled.
\<close>

theorem continuous_cap_exact: "r \<le> continuous_cap inp \<longleftrightarrow> speed_permitted inp r"
  by (rule cap_permitted)

text \<open>
  The clamp applied when a speed command arrives and the cap applied at every tick agree: a
  request within the drive's range is granted up to the cap, never less and never more.
\<close>

theorem clamp_speed_request_is_cap:
  assumes "requested \<le> kMaxRpm"
  shows "clamp_speed_request requested inp = min requested (continuous_cap inp)"
  using assms by (rule clamp_min)

theorem clamp_speed_request_is_cap_witness:
  "(8000 :: rpm) \<le> kMaxRpm \<and>
   clamp_speed_request 8000 (inputs_init\<lparr>in_lid_closed := False\<rparr>) = 500"
proof -
  have h: "(8000 :: rpm) \<le> kMaxRpm" by (simp add: limit_defs)
  then show ?thesis
    using clamp_speed_request_is_cap[OF h, of "inputs_init\<lparr>in_lid_closed := False\<rparr>"]
    by (simp add: continuous_cap_def inputs_init_def limit_defs min_def)
qed

end
