(* ===== verification/Motor_Controller.thy ===== *)
theory Motor_Controller
  imports Interlocks Hal
begin

text \<open>
  \<open>src/mcu/motor_controller.h\<close> and \<open>motor_controller.cpp\<close>: the speed ramp in binary32 and the
  duty written to the drive. Shown here: the commanded speed stays within the drive's range, a cap
  that bounds target and commanded speed survives the ramp step, and the ramp reaches its target
  within a fixed number of ticks despite the rounding of every step.
\<close>

section \<open>The controller\<close>

record motor_ctrl =
  mc_commanded :: f32
  mc_target :: rpm
  mc_ramp :: f32

definition motor_ctrl_init :: motor_ctrl where
  "motor_ctrl_init = \<lparr>mc_commanded = 0, mc_target = 0, mc_ramp = 500\<rparr>"

definition ramp_rate_for :: "u8 \<Rightarrow> f32" where
  "ramp_rate_for profile =
     (if profile = kRampGentle then 500 else if profile = kRampNormal then 1500
      else if profile = kRampFast then 2500 else 1500)"

definition motor_set_target :: "rpm \<Rightarrow> u8 \<Rightarrow> motor_ctrl \<Rightarrow> motor_ctrl" where
  "motor_set_target r profile mc =
     mc\<lparr>mc_target := (if r > kMaxRpm then kMaxRpm else r), mc_ramp := ramp_rate_for profile\<rparr>"

definition motor_burst :: "rpm \<Rightarrow> motor_ctrl \<Rightarrow> motor_ctrl" where
  "motor_burst r mc =
     (let bounded = (if r > kMaxRpm then kMaxRpm else r)
      in mc\<lparr>mc_target := bounded, mc_commanded := float_of (uint bounded)\<rparr>)"

definition motor_stop :: "'h hardware \<Rightarrow> motor_ctrl \<Rightarrow> 'h \<Rightarrow> motor_ctrl \<times> 'h" where
  "motor_stop hw mc h = (mc\<lparr>mc_target := 0, mc_commanded := 0\<rparr>, motor_set_duty hw 0 h)"

definition enforce_cap :: "rpm \<Rightarrow> motor_ctrl \<Rightarrow> motor_ctrl" where
  "enforce_cap cap mc =
     (let mc1 = (if mc_target mc > cap then mc\<lparr>mc_target := cap\<rparr> else mc)
      in if mc_commanded mc1 > float_of (uint cap) then mc1\<lparr>mc_commanded := float_of (uint cap)\<rparr> else mc1)"

definition motor_active :: "motor_ctrl \<Rightarrow> bool" where
  "motor_active mc \<longleftrightarrow> mc_target mc > 0 \<or> mc_commanded mc > 0"

text \<open>The ramp step of \<open>tick_1ms\<close>, and the tick that also writes the duty.\<close>

definition ramp_step :: "motor_ctrl \<Rightarrow> motor_ctrl" where
  "ramp_step mc =
     (let target = float_of (uint (mc_target mc));
          max_step = fmul (mc_ramp mc) (rnd (1 / 1000))
      in if mc_commanded mc < target
         then let c = fadd (mc_commanded mc) max_step
              in mc\<lparr>mc_commanded := (if c > target then target else c)\<rparr>
         else if mc_commanded mc > target
         then let c = fsub (mc_commanded mc) (fmul max_step 4)
              in mc\<lparr>mc_commanded := (if c < target then target else c)\<rparr>
         else mc)"

definition motor_tick_1ms :: "'h hardware \<Rightarrow> motor_ctrl \<Rightarrow> 'h \<Rightarrow> motor_ctrl \<times> 'h" where
  "motor_tick_1ms hw mc h =
     (let mc1 = ramp_step mc
      in (mc1, motor_set_duty hw (fdiv (mc_commanded mc1) (float_of (uint kMaxRpm))) h))"

section \<open>Invariant\<close>

definition motor_ctrl_inv :: "motor_ctrl \<Rightarrow> bool" where
  "motor_ctrl_inv mc \<longleftrightarrow> 0 \<le> mc_commanded mc \<and> mc_commanded mc \<le> 10700 \<and>
     mc_target mc \<le> kMaxRpm \<and> (mc_ramp mc = 500 \<or> mc_ramp mc = 1500 \<or> mc_ramp mc = 2500)"

text \<open>The exact \<open>float\<close> value of a speed.\<close>

definition rpm_f :: "rpm \<Rightarrow> f32" where
  "rpm_f r = of_nat (unat r)"

lemma float_of_rpm [simp]: "float_of (uint r) = rpm_f r" for r :: rpm
proof -
  have "\<bar>uint r\<bar> \<le> 2 ^ 24" using unsigned_less[of r, where 'a = int] by simp
  then show ?thesis unfolding rpm_f_def by (simp only: float_of_small) simp
qed

lemma rpm_f_le [simp]: "rpm_f r \<le> rpm_f s \<longleftrightarrow> r \<le> s"
  unfolding rpm_f_def by (simp only: of_nat_le_iff word_le_nat_alt)

lemma rpm_f_less [simp]: "rpm_f r < rpm_f s \<longleftrightarrow> r < s"
  unfolding rpm_f_def by (simp only: of_nat_less_iff word_less_nat_alt)

lemma rpm_f_simps [simp]: "rpm_f 0 = 0" "rpm_f kMaxRpm = 10700" "0 \<le> rpm_f r" "\<not> rpm_f r < 0"
  unfolding rpm_f_def by (simp_all only: of_nat_0_le_iff not_less) (simp_all add: limit_defs)

lemma rpm_le_max: "r \<le> kMaxRpm \<longleftrightarrow> rpm_f r \<le> 10700"
  using rpm_f_le[of r kMaxRpm] by simp

lemma rnd_rpm_f [simp]: "rnd (rpm_f r) = rpm_f r"
proof -
  have "\<bar>int (unat r)\<bar> \<le> 2 ^ 24" using unsigned_less[of r, where 'a = int] by simp
  from b32.rd_exact[OF this] show ?thesis by (simp only: rpm_f_def of_int_of_nat_eq)
qed

lemma motor_ctrl_inv_init: "motor_ctrl_inv motor_ctrl_init"
  by (simp add: motor_ctrl_inv_def motor_ctrl_init_def)

lemma motor_set_target_inv: "motor_ctrl_inv mc \<Longrightarrow> motor_ctrl_inv (motor_set_target r p mc)"
  by (auto simp: motor_ctrl_inv_def motor_set_target_def ramp_rate_for_def not_less)

lemma motor_burst_inv: "motor_ctrl_inv mc \<Longrightarrow> motor_ctrl_inv (motor_burst r mc)"
  using rpm_le_max[of r] by (auto simp: motor_ctrl_inv_def motor_burst_def Let_def not_less)

lemma motor_stop_simps [simp]:
  "fst (motor_stop hw mc h) = mc\<lparr>mc_target := 0, mc_commanded := 0\<rparr>"
  "snd (motor_stop hw mc h) = motor_set_duty hw 0 h"
  by (simp_all add: motor_stop_def)

lemma motor_stop_inv: "motor_ctrl_inv mc \<Longrightarrow> motor_ctrl_inv (mc\<lparr>mc_target := 0, mc_commanded := 0\<rparr>)"
  by (simp add: motor_ctrl_inv_def)

lemma enforce_cap_inv: "motor_ctrl_inv mc \<Longrightarrow> motor_ctrl_inv (enforce_cap cap mc)"
  by (auto simp: motor_ctrl_inv_def enforce_cap_def Let_def)

lemma enforce_cap_bounds:
  "mc_target (enforce_cap cap mc) \<le> cap" "mc_commanded (enforce_cap cap mc) \<le> rpm_f cap"
  by (auto simp: enforce_cap_def Let_def)

lemma enforce_cap_stopped:
  "motor_ctrl_inv mc \<Longrightarrow> \<not> motor_active mc \<Longrightarrow> enforce_cap cap mc = mc"
  by (auto simp: enforce_cap_def motor_active_def motor_ctrl_inv_def word_gt_0)

section \<open>The ramp\<close>

text \<open>A step of the ramp moves between the commanded speed and the target.\<close>

lemma ramp_step_keeps [simp]: "mc_target (ramp_step mc) = mc_target mc" "mc_ramp (ramp_step mc) = mc_ramp mc"
  by (auto simp: ramp_step_def Let_def)

lemma max_step_bounds:
  assumes "r = 500 \<or> r = 1500 \<or> r = (2500 :: f32)"
  shows "49 / 100 \<le> fmul r (rnd (1 / 1000))" "fmul r (rnd (1 / 1000)) \<le> 3"
proof -
  have "49 / 100 \<le> fmul 500 (rnd (1 / 1000))" "fmul 500 (rnd (1 / 1000)) \<le> 3"
    "49 / 100 \<le> fmul 1500 (rnd (1 / 1000))" "fmul 1500 (rnd (1 / 1000)) \<le> 3"
    "49 / 100 \<le> fmul 2500 (rnd (1 / 1000))" "fmul 2500 (rnd (1 / 1000)) \<le> 3" by code_simp+
  then show "49 / 100 \<le> fmul r (rnd (1 / 1000))" "fmul r (rnd (1 / 1000)) \<le> 3" using assms by auto
qed

lemma brake_step_bound:
  assumes "r = 500 \<or> r = 1500 \<or> r = (2500 :: f32)"
  shows "1 \<le> fmul (fmul r (rnd (1 / 1000))) 4"
  using max_step_bounds(1)[OF assms] b32.rd_ge[of 1 "fmul r (rnd (1 / 1000)) * 4"]
  by (simp add: f32_ops)

text \<open>Below 2 ^ 14 a rounding error is at most 1/2048, so that a ramp step is never swallowed.\<close>

lemma quantum_small:
  assumes "0 < x" "x < 2 ^ 14" shows "quantum x \<le> 1 / 2 ^ 10"
proof -
  have "(2::rat) powi binade x \<le> x" using assms(1) by (rule binade_bounds)
  also have "\<dots> < 2 powi 14" using assms by simp
  finally have "binade x < 14" by (rule powi_less_imp)
  then have "(2::rat) powi (max (binade x - 23) (- 149)) \<le> 2 powi (- 10)" by (intro power_int_increasing) auto
  then show ?thesis using assms(1) by (simp add: quantum_def power_int_minus_divide)
qed

lemma rnd_close:
  assumes "0 < x" "x < 2 ^ 14"
  shows "rnd x \<le> x + 1 / 100" "x - 1 / 100 \<le> rnd x"
proof -
  have "\<bar>rnd x - x\<bar> \<le> 1 / 100" using rnd_error[of x] quantum_small[OF assms] by simp
  then show "rnd x \<le> x + 1 / 100" "x - 1 / 100 \<le> rnd x" by linarith+
qed

lemma ramp_step_reached: "mc_commanded mc = rpm_f (mc_target mc) \<Longrightarrow> ramp_step mc = mc"
  by (simp add: ramp_step_def)

lemma ramp_step_up:
  assumes "motor_ctrl_inv mc" "mc_commanded mc < rpm_f (mc_target mc)"
  shows "mc_commanded (ramp_step mc) \<le> rpm_f (mc_target mc)"
    "min (rpm_f (mc_target mc)) (mc_commanded mc + 2 / 5) \<le> mc_commanded (ramp_step mc)"
proof -
  define s where "s = fmul (mc_ramp mc) (rnd (1 / 1000))"
  have s: "49 / 100 \<le> s" "s \<le> 3"
    using max_step_bounds[of "mc_ramp mc"] assms(1) by (auto simp: motor_ctrl_inv_def s_def)
  have "mc_commanded mc + s - 1 / 100 \<le> rnd (mc_commanded mc + s)"
    using assms(1) s by (intro rnd_close) (auto simp: motor_ctrl_inv_def)
  then have c: "mc_commanded mc + 2 / 5 \<le> fadd (mc_commanded mc) s" using s unfolding f32_ops by linarith
  have e: "mc_commanded (ramp_step mc) = (let c = fadd (mc_commanded mc) s in if c > rpm_f (mc_target mc) then rpm_f (mc_target mc) else c)"
    using assms(2) by (simp add: ramp_step_def Let_def s_def)
  show "mc_commanded (ramp_step mc) \<le> rpm_f (mc_target mc)" by (simp add: e Let_def)
  show "min (rpm_f (mc_target mc)) (mc_commanded mc + 2 / 5) \<le> mc_commanded (ramp_step mc)"
    using c by (auto simp: e Let_def)
qed

lemma ramp_step_down:
  assumes "motor_ctrl_inv mc" "rpm_f (mc_target mc) < mc_commanded mc"
  shows "rpm_f (mc_target mc) \<le> mc_commanded (ramp_step mc)"
    "mc_commanded (ramp_step mc) \<le> max (rpm_f (mc_target mc)) (mc_commanded mc - 2 / 5)"
proof -
  define s where "s = fmul (fmul (mc_ramp mc) (rnd (1 / 1000))) 4"
  define x where "x = mc_commanded mc - s"
  have s: "1 \<le> s" using brake_step_bound[of "mc_ramp mc"] assms(1) by (auto simp: motor_ctrl_inv_def s_def)
  have c: "mc_commanded mc \<le> 10700" using assms(1) by (simp add: motor_ctrl_inv_def)
  have up: "rnd x \<le> max 0 (mc_commanded mc - 2 / 5)"
  proof (cases "0 < x")
    case True
    then have "rnd x \<le> x + 1 / 100" using s c by (intro rnd_close) (auto simp: x_def)
    then show ?thesis using s unfolding x_def by linarith
  next
    case False
    then show ?thesis using b32.rd_neg_mono[of x] by simp
  qed
  have e: "mc_commanded (ramp_step mc) = (if rnd x < rpm_f (mc_target mc) then rpm_f (mc_target mc) else rnd x)"
    using assms(2) by (simp add: ramp_step_def Let_def s_def x_def f32_ops)
  show "rpm_f (mc_target mc) \<le> mc_commanded (ramp_step mc)" by (simp add: e)
  have "0 \<le> rpm_f (mc_target mc)" by simp
  then show "mc_commanded (ramp_step mc) \<le> max (rpm_f (mc_target mc)) (mc_commanded mc - 2 / 5)"
    using up unfolding e by (cases "rnd x < rpm_f (mc_target mc)"; simp only: if_True if_False; linarith)
qed

lemma ramp_step_between:
  assumes "motor_ctrl_inv mc"
  shows "min (rpm_f (mc_target mc)) (mc_commanded mc) \<le> mc_commanded (ramp_step mc)"
    "mc_commanded (ramp_step mc) \<le> max (rpm_f (mc_target mc)) (mc_commanded mc)"
  using ramp_step_up[OF assms] ramp_step_down[OF assms] ramp_step_reached[of mc]
  by (cases "mc_commanded mc" "rpm_f (mc_target mc)" rule: linorder_cases; force)+

lemma ramp_step_inv:
  assumes "motor_ctrl_inv mc" shows "motor_ctrl_inv (ramp_step mc)"
proof -
  have "0 \<le> min (rpm_f (mc_target mc)) (mc_commanded mc)" "max (rpm_f (mc_target mc)) (mc_commanded mc) \<le> 10700"
    using assms by (auto simp: motor_ctrl_inv_def rpm_le_max)
  then have "0 \<le> mc_commanded (ramp_step mc)" "mc_commanded (ramp_step mc) \<le> 10700"
    using ramp_step_between[OF assms] by linarith+
  then show ?thesis using assms by (simp add: motor_ctrl_inv_def)
qed

lemma motor_tick_fst [simp]: "fst (motor_tick_1ms hw mc h) = ramp_step mc"
  by (simp add: motor_tick_1ms_def Let_def)

lemma motor_tick_snd:
  "snd (motor_tick_1ms hw mc h) = motor_set_duty hw (fdiv (mc_commanded (ramp_step mc)) 10700) h"
  by (simp add: motor_tick_1ms_def Let_def)

lemma ramp_step_stopped: "motor_ctrl_inv mc \<Longrightarrow> \<not> motor_active mc \<Longrightarrow> ramp_step mc = mc"
  by (rule ramp_step_reached) (auto simp: motor_active_def motor_ctrl_inv_def word_gt_0)

section \<open>Properties\<close>

text \<open>The distance to the target after \<open>n\<close> ticks.\<close>

lemma ramp_distance:
  assumes "motor_ctrl_inv mc"
  shows "motor_ctrl_inv ((ramp_step ^^ n) mc) \<and> mc_target ((ramp_step ^^ n) mc) = mc_target mc \<and>
    \<bar>mc_commanded ((ramp_step ^^ n) mc) - rpm_f (mc_target mc)\<bar>
      \<le> max 0 (\<bar>mc_commanded mc - rpm_f (mc_target mc)\<bar> - 2 / 5 * of_nat n)"
proof (induction n)
  case 0
  then show ?case using assms by simp
next
  case (Suc n)
  define m where "m = (ramp_step ^^ n) mc"
  define t where "t = rpm_f (mc_target mc)"
  have m: "motor_ctrl_inv m" "mc_target m = mc_target mc"
    and d: "\<bar>mc_commanded m - t\<bar> \<le> max 0 (\<bar>mc_commanded mc - t\<bar> - 2 / 5 * of_nat n)"
    using Suc by (simp_all add: m_def t_def)
  have "\<bar>mc_commanded (ramp_step m) - t\<bar> \<le> max 0 (\<bar>mc_commanded m - t\<bar> - 2 / 5)"
    using ramp_step_up[OF m(1)] ramp_step_down[OF m(1)] ramp_step_reached[of m] m(2)
    by (cases "mc_commanded m" "t" rule: linorder_cases) (force simp: t_def)+
  also have "\<dots> \<le> max 0 (\<bar>mc_commanded mc - t\<bar> - 2 / 5 * of_nat (Suc n))"
    using d unfolding of_nat_Suc distrib_left by linarith
  finally show ?case using ramp_step_inv[OF m(1)] m(2) by (simp add: m_def t_def)
qed

text \<open>
  C11: the ramp converges. From every state of the controller, with any of the ramp rates, at most
  26,750 ticks (26.75 s) of 1 ms bring the commanded speed exactly to the target, in spite of the
  binary32 rounding of every step.
\<close>

theorem ramp_reaches_target:
  assumes "motor_ctrl_inv mc" "26750 \<le> n"
  shows "mc_commanded ((ramp_step ^^ n) mc) = float_of (uint (mc_target mc))"
proof -
  have "\<bar>mc_commanded mc - rpm_f (mc_target mc)\<bar> \<le> 10700"
    using assms(1) rpm_f_simps(3)[of "mc_target mc"] by (auto simp: motor_ctrl_inv_def rpm_le_max simp del: rpm_f_simps(3))
  moreover have "(10700 :: rat) \<le> 2 / 5 * of_nat n" using of_nat_mono[OF assms(2), where 'a = rat] by simp
  ultimately have "\<bar>mc_commanded ((ramp_step ^^ n) mc) - rpm_f (mc_target mc)\<bar> \<le> 0"
    using ramp_distance[OF assms(1), of n] by (auto simp: max_def split: if_splits)
  then show ?thesis by simp
qed

theorem ramp_reaches_target_witness:
  "motor_ctrl_inv (motor_set_target 10700 kRampGentle motor_ctrl_init) \<and>
   mc_commanded ((ramp_step ^^ 26750) (motor_set_target 10700 kRampGentle motor_ctrl_init)) = 10700"
proof -
  let ?mc = "motor_set_target 10700 kRampGentle motor_ctrl_init"
  have i: "motor_ctrl_inv ?mc" by (rule motor_set_target_inv[OF motor_ctrl_inv_init])
  have "mc_target ?mc = kMaxRpm" by (simp add: motor_set_target_def limit_defs)
  then show ?thesis using ramp_reaches_target[OF i, of 26750] i by simp
qed

end
