(* ===== verification/Heater_Pid.thy ===== *)
theory Heater_Pid
  imports Common
begin

text \<open>
  \<open>src/mcu/heater_pid.h\<close> and \<open>heater_pid.cpp\<close>: the proportional-integral heater controller in
  binary32. Shown here: the power is between 0 and 1200 W and zero when disabled, and it vanishes
  well before the bowl is hotter than the setpoint by more than the integral can outweigh.
\<close>

section \<open>The controller\<close>

definition kKp :: f32 where [limit_defs]: "kKp = 130"
definition kKi :: f32 where [limit_defs]: "kKi = 2"
definition kMaxWatts :: f32 where [limit_defs]: "kMaxWatts = 1200"
definition kIntegralBandC :: f32 where [limit_defs]: "kIntegralBandC = 5"

record heater_pid =
  pid_enabled :: bool
  pid_target :: deci_celsius
  pid_integral :: f32

definition pid_init :: heater_pid where
  "pid_init = \<lparr>pid_enabled = False, pid_target = 0, pid_integral = 0\<rparr>"

definition pid_set_target :: "deci_celsius \<Rightarrow> heater_pid \<Rightarrow> heater_pid" where
  "pid_set_target target p =
     (let p1 = (if \<not> pid_enabled p \<or> target \<noteq> pid_target p then p\<lparr>pid_integral := 0\<rparr> else p)
      in p1\<lparr>pid_target := target, pid_enabled := True\<rparr>)"

definition pid_disable :: "heater_pid \<Rightarrow> heater_pid" where
  "pid_disable p = p\<lparr>pid_enabled := False, pid_target := 0, pid_integral := 0\<rparr>"

definition pid_update :: "f32 \<Rightarrow> f32 \<Rightarrow> heater_pid \<Rightarrow> f32 \<times> heater_pid" where
  "pid_update measured_c dt p =
     (if \<not> pid_enabled p then (0, p)
      else let error = fsub (to_celsius (pid_target p)) measured_c;
               p1 = (if \<bar>error\<bar> < kIntegralBandC
                     then p\<lparr>pid_integral := fadd (pid_integral p) (fmul error dt)\<rparr> else p);
               w0 = fadd (fmul kKp error) (fmul kKi (pid_integral p1));
               w1 = (if w0 < 0 then 0 else w0);
               w2 = (if w1 > kMaxWatts then kMaxWatts else w1)
           in (w2, p1))"

section \<open>Properties\<close>

lemma pid_update_range: "0 \<le> fst (pid_update t dt p)" "fst (pid_update t dt p) \<le> 1200"
  by (auto simp: pid_update_def Let_def limit_defs)

lemma pid_update_keeps [simp]:
  "pid_enabled (snd (pid_update t dt p)) = pid_enabled p"
  "pid_target (snd (pid_update t dt p)) = pid_target p"
  by (auto simp: pid_update_def Let_def)

lemma pid_disable_simps [simp]:
  "pid_enabled (pid_disable p) = False" "fst (pid_update t dt (pid_disable p)) = 0"
  by (simp_all add: pid_disable_def pid_update_def)

lemma pid_set_target_simps [simp]:
  "pid_enabled (pid_set_target d p)" "pid_target (pid_set_target d p) = d"
  by (auto simp: pid_set_target_def Let_def)

text \<open>
  The heater controller never winds up: outside the 5-degree band around the setpoint the
  integral is left alone, and from there a bowl at least 5 degrees too cold with an integral that is
  not negative asks for at least 650 W while one at least 5 degrees too hot with an integral of at
  most 325 degree-seconds gets no power at all.
\<close>

theorem pid_outside_band:
  assumes "pid_enabled p" "5 \<le> \<bar>fsub (to_celsius (pid_target p)) t\<bar>"
  shows "snd (pid_update t dt p) = p \<and>
    (5 \<le> fsub (to_celsius (pid_target p)) t \<longrightarrow> 0 \<le> pid_integral p \<longrightarrow> 650 \<le> fst (pid_update t dt p)) \<and>
    (fsub (to_celsius (pid_target p)) t \<le> - 5 \<longrightarrow> pid_integral p \<le> 325 \<longrightarrow> fst (pid_update t dt p) = 0)"
proof -
  define e where "e = fsub (to_celsius (pid_target p)) t"
  define w where "w = fadd (fmul 130 e) (fmul 2 (pid_integral p))"
  have u: "pid_update t dt p =
      (let w1 = if w < 0 then 0 else w in if w1 > 1200 then 1200 else w1, p)"
    using assms by (simp add: pid_update_def Let_def limit_defs e_def w_def)
  have "650 \<le> w" if "5 \<le> e" "0 \<le> pid_integral p"
  proof -
    have "650 \<le> fmul 130 e" "0 \<le> fmul 2 (pid_integral p)"
      using that b32.rd_ge[of 650 "130 * e"] b32.rd_ge[of 0 "2 * pid_integral p"] by (simp_all add: f32_ops)
    then show ?thesis using b32.rd_ge[of 650] by (simp add: w_def f32_ops)
  qed
  moreover have "w \<le> 0" if "e \<le> - 5" "pid_integral p \<le> 325"
  proof -
    have "fmul 130 e \<le> - 650" "fmul 2 (pid_integral p) \<le> 650"
      using that b32.rd_le[of "- 650" "130 * e"] b32.rd_le[of 650 "2 * pid_integral p"] by (simp_all add: f32_ops)
    then show ?thesis using b32.rd_le[of 0] by (simp add: w_def f32_ops)
  qed
  ultimately show ?thesis by (auto simp: u e_def Let_def)
qed

theorem pid_outside_band_witness:
  "let p = pid_set_target 1000 pid_init in pid_enabled p \<and>
     5 \<le> \<bar>fsub (to_celsius (pid_target p)) 20\<bar> \<and> 650 \<le> fst (pid_update 20 (rnd (1 / 1000)) p)"
proof -
  let ?p = "pid_set_target 1000 pid_init"
  have e: "fsub (to_celsius (pid_target ?p)) 20 = 80" by code_simp
  have i: "pid_integral ?p = 0" by (simp add: pid_set_target_def pid_init_def)
  show ?thesis using pid_outside_band[of ?p 20 "rnd (1 / 1000)"] e i by simp
qed

end
