(* ===== verification/Command_Handler.thy ===== *)
theory Command_Handler
  imports Telemetry_Publisher Motor_Controller Heater_Pid
begin

text \<open>
  \<open>src/mcu/command_handler.h\<close> and \<open>command_handler.cpp\<close>: the ten request handlers, the dispatch
  table and the fault gate. The handler shares the link, the motor controller, the heater controller
  and the hardware with the MCU that owns them; that shared state is the record \<open>mcu_core\<close>, which
  \<open>Safety_Mcu\<close> extends, so that every handler works on the whole MCU state.
\<close>

section \<open>Shared state and replies\<close>

record ('h, 'u) mcu_core =
  c_hw :: 'h
  c_uart :: 'u
  c_link :: link
  c_motor :: motor_ctrl
  c_pid :: heater_pid
  c_tare :: i32

definition kCountsPerGram :: f32 where [limit_defs]: "kCountsPerGram = 10"

definition core_send ::
  "'u uart_ops \<Rightarrow> frame_type \<Rightarrow> u8 \<Rightarrow> msg_id \<Rightarrow> u8 list option \<Rightarrow> u16 \<Rightarrow>
   ('h, 'u, 'z) mcu_core_scheme \<Rightarrow> ('h, 'u, 'z) mcu_core_scheme" where
  "core_send io ft seq msg payload len c =
     (case link_send io ft seq msg payload len (c_link c) (c_uart c) of
        (_, lk, u) \<Rightarrow> c\<lparr>c_link := lk, c_uart := u\<rparr>)"

definition respond ::
  "'u uart_ops \<Rightarrow> frame \<Rightarrow> u8 list option \<Rightarrow> u16 \<Rightarrow> ('h, 'u, 'z) mcu_core_scheme \<Rightarrow> ('h, 'u, 'z) mcu_core_scheme" where
  "respond io req payload len c = core_send io FtResponse (f_seq req) (f_msg req) payload len c"

definition nack ::
  "'u uart_ops \<Rightarrow> frame \<Rightarrow> ('h, 'u, 'z) mcu_core_scheme \<Rightarrow> ('h, 'u, 'z) mcu_core_scheme" where
  "nack io req c = core_send io FtNack (f_seq req) (f_msg req) None 0 c"

text \<open>Tare-adjusted weight; the counts are subtracted with wrap-around and the quotient truncated.\<close>

definition current_grams ::
  "'h hardware \<Rightarrow> ('h, 'u, 'z) mcu_core_scheme \<Rightarrow> grams \<times> ('h, 'u, 'z) mcu_core_scheme" where
  "current_grams hw c =
     (case read_raw hw (c_hw c) of
        (raw, h) \<Rightarrow>
          (if \<not> is_ok raw then 0
           else word_of_int (trunc (fdiv (float_of (sint (r_value raw - c_tare c))) kCountsPerGram)),
           c\<lparr>c_hw := h\<rparr>))"

section \<open>Handlers\<close>

type_synonym ('h, 'u, 'z) handler =
  "frame \<Rightarrow> inputs \<Rightarrow> ('h, 'u, 'z) mcu_core_scheme \<Rightarrow> ('h, 'u, 'z) mcu_core_scheme"

definition handle_ping :: "'u uart_ops \<Rightarrow> ('h, 'u, 'z) handler" where
  "handle_ping io req inp c =
     (if f_len req \<noteq> 0 then nack io req c else respond io req None 0 c)"

definition handle_get_version :: "'u uart_ops \<Rightarrow> ('h, 'u, 'z) handler" where
  "handle_get_version io req inp c =
     (if f_len req \<noteq> 0 then nack io req c else respond io req (Some [0, 9, 0]) 3 c)"

definition handle_motor_set_target :: "'u uart_ops \<Rightarrow> ('h, 'u, 'z) handler" where
  "handle_motor_set_target io req inp c =
     (if f_len req \<noteq> 3 then nack io req c
      else let requested = get_u16 (f_payload req);
               bounded = (if requested > kMaxRpm then kMaxRpm else requested);
               ramp = f_payload req ! 2
           in if ramp > kRampBurst then nack io req c
              else if ramp = kRampBurst
              then (if \<not> in_lid_locked inp \<or> in_temp_c inp > kSpillGuardTempC then nack io req c
                    else respond io req (Some (put_u16 bounded)) 2
                           (c\<lparr>c_motor := motor_burst bounded (c_motor c)\<rparr>))
              else let allowed = clamp_speed_request bounded inp
                   in respond io req (Some (put_u16 allowed)) 2
                        (c\<lparr>c_motor := motor_set_target allowed ramp (c_motor c)\<rparr>))"

definition handle_motor_stop :: "'h hardware \<Rightarrow> 'u uart_ops \<Rightarrow> ('h, 'u, 'z) handler" where
  "handle_motor_stop hw io req inp c =
     (if f_len req \<noteq> 0 then nack io req c
      else case motor_stop hw (c_motor c) (c_hw c) of
             (mc, h) \<Rightarrow> respond io req None 0 (c\<lparr>c_motor := mc, c_hw := h\<rparr>))"

definition handle_heater_set_target :: "'u uart_ops \<Rightarrow> ('h, 'u, 'z) handler" where
  "handle_heater_set_target io req inp c =
     (if f_len req \<noteq> 2 then nack io req c
      else let target = get_i16 (f_payload req)
           in if sint target < sint kHeaterMinTargetDeci \<or> sint target > sint kHeaterMaxTargetDeci
              then nack io req c
              else respond io req None 0 (c\<lparr>c_pid := pid_set_target target (c_pid c)\<rparr>))"

definition handle_heater_off :: "'u uart_ops \<Rightarrow> ('h, 'u, 'z) handler" where
  "handle_heater_off io req inp c =
     (if f_len req \<noteq> 0 then nack io req c
      else respond io req None 0 (c\<lparr>c_pid := pid_disable (c_pid c)\<rparr>))"

definition handle_scale_tare :: "'h hardware \<Rightarrow> 'u uart_ops \<Rightarrow> ('h, 'u, 'z) handler" where
  "handle_scale_tare hw io req inp c =
     (if f_len req \<noteq> 0 \<or> in_rpm inp > kTareMaxRpm then nack io req c
      else case read_raw hw (c_hw c) of
             (raw, h) \<Rightarrow>
               if \<not> is_ok raw then nack io req (c\<lparr>c_hw := h\<rparr>)
               else respond io req None 0 (c\<lparr>c_hw := h, c_tare := r_value raw\<rparr>))"

definition handle_scale_read :: "'h hardware \<Rightarrow> 'u uart_ops \<Rightarrow> ('h, 'u, 'z) handler" where
  "handle_scale_read hw io req inp c =
     (if f_len req \<noteq> 0 then nack io req c
      else case current_grams hw c of (g, c') \<Rightarrow> respond io req (Some (put_i32 g)) 4 c')"

definition handle_lid_lock :: "'h hardware \<Rightarrow> 'u uart_ops \<Rightarrow> ('h, 'u, 'z) handler" where
  "handle_lid_lock hw io req inp c =
     (if f_len req \<noteq> 0 then nack io req c
      else let c' = c\<lparr>c_hw := lid_set_lock hw True (c_hw c)\<rparr>;
               locked = (if lid_is_locked hw (c_hw c') then 1 else 0)
           in respond io req (Some [locked]) 1 c')"

definition handle_lid_unlock :: "'h hardware \<Rightarrow> 'u uart_ops \<Rightarrow> ('h, 'u, 'z) handler" where
  "handle_lid_unlock hw io req inp c =
     (if f_len req \<noteq> 0 \<or> in_rpm inp \<ge> kUnlockMaxRpm then nack io req c
      else respond io req None 0 (c\<lparr>c_hw := lid_set_lock hw False (c_hw c)\<rparr>))"

section \<open>Dispatch\<close>

definition kHandlers :: "'h hardware \<Rightarrow> 'u uart_ops \<Rightarrow> (msg_id \<times> ('h, 'u, 'z) handler) list" where
  "kHandlers hw io =
     [(Ping, handle_ping io),
      (GetVersion, handle_get_version io),
      (MotorSetTarget, handle_motor_set_target io),
      (MotorStop, handle_motor_stop hw io),
      (HeaterSetTarget, handle_heater_set_target io),
      (HeaterOff, handle_heater_off io),
      (ScaleTare, handle_scale_tare hw io),
      (ScaleRead, handle_scale_read hw io),
      (LidLock, handle_lid_lock hw io),
      (LidUnlock, handle_lid_unlock hw io)]"

definition handle ::
  "'h hardware \<Rightarrow> 'u uart_ops \<Rightarrow> frame \<Rightarrow> inputs \<Rightarrow> bool \<Rightarrow>
   ('h, 'u, 'z) mcu_core_scheme \<Rightarrow> ('h, 'u, 'z) mcu_core_scheme" where
  "handle hw io req inp faulted c =
     (if f_type req \<noteq> FtRequest then c
      else if faulted \<and> f_msg req \<noteq> MotorStop \<and> f_msg req \<noteq> HeaterOff \<and> f_msg req \<noteq> Ping \<and>
              f_msg req \<noteq> GetVersion
      then nack io req c
      else case find (\<lambda>e. fst e = f_msg req) (kHandlers hw io) of
             Some e \<Rightarrow> snd e req inp c
           | None \<Rightarrow> nack io req c)"

section \<open>Replies\<close>

lemmas handler_defs = handle_ping_def handle_get_version_def handle_motor_set_target_def handle_motor_stop_def
  handle_heater_set_target_def handle_heater_off_def handle_scale_tare_def handle_scale_read_def
  handle_lid_lock_def handle_lid_unlock_def

lemma core_send_simps [simp]:
  "c_hw (core_send io ft seq msg p n c) = c_hw c"
  "c_motor (core_send io ft seq msg p n c) = c_motor c"
  "c_pid (core_send io ft seq msg p n c) = c_pid c"
  "c_tare (core_send io ft seq msg p n c) = c_tare c"
  "mcu_core.more (core_send io ft seq msg p n c) = mcu_core.more c"
  by (simp_all add: core_send_def split: prod.splits)

lemma reply_simps [simp]:
  "c_hw (respond io req p n c) = c_hw c" "c_hw (nack io req c) = c_hw c"
  "c_motor (respond io req p n c) = c_motor c" "c_motor (nack io req c) = c_motor c"
  "c_pid (respond io req p n c) = c_pid c" "c_pid (nack io req c) = c_pid c"
  "c_tare (respond io req p n c) = c_tare c" "c_tare (nack io req c) = c_tare c"
  "mcu_core.more (respond io req p n c) = mcu_core.more c" "mcu_core.more (nack io req c) = mcu_core.more c"
  by (simp_all add: respond_def nack_def)

lemma current_grams_simps [simp]:
  "c_link (snd (current_grams hw c)) = c_link c" "c_uart (snd (current_grams hw c)) = c_uart c"
  "c_motor (snd (current_grams hw c)) = c_motor c" "c_pid (snd (current_grams hw c)) = c_pid c"
  "c_tare (snd (current_grams hw c)) = c_tare c" "c_hw (snd (current_grams hw c)) = snd (read_raw hw (c_hw c))"
  "mcu_core.more (snd (current_grams hw c)) = mcu_core.more c"
  by (simp_all add: current_grams_def split: prod.splits)

lemma handle_cases:
  fixes c :: "('h, 'u, 'z) mcu_core_scheme"
  obtains (other) "f_type req \<noteq> FtRequest" "handle hw io req inp faulted c = c"
  | (gated) "f_type req = FtRequest" "faulted" "handle hw io req inp faulted c = nack io req c"
      "f_msg req \<notin> {MotorStop, HeaterOff, Ping, GetVersion}"
  | (ping) "f_type req = FtRequest" "f_msg req = Ping" "handle hw io req inp faulted c = handle_ping io req inp c"
  | (version) "f_type req = FtRequest" "f_msg req = GetVersion" "handle hw io req inp faulted c = handle_get_version io req inp c"
  | (set_target) "f_type req = FtRequest" "f_msg req = MotorSetTarget" "\<not> faulted"
      "handle hw io req inp faulted c = handle_motor_set_target io req inp c"
  | (stop) "f_type req = FtRequest" "f_msg req = MotorStop" "handle hw io req inp faulted c = handle_motor_stop hw io req inp c"
  | (heater) "f_type req = FtRequest" "f_msg req = HeaterSetTarget" "\<not> faulted"
      "handle hw io req inp faulted c = handle_heater_set_target io req inp c"
  | (heater_off) "f_type req = FtRequest" "f_msg req = HeaterOff" "handle hw io req inp faulted c = handle_heater_off io req inp c"
  | (tare) "f_type req = FtRequest" "f_msg req = ScaleTare" "\<not> faulted" "handle hw io req inp faulted c = handle_scale_tare hw io req inp c"
  | (weigh) "f_type req = FtRequest" "f_msg req = ScaleRead" "\<not> faulted" "handle hw io req inp faulted c = handle_scale_read hw io req inp c"
  | (lock) "f_type req = FtRequest" "f_msg req = LidLock" "\<not> faulted" "handle hw io req inp faulted c = handle_lid_lock hw io req inp c"
  | (unlock) "f_type req = FtRequest" "f_msg req = LidUnlock" "\<not> faulted" "handle hw io req inp faulted c = handle_lid_unlock hw io req inp c"
  | (unknown) "f_type req = FtRequest" "\<not> faulted" "handle hw io req inp faulted c = nack io req c"
      "f_msg req \<notin> fst ` set (kHandlers hw io :: (msg_id \<times> ('h, 'u, 'z) handler) list)"
proof (cases "f_type req = FtRequest")
  case t: True
  show ?thesis
  proof (cases "faulted \<and> f_msg req \<notin> {MotorStop, HeaterOff, Ping, GetVersion}")
    case True
    then have "handle hw io req inp faulted c = nack io req c" using t by (auto simp: handle_def)
    then show ?thesis using t True gated by blast
  next
    case False
    then have d: "handle hw io req inp faulted c = (case find (\<lambda>e. fst e = f_msg req) (kHandlers hw io) of
        Some e \<Rightarrow> snd e req inp c | None \<Rightarrow> nack io req c)" using t by (auto simp: handle_def)
    note d = d[unfolded kHandlers_def]
    show ?thesis
    proof (cases "f_msg req")
      case Ping then show ?thesis using ping t d by simp
    next
      case GetVersion then show ?thesis using version t d by simp
    next
      case MotorSetTarget then show ?thesis using set_target t False d by simp
    next
      case MotorStop then show ?thesis using stop t d by simp
    next
      case HeaterSetTarget then show ?thesis using heater t False d by simp
    next
      case HeaterOff then show ?thesis using heater_off t d by simp
    next
      case ScaleTare then show ?thesis using tare t False d by simp
    next
      case ScaleRead then show ?thesis using weigh t False d by simp
    next
      case LidLock then show ?thesis using lock t False d by simp
    next
      case LidUnlock then show ?thesis using unlock t False d by simp
    qed (use unknown t False d in \<open>simp_all add: kHandlers_def\<close>)
  qed
qed (use other in \<open>simp add: handle_def\<close>)

text \<open>
  \<open>answers io req c c'\<close>: \<open>c'\<close> is \<open>c\<close> after some effects that do not concern the link, followed by
  exactly one response or negative acknowledgement for \<open>req\<close>.
\<close>

definition answers ::
  "'u uart_ops \<Rightarrow> frame \<Rightarrow> ('h, 'u, 'z) mcu_core_scheme \<Rightarrow> ('h, 'u, 'z) mcu_core_scheme \<Rightarrow> bool" where
  "answers io req c c' \<longleftrightarrow>
     (\<exists>ft payload len st. (ft = FtResponse \<or> ft = FtNack) \<and> unat len \<le> 4 \<and> (payload = None \<longrightarrow> len = 0) \<and>
        link_send io ft (f_seq req) (f_msg req) payload len (c_link c) (c_uart c) = (st, c_link c', c_uart c'))"

lemma answers_nack: "c_link c1 = c_link c \<Longrightarrow> c_uart c1 = c_uart c \<Longrightarrow> answers io req c (nack io req c1)"
  unfolding answers_def nack_def core_send_def
  by (intro exI[of _ FtNack] exI[of _ None] exI[of _ 0]
      exI[of _ "fst (link_send io FtNack (f_seq req) (f_msg req) None 0 (c_link c) (c_uart c))"])
     (simp split: prod.splits)

lemma answers_respond:
  "c_link c1 = c_link c \<Longrightarrow> c_uart c1 = c_uart c \<Longrightarrow> unat len \<le> 4 \<Longrightarrow> (payload = None \<longrightarrow> len = 0) \<Longrightarrow>
   answers io req c (respond io req payload len c1)"
  unfolding answers_def respond_def core_send_def
  by (intro exI[of _ FtResponse] exI[of _ payload] exI[of _ len]
      exI[of _ "fst (link_send io FtResponse (f_seq req) (f_msg req) payload len (c_link c) (c_uart c))"])
     (simp split: prod.splits)

lemma handlers_answer:
  "answers io req c (handle_ping io req inp c)"
  "answers io req c (handle_get_version io req inp c)"
  "answers io req c (handle_motor_set_target io req inp c)"
  "answers io req c (handle_motor_stop hw io req inp c)"
  "answers io req c (handle_heater_set_target io req inp c)"
  "answers io req c (handle_heater_off io req inp c)"
  "answers io req c (handle_scale_tare hw io req inp c)"
  "answers io req c (handle_scale_read hw io req inp c)"
  "answers io req c (handle_lid_lock hw io req inp c)"
  "answers io req c (handle_lid_unlock hw io req inp c)"
  by (simp_all add: handler_defs Let_def case_prod_beta answers_nack answers_respond)

lemma handle_answers: "f_type req = FtRequest \<Longrightarrow> answers io req c (handle hw io req inp faulted c)"
  by (rule handle_cases[of req hw io inp faulted c]) (simp_all add: handlers_answer answers_nack)

section \<open>Invariant\<close>

definition heater_target_ok :: "heater_pid \<Rightarrow> bool" where
  "heater_target_ok p \<longleftrightarrow> (pid_enabled p \<longrightarrow> 370 \<le> sint (pid_target p) \<and> sint (pid_target p) \<le> 1600)"

lemma handle_motor_inv:
  "motor_ctrl_inv (c_motor c) \<Longrightarrow> motor_ctrl_inv (c_motor (handle hw io req inp faulted c))"
  by (rule handle_cases[of req hw io inp faulted c])
     (simp_all add: handler_defs Let_def case_prod_beta motor_burst_inv motor_set_target_inv motor_stop_inv)

lemma handle_pid_ok:
  "heater_target_ok (c_pid c) \<Longrightarrow> heater_target_ok (c_pid (handle hw io req inp faulted c))"
  by (rule handle_cases[of req hw io inp faulted c])
     (auto simp: handler_defs Let_def case_prod_beta heater_target_ok_def limit_defs)

lemma handle_more [simp]: "mcu_core.more (handle hw io req inp faulted c) = mcu_core.more c"
  by (rule handle_cases[of req hw io inp faulted c]) (simp_all add: handler_defs Let_def case_prod_beta)

text \<open>While a fault is active the outputs can only be switched off.\<close>

lemma handle_faulted:
  assumes "\<not> motor_active (c_motor c)" "motor_ctrl_inv (c_motor c)" "\<not> pid_enabled (c_pid c)"
  shows "\<not> motor_active (c_motor (handle hw io req inp True c))" "\<not> pid_enabled (c_pid (handle hw io req inp True c))"
  using assms
  by (rule_tac [!] handle_cases[of req hw io inp True c])
     (simp_all add: handler_defs Let_def case_prod_beta motor_active_def)

section \<open>Properties\<close>

context uart
begin

lemma answers_stream:
  assumes "answers io req c c'" "link_inv (c_link c)" "uart_inv (c_uart c)"
  shows "link_inv (c_link c') \<and> uart_inv (c_uart c') \<and> rx_q (c_uart c') = rx_q (c_uart c) \<and>
    l_parser (c_link c') = l_parser (c_link c) \<and>
    ((\<exists>ft data. (ft = FtResponse \<or> ft = FtNack) \<and> tx_q (c_uart c') @ tx_pending (c_link c') =
        tx_q (c_uart c) @ tx_pending (c_link c) @ write_frame kMaxFrameSize ft (f_seq req) (f_msg req) data) \<or>
     c_uart c' = c_uart c \<and> tx_pending (c_link c') = tx_pending (c_link c) \<and> length (tx_pending (c_link c)) > 1026)"
proof -
  obtain ft payload len st where a: "ft = FtResponse \<or> ft = FtNack" "unat len \<le> 4" "payload = None \<longrightarrow> len = 0"
    "link_send io ft (f_seq req) (f_msg req) payload len (c_link c) (c_uart c) = (st, c_link c', c_uart c')"
    using assms(1) by (auto simp: answers_def)
  have "length (tx_pending (c_link c)) > 1026" if "st \<noteq> Ok"
  proof (rule ccontr)
    assume "\<not> length (tx_pending (c_link c)) > 1026"
    then have "length (tx_pending (c_link c)) + kHeaderSize + unat len + kCrcSize \<le> kTxCapacity"
      using a(2) by (simp add: limit_defs)
    moreover have "unat len \<le> kMaxPayload" "\<not> (len > 0 \<and> payload = None)" using a(2,3) by (auto simp: limit_defs)
    ultimately obtain lk2 where "link_send io ft (f_seq req) (f_msg req) payload len (c_link c) (c_uart c) =
        (case flush_tx io lk2 (c_uart c) of (lk3, u') \<Rightarrow> (Ok, lk3, u'))"
      using link_send_Ok[OF assms(2), where io = io and u = "c_uart c"] by blast
    then have "st = Ok" using a(4) by (auto split: prod.splits)
    then show False using that by simp
  qed
  then show ?thesis
    using link_send_spec[OF assms(2,3), of ft "f_seq req" "f_msg req" payload len] a(1,4) by (cases "st = Ok") auto
qed

lemma handle_keeps_link:
  assumes "link_inv (c_link c)" "uart_inv (c_uart c)"
  shows "link_inv (c_link (handle hw io req inp faulted c)) \<and> uart_inv (c_uart (handle hw io req inp faulted c)) \<and>
    rx_q (c_uart (handle hw io req inp faulted c)) = rx_q (c_uart c)"
proof (cases "f_type req = FtRequest")
  case True
  then show ?thesis using answers_stream[OF handle_answers assms] by blast
next
  case False
  then show ?thesis using assms by (simp add: handle_def)
qed

end


text \<open>A resting machine whose only state is the raw scale reading, for concrete evaluations.\<close>

definition still_hw :: "i32 hardware" where
  "still_hw = \<lparr>motor_set_duty = (\<lambda>_ h. h), motor_set_reverse = (\<lambda>_ h. h), motor_rpm = (\<lambda>_. 0),
     motor_current_ma = (\<lambda>_. 0), motor_stalled = (\<lambda>_. False), heater_set_power_w = (\<lambda>_ h. h),
     heater_power_w = (\<lambda>_. 0), read_deci_celsius = (\<lambda>h. (result_ok 200, h)),
     read_raw = (\<lambda>h. (result_ok h, h)), lid_is_closed = (\<lambda>_. True), lid_is_locked = (\<lambda>_. True),
     lid_set_lock = (\<lambda>_ h. h)\<rparr>"

definition core_init :: "'h \<Rightarrow> 'u \<Rightarrow> ('h, 'u) mcu_core" where
  "core_init h u = \<lparr>c_hw = h, c_uart = u, c_link = link_init, c_motor = motor_ctrl_init, c_pid = pid_init, c_tare = 0\<rparr>"


text \<open>
  C9: SR-008 and the fault gate. An unlock request at a measured speed of 100 RPM or more, or any
  request other than stop, heater-off, ping and version while a fault is active, is answered with a
  negative acknowledgement and changes neither the lid nor any other hardware, motor, heater or tare
  state.
\<close>

theorem guarded_requests_rejected:
  assumes "f_type req = FtRequest"
    "f_msg req = LidUnlock \<and> 100 \<le> unat (in_rpm inp) \<or>
     faulted \<and> f_msg req \<notin> {MotorStop, HeaterOff, Ping, GetVersion}"
  shows "handle hw io req inp faulted c = nack io req c \<and>
    c_hw (handle hw io req inp faulted c) = c_hw c \<and> c_motor (handle hw io req inp faulted c) = c_motor c \<and>
    c_pid (handle hw io req inp faulted c) = c_pid c \<and> c_tare (handle hw io req inp faulted c) = c_tare c"
proof -
  have "kUnlockMaxRpm \<le> in_rpm inp" if "100 \<le> unat (in_rpm inp)"
    using that by (simp add: limit_defs word_le_nat_alt)
  then have "handle hw io req inp faulted c = nack io req c"
    using assms by (cases rule: handle_cases[of req hw io inp faulted c]) (auto simp: handle_lid_unlock_def)
  then show ?thesis by simp
qed

theorem guarded_requests_rejected_witness:
  "let req = frame_init\<lparr>f_msg := LidUnlock\<rparr>; inp = inputs_init\<lparr>in_rpm := 100\<rparr>
   in f_type req = FtRequest \<and> f_msg req = LidUnlock \<and> 100 \<le> unat (in_rpm inp) \<and>
      handle still_hw mcu_side req inp False (core_init 0 transport_init) = nack mcu_side req (core_init 0 transport_init)"
proof -
  let ?req = "frame_init\<lparr>f_msg := LidUnlock\<rparr>" and ?inp = "inputs_init\<lparr>in_rpm := 100\<rparr>"
  have h: "f_type ?req = FtRequest" "f_msg ?req = LidUnlock" "100 \<le> unat (in_rpm ?inp)"
    by (simp_all add: frame_init_def)
  show ?thesis
    unfolding Let_def using h guarded_requests_rejected[of ?req ?inp False still_hw mcu_side "core_init 0 transport_init"]
    by blast
qed

text \<open>
  What a speed command does, on every branch, in terms of the guard conditions. A malformed one
  changes nothing; a burst takes effect at once but only with a locked lid and a bowl of at most 60
  degrees; any other profile grants the largest permitted speed not above the request.
\<close>

theorem motor_set_target_effect:
  fixes c :: "('h, 'u, 'z) mcu_core_scheme"
  assumes "f_type req = FtRequest" "f_msg req = MotorSetTarget"
    "c' = handle hw io req inp False c" "bounded = min (get_u16 (f_payload req)) kMaxRpm"
  shows "(f_len req \<noteq> 3 \<or> f_payload req ! 2 > kRampBurst \<longrightarrow> c' = nack io req c) \<and>
    (f_len req = 3 \<and> f_payload req ! 2 = kRampBurst \<longrightarrow>
       (if in_lid_locked inp \<and> in_temp_c inp \<le> 60
        then mc_target (c_motor c') = bounded \<and> mc_commanded (c_motor c') = rpm_f bounded
        else c' = nack io req c)) \<and>
    (f_len req = 3 \<and> f_payload req ! 2 < kRampBurst \<longrightarrow>
       mc_target (c_motor c') = min bounded (continuous_cap inp) \<and>
       mc_commanded (c_motor c') = mc_commanded (c_motor c))"
proof -
  define ramp where "ramp = f_payload req ! 2"
  have h: "c' = handle_motor_set_target io req inp c"
    unfolding assms(3) using assms(1,2) by (cases rule: handle_cases[of req hw io inp False c]) (simp_all add: kHandlers_def)
  have b: "(if get_u16 (f_payload req) > kMaxRpm then kMaxRpm else get_u16 (f_payload req)) = bounded" "bounded \<le> kMaxRpm"
    by (auto simp: assms(4) min_def)
  have cl: "clamp_speed_request bounded inp = min bounded (continuous_cap inp)" using b(2) by (rule clamp_min)
  have cap: "min bounded (continuous_cap inp) \<le> kMaxRpm" using b(2) by (simp add: min_le_iff_disj)
  have "ramp > kRampBurst \<or> ramp = kRampBurst \<or> ramp < kRampBurst" by auto
  then show ?thesis
    unfolding h handle_motor_set_target_def Let_def b(1) cl using b(2) cap
    by (elim disjE) (auto simp flip: ramp_def simp: motor_burst_def motor_set_target_def not_less Let_def limit_defs)
qed

theorem motor_set_target_effect_witness:
  "let req = frame_init\<lparr>f_msg := MotorSetTarget, f_len := 3, f_payload := [0x10, 0x27, 1] @ replicate 247 0\<rparr>
   in mc_target (c_motor (handle still_hw mcu_side req inputs_init False (core_init 0 transport_init))) = 6400"
proof -
  let ?req = "frame_init\<lparr>f_msg := MotorSetTarget, f_len := 3, f_payload := [0x10, 0x27, 1] @ replicate 247 0\<rparr>"
  have h: "f_type ?req = FtRequest" "f_msg ?req = MotorSetTarget" "f_len ?req = 3" "f_payload ?req ! 2 < kRampBurst"
    by (simp_all add: frame_init_def limit_defs)
  have "get_u16 (f_payload ?req) = 10000" by (simp add: get_u16_def)
  then have "min (min (get_u16 (f_payload ?req)) kMaxRpm) (continuous_cap inputs_init) = 6400"
    by (simp add: limit_defs min_def continuous_cap_def inputs_init_def)
  then show ?thesis
    unfolding Let_def using motor_set_target_effect[OF h(1,2) refl refl,
        of still_hw mcu_side inputs_init "core_init 0 transport_init"] h(3,4) by metis
qed

text \<open>
  Taring makes the scale read net weight. After an accepted tare, a later raw reading that is
  ten counts per gram above the tared one is reported as exactly that many grams, for every load
  the \<open>float\<close> arithmetic represents exactly (up to 1,677,721 g).
\<close>

theorem tare_then_weigh:
  assumes "f_type req = FtRequest" "f_msg req = ScaleTare" "f_len req = 0" "in_rpm inp \<le> kTareMaxRpm"
    "read_raw hw (c_hw c) = (result_ok r0, h)"
    "c' = handle hw io req inp False c" "read_raw hw h' = (result_ok (r0 + word_of_int (10 * g)), h'')"
    "\<bar>g\<bar> \<le> 1677721"
  shows "fst (current_grams hw (c'\<lparr>c_hw := h'\<rparr>)) = word_of_int g"
proof -
  have "c' = handle_scale_tare hw io req inp c"
    unfolding assms(6) using assms(1,2)
    by (cases rule: handle_cases[of req hw io inp False c]) (simp_all add: kHandlers_def)
  then have t: "c_tare c' = r0" using assms(3-5) by (auto simp: handle_scale_tare_def)
  have s: "sint (word_of_int (10 * g) :: i32) = 10 * g"
    using assms(8) by (subst sint_sbintrunc') (simp add: signed_take_bit_int_eq_self_iff, linarith)
  have f: "fdiv (float_of (10 * g)) kCountsPerGram = of_int g"
  proof -
    have "float_of (10 * g) = of_int (10 * g)" using assms(8) by (intro float_of_small) simp
    then show ?thesis using b32.rd_exact[of g] assms(8) by (simp add: f32_ops limit_defs)
  qed
  show ?thesis
    unfolding current_grams_def
    by (simp add: assms(7) t s f del: of_int_mult of_int_sint)
qed

theorem tare_then_weigh_witness:
  "fst (current_grams still_hw ((handle still_hw mcu_side (frame_init\<lparr>f_msg := ScaleTare\<rparr>) inputs_init False
     (core_init 5000 transport_init))\<lparr>c_hw := 8000\<rparr>)) = 300"
proof -
  let ?req = "frame_init\<lparr>f_msg := ScaleTare\<rparr>" and ?c = "core_init 5000 transport_init"
  have h: "f_type ?req = FtRequest" "f_msg ?req = ScaleTare" "f_len ?req = 0" "in_rpm inputs_init \<le> kTareMaxRpm"
    by (simp_all add: frame_init_def inputs_init_def limit_defs)
  have r: "read_raw still_hw (c_hw ?c) = (result_ok 5000, 5000)"
    "read_raw still_hw 8000 = (result_ok (5000 + word_of_int (10 * 300)), 8000)"
    by (simp_all add: still_hw_def core_init_def)
  show ?thesis using tare_then_weigh[OF h r(1) refl r(2), of mcu_side] by simp
qed

end
