(* ===== verification/Safety_Mcu.thy ===== *)
theory Safety_Mcu
  imports Command_Handler
begin

text \<open>
  \<open>src/mcu/safety_mcu.h\<close> and \<open>safety_mcu.cpp\<close>: the 1 ms control tick of the safety MCU. The tick is
  the composition of its phases in the order of the code: sampling, the request loop, fault
  supervision, the actuator update and telemetry. The request loop polls the link until it is dry,
  so the tick is a partial function that is shown to return over every UART that runs dry.
\<close>

section \<open>State\<close>

record ('h, 'u) safety_mcu = "('h, 'u) mcu_core" +
  m_telemetry :: telemetry_publisher
  m_inputs :: inputs
  m_fault :: fault_code
  m_tick_count :: u32
  m_last_valid_frame_ms :: millis
  m_temp_sensor_ok :: bool

definition mcu_init :: "millis \<Rightarrow> 'h \<Rightarrow> 'u \<Rightarrow> ('h, 'u) safety_mcu" where
  "mcu_init now h u = \<lparr>c_hw = h, c_uart = u, c_link = link_init, c_motor = motor_ctrl_init,
     c_pid = pid_init, c_tare = 0, m_telemetry = telemetry_init, m_inputs = inputs_init,
     m_fault = FaultNone, m_tick_count = 0, m_last_valid_frame_ms = now, m_temp_sensor_ok = True\<rparr>"

section \<open>The tick\<close>

definition sample_inputs :: "'h hardware \<Rightarrow> ('h, 'u) safety_mcu \<Rightarrow> bool \<times> ('h, 'u) safety_mcu" where
  "sample_inputs hw m =
     (case read_deci_celsius hw (c_hw m) of
        (reading, h) \<Rightarrow>
          let m1 = m\<lparr>c_hw := h, m_temp_sensor_ok := is_ok reading\<rparr>
          in if \<not> is_ok reading then (False, m1)
             else (True, m1\<lparr>m_inputs := \<lparr>in_temp_c = to_celsius (r_value reading), in_rpm = motor_rpm hw h,
                      in_lid_closed = lid_is_closed hw h, in_lid_locked = lid_is_locked hw h,
                      in_motor_stalled = motor_stalled hw h\<rparr>\<rparr>))"

definition enter_fault :: "'h hardware \<Rightarrow> fault_code \<Rightarrow> ('h, 'u) safety_mcu \<Rightarrow> ('h, 'u) safety_mcu" where
  "enter_fault hw code m =
     (case motor_stop hw (c_motor m) (c_hw m) of
        (mc, h) \<Rightarrow> m\<lparr>m_fault := code, c_motor := mc, c_pid := pid_disable (c_pid m),
                     c_hw := heater_set_power_w hw 0 h,
                     m_telemetry := publish_fault code (m_telemetry m)\<rparr>)"

definition can_clear_fault :: "('h, 'u) safety_mcu \<Rightarrow> bool" where
  "can_clear_fault m =
     (case m_fault m of
        FaultNone \<Rightarrow> True
      | LinkLost \<Rightarrow> True
      | MotorStall \<Rightarrow> True
      | SensorFailure \<Rightarrow> m_temp_sensor_ok m
      | Overtemp \<Rightarrow> in_temp_c (m_inputs m) < kOvertempCutoffC
      | FaultOther _ \<Rightarrow> False)"

text \<open>One iteration of the request loop.\<close>

definition handle_frame ::
  "'h hardware \<Rightarrow> 'u uart_ops \<Rightarrow> millis \<Rightarrow> frame \<Rightarrow> ('h, 'u) safety_mcu \<Rightarrow> ('h, 'u) safety_mcu" where
  "handle_frame hw io now f m =
     (let m1 = (if f_type f = FtRequest then m\<lparr>m_last_valid_frame_ms := now\<rparr> else m);
          m2 = handle hw io f (m_inputs m1) (m_fault m1 \<noteq> FaultNone) m1
      in if f_type f = FtRequest \<and> f_msg f = MotorStop \<and> f_len f = 0 \<and> can_clear_fault m2
         then m2\<lparr>m_fault := FaultNone\<rparr> else m2)"

partial_function (option) process_frames ::
  "'h hardware \<Rightarrow> 'u uart_ops \<Rightarrow> millis \<Rightarrow> ('h, 'u) safety_mcu \<Rightarrow> ('h, 'u) safety_mcu option" where
  "process_frames hw io now m =
     Option.bind (link_poll io now (c_link m) (c_uart m))
       (\<lambda>(out, lk, u). case out of
            None \<Rightarrow> Some (m\<lparr>c_link := lk, c_uart := u\<rparr>)
          | Some f \<Rightarrow> process_frames hw io now (handle_frame hw io now f (m\<lparr>c_link := lk, c_uart := u\<rparr>)))"

declare process_frames.simps [code]

text \<open>Fault evaluation and link supervision.\<close>

definition supervise :: "'h hardware \<Rightarrow> millis \<Rightarrow> ('h, 'u) safety_mcu \<Rightarrow> ('h, 'u) safety_mcu" where
  "supervise hw now m =
     (let m1 = (if m_fault m = FaultNone
                then let tripped = evaluate (m_inputs m)
                     in if tripped \<noteq> FaultNone then enter_fault hw tripped m else m
                else m)
      in if m_fault m1 = FaultNone \<and> (motor_active (c_motor m1) \<or> pid_enabled (c_pid m1)) \<and>
            now - m_last_valid_frame_ms m1 \<ge> kLinkTimeoutMs
         then enter_fault hw LinkLost m1 else m1)"

text \<open>The speed cap, the heater and the motor; the heater power is also returned for telemetry.\<close>

definition actuate :: "'h hardware \<Rightarrow> ('h, 'u) safety_mcu \<Rightarrow> f32 \<times> ('h, 'u) safety_mcu" where
  "actuate hw m =
     (let m1 = m\<lparr>c_motor := enforce_cap (continuous_cap (m_inputs m)) (c_motor m)\<rparr>;
          (watts, pid) = (if m_fault m1 = FaultNone \<and> pid_enabled (c_pid m1) \<and> in_lid_closed (m_inputs m1)
                          then pid_update (in_temp_c (m_inputs m1)) (rnd (1 / 1000)) (c_pid m1)
                          else (0, c_pid m1));
          m2 = m1\<lparr>c_pid := pid, c_hw := heater_set_power_w hw watts (c_hw m1)\<rparr>;
          (mc, h) = motor_tick_1ms hw (c_motor m2) (c_hw m2)
      in (watts, m2\<lparr>c_motor := mc, c_hw := h\<rparr>))"

definition telemetry_flags :: "inputs \<Rightarrow> f32 \<Rightarrow> u8" where
  "telemetry_flags inp watts =
     ((if in_lid_closed inp then kFlagLidClosed else 0) OR (if in_lid_locked inp then kFlagLidLocked else 0) OR
      (if watts > 0 then kFlagHeaterOn else 0) OR (if in_motor_stalled inp then kFlagMotorStalled else 0))"

definition report ::
  "'h hardware \<Rightarrow> 'u uart_ops \<Rightarrow> millis \<Rightarrow> f32 \<Rightarrow> ('h, 'u) safety_mcu \<Rightarrow> ('h, 'u) safety_mcu" where
  "report hw io now watts m =
     (let (g, m1) = current_grams hw m;
          data = \<lparr>td_tick = m_tick_count m1, td_deci_celsius = from_celsius (in_temp_c (m_inputs m1)),
                  td_rpm = in_rpm (m_inputs m1), td_grams = g,
                  td_flags = telemetry_flags (m_inputs m1) watts\<rparr>;
          (tp, lk, u) = maybe_publish io now data (m_telemetry m1) (c_link m1) (c_uart m1)
      in m1\<lparr>m_telemetry := tp, c_link := lk, c_uart := u\<rparr>)"

definition mcu_sample :: "'h hardware \<Rightarrow> ('h, 'u) safety_mcu \<Rightarrow> ('h, 'u) safety_mcu" where
  "mcu_sample hw m =
     (case sample_inputs hw (m\<lparr>m_tick_count := m_tick_count m + 1\<rparr>) of
        (sampled, m1) \<Rightarrow> if \<not> sampled \<and> m_fault m1 \<noteq> SensorFailure then enter_fault hw SensorFailure m1 else m1)"

definition mcu_finish :: "'h hardware \<Rightarrow> 'u uart_ops \<Rightarrow> millis \<Rightarrow> ('h, 'u) safety_mcu \<Rightarrow> ('h, 'u) safety_mcu" where
  "mcu_finish hw io now m =
     (case actuate hw (supervise hw now m) of (watts, m1) \<Rightarrow> report hw io now watts m1)"

definition mcu_tick_1ms ::
  "'h hardware \<Rightarrow> 'u uart_ops \<Rightarrow> millis \<Rightarrow> ('h, 'u) safety_mcu \<Rightarrow> ('h, 'u) safety_mcu option" where
  "mcu_tick_1ms hw io now m =
     map_option (mcu_finish hw io now) (process_frames hw io now (mcu_sample hw m))"

section \<open>What the phases keep\<close>

lemma respond_mcu [simp]:
  "m_telemetry (respond io req p n m) = m_telemetry m" "m_inputs (respond io req p n m) = m_inputs m"
  "m_fault (respond io req p n m) = m_fault m" "m_tick_count (respond io req p n m) = m_tick_count m"
  "m_last_valid_frame_ms (respond io req p n m) = m_last_valid_frame_ms m"
  "m_temp_sensor_ok (respond io req p n m) = m_temp_sensor_ok m"
  by (simp_all add: respond_def core_send_def split: prod.splits)

lemma nack_mcu [simp]:
  "m_telemetry (nack io req m) = m_telemetry m" "m_inputs (nack io req m) = m_inputs m"
  "m_fault (nack io req m) = m_fault m" "m_tick_count (nack io req m) = m_tick_count m"
  "m_last_valid_frame_ms (nack io req m) = m_last_valid_frame_ms m"
  "m_temp_sensor_ok (nack io req m) = m_temp_sensor_ok m"
  by (simp_all add: nack_def core_send_def split: prod.splits)

lemma current_grams_mcu [simp]:
  "m_telemetry (snd (current_grams hw m)) = m_telemetry m" "m_inputs (snd (current_grams hw m)) = m_inputs m"
  "m_fault (snd (current_grams hw m)) = m_fault m" "m_tick_count (snd (current_grams hw m)) = m_tick_count m"
  "m_last_valid_frame_ms (snd (current_grams hw m)) = m_last_valid_frame_ms m"
  "m_temp_sensor_ok (snd (current_grams hw m)) = m_temp_sensor_ok m"
  by (simp_all add: current_grams_def split: prod.splits)

lemma handle_mcu [simp]:
  "m_telemetry (handle hw io req inp b m) = m_telemetry m" "m_inputs (handle hw io req inp b m) = m_inputs m"
  "m_fault (handle hw io req inp b m) = m_fault m" "m_tick_count (handle hw io req inp b m) = m_tick_count m"
  "m_last_valid_frame_ms (handle hw io req inp b m) = m_last_valid_frame_ms m"
  "m_temp_sensor_ok (handle hw io req inp b m) = m_temp_sensor_ok m"
  by (rule handle_cases[of req hw io inp b m]; simp add: handler_defs Let_def case_prod_beta)+

lemma handle_frame_keeps [simp]:
  "m_inputs (handle_frame hw io now f m) = m_inputs m" "m_temp_sensor_ok (handle_frame hw io now f m) = m_temp_sensor_ok m"
  "m_telemetry (handle_frame hw io now f m) = m_telemetry m"
  by (simp_all add: handle_frame_def Let_def)

lemma handle_frame_core:
  "c_motor (handle_frame hw io now f m) = c_motor (handle hw io f (m_inputs m) (m_fault m \<noteq> FaultNone)
     (if f_type f = FtRequest then m\<lparr>m_last_valid_frame_ms := now\<rparr> else m))"
  "c_pid (handle_frame hw io now f m) = c_pid (handle hw io f (m_inputs m) (m_fault m \<noteq> FaultNone)
     (if f_type f = FtRequest then m\<lparr>m_last_valid_frame_ms := now\<rparr> else m))"
  "c_link (handle_frame hw io now f m) = c_link (handle hw io f (m_inputs m) (m_fault m \<noteq> FaultNone)
     (if f_type f = FtRequest then m\<lparr>m_last_valid_frame_ms := now\<rparr> else m))"
  "c_uart (handle_frame hw io now f m) = c_uart (handle hw io f (m_inputs m) (m_fault m \<noteq> FaultNone)
     (if f_type f = FtRequest then m\<lparr>m_last_valid_frame_ms := now\<rparr> else m))"
  by (simp_all add: handle_frame_def Let_def)

lemma handle_frame_fault:
  "m_fault (handle_frame hw io now f m) =
     (if f_type f = FtRequest \<and> f_msg f = MotorStop \<and> f_len f = 0 \<and> can_clear_fault m then FaultNone else m_fault m)"
  by (auto simp: handle_frame_def Let_def can_clear_fault_def split: fault_code.splits)

section \<open>Invariant\<close>

text \<open>While a fault is latched both controllers are off.\<close>

definition mcu_off :: "('h, 'u) safety_mcu \<Rightarrow> bool" where
  "mcu_off m \<longleftrightarrow> \<not> motor_active (c_motor m) \<and> \<not> pid_enabled (c_pid m)"

definition mcu_inv :: "('h, 'u) safety_mcu \<Rightarrow> bool" where
  "mcu_inv m \<longleftrightarrow> link_inv (c_link m) \<and> motor_ctrl_inv (c_motor m) \<and> heater_target_ok (c_pid m) \<and>
     (m_fault m \<noteq> FaultNone \<longrightarrow> mcu_off m)"

lemma mcu_inv_init: "mcu_inv (mcu_init now h u)"
  by (simp add: mcu_inv_def mcu_init_def link_inv_init motor_ctrl_inv_init heater_target_ok_def pid_init_def)

lemma mcu_inv_link: "mcu_inv m \<Longrightarrow> link_inv lk \<Longrightarrow> mcu_inv (m\<lparr>c_link := lk, c_uart := u\<rparr>)"
  by (simp add: mcu_inv_def mcu_off_def)

lemma enter_fault_simps [simp]:
  "m_fault (enter_fault hw code m) = code" "m_inputs (enter_fault hw code m) = m_inputs m"
  "c_link (enter_fault hw code m) = c_link m" "c_uart (enter_fault hw code m) = c_uart m"
  "m_temp_sensor_ok (enter_fault hw code m) = m_temp_sensor_ok m"
  "m_last_valid_frame_ms (enter_fault hw code m) = m_last_valid_frame_ms m"
  "m_telemetry (enter_fault hw code m) = publish_fault code (m_telemetry m)"
  by (simp_all add: enter_fault_def split: prod.splits)

lemma enter_fault_inv: "mcu_inv m \<Longrightarrow> mcu_inv (enter_fault hw code m) \<and> mcu_off (enter_fault hw code m)"
  by (simp add: mcu_inv_def mcu_off_def enter_fault_def motor_stop_def motor_stop_inv motor_active_def heater_target_ok_def)

lemma handle_frame_off:
  assumes "mcu_off m" "m_fault m \<noteq> FaultNone" "motor_ctrl_inv (c_motor m)"
  shows "mcu_off (handle_frame hw io now f m)"
proof -
  let ?m = "if f_type f = FtRequest then m\<lparr>m_last_valid_frame_ms := now\<rparr> else m"
  have "\<not> motor_active (c_motor ?m)" "motor_ctrl_inv (c_motor ?m)" "\<not> pid_enabled (c_pid ?m)"
    using assms by (simp_all add: mcu_off_def)
  from handle_faulted[OF this, of hw io f "m_inputs m"] show ?thesis
    using assms(2) by (simp add: mcu_off_def handle_frame_core)
qed

lemma sample_inputs_fst: "fst (sample_inputs hw m) = is_ok (fst (read_deci_celsius hw (c_hw m)))"
  by (simp add: sample_inputs_def Let_def split: prod.splits)

lemma sample_inputs_keeps [simp]:
  "c_link (snd (sample_inputs hw m)) = c_link m" "c_uart (snd (sample_inputs hw m)) = c_uart m"
  "c_motor (snd (sample_inputs hw m)) = c_motor m" "c_pid (snd (sample_inputs hw m)) = c_pid m"
  "m_fault (snd (sample_inputs hw m)) = m_fault m" "m_last_valid_frame_ms (snd (sample_inputs hw m)) = m_last_valid_frame_ms m"
  "m_temp_sensor_ok (snd (sample_inputs hw m)) = is_ok (fst (read_deci_celsius hw (c_hw m)))"
  by (simp_all add: sample_inputs_def Let_def split: prod.splits)

lemma mcu_sample_inv:
  assumes "mcu_inv m"
  shows "mcu_inv (mcu_sample hw m)"
proof -
  obtain b m1 where s: "sample_inputs hw (m\<lparr>m_tick_count := m_tick_count m + 1\<rparr>) = (b, m1)" by fastforce
  have "mcu_inv m1"
    using assms sample_inputs_keeps[of hw "m\<lparr>m_tick_count := m_tick_count m + 1\<rparr>"] s
    by (simp add: mcu_inv_def mcu_off_def)
  then show ?thesis using s enter_fault_inv[of m1 hw SensorFailure] by (simp add: mcu_sample_def)
qed

lemma handle_frame_motor_pid:
  assumes "motor_ctrl_inv (c_motor m)" "heater_target_ok (c_pid m)"
  shows "motor_ctrl_inv (c_motor (handle_frame hw io now f m))" "heater_target_ok (c_pid (handle_frame hw io now f m))"
  using assms by (simp_all add: handle_frame_core handle_motor_inv handle_pid_ok)

text \<open>The inputs a successful sample gives.\<close>

definition sampled :: "'h hardware \<Rightarrow> 'h \<Rightarrow> deci_celsius \<Rightarrow> inputs" where
  "sampled hw h t = \<lparr>in_temp_c = to_celsius t, in_rpm = motor_rpm hw h, in_lid_closed = lid_is_closed hw h,
     in_lid_locked = lid_is_locked hw h, in_motor_stalled = motor_stalled hw h\<rparr>"

lemma mcu_sample_ok:
  assumes "read_deci_celsius hw (c_hw m) = (result_ok t, h)"
  shows "m_inputs (mcu_sample hw m) = sampled hw h t" "m_fault (mcu_sample hw m) = m_fault m"
    "m_temp_sensor_ok (mcu_sample hw m)"
  using assms by (simp_all add: mcu_sample_def sample_inputs_def sampled_def Let_def)

lemma mcu_sample_fail:
  assumes "\<not> is_ok (fst (read_deci_celsius hw (c_hw m)))"
  shows "m_fault (mcu_sample hw m) = SensorFailure" "\<not> m_temp_sensor_ok (mcu_sample hw m)"
  using assms by (auto simp: mcu_sample_def sample_inputs_def Let_def split: prod.splits)

lemma mcu_sample_keeps [simp]:
  "c_uart (mcu_sample hw m) = c_uart m" "c_link (mcu_sample hw m) = c_link m"
  "m_last_valid_frame_ms (mcu_sample hw m) = m_last_valid_frame_ms m"
  by (simp_all add: mcu_sample_def case_prod_beta)

section \<open>The end of the tick\<close>

lemma supervise_keeps [simp]:
  "m_inputs (supervise hw now m) = m_inputs m" "c_link (supervise hw now m) = c_link m"
  "c_uart (supervise hw now m) = c_uart m" "m_last_valid_frame_ms (supervise hw now m) = m_last_valid_frame_ms m"
  by (simp_all add: supervise_def Let_def)

lemma supervise_inv: "mcu_inv m \<Longrightarrow> mcu_inv (supervise hw now m)"
  using enter_fault_inv[of m hw] by (auto simp: supervise_def Let_def)

lemma supervise_fault:
  "m_fault (supervise hw now m) =
     (if m_fault m \<noteq> FaultNone then m_fault m
      else if evaluate (m_inputs m) \<noteq> FaultNone then evaluate (m_inputs m)
      else if (motor_active (c_motor m) \<or> pid_enabled (c_pid m)) \<and> now - m_last_valid_frame_ms m \<ge> kLinkTimeoutMs
      then LinkLost else FaultNone)"
  by (auto simp: supervise_def Let_def)

lemma supervise_alive:
  assumes "m_fault (supervise hw now m) = FaultNone"
  shows "supervise hw now m = m" "m_fault m = FaultNone" "evaluate (m_inputs m) = FaultNone"
    "\<not> mcu_off m \<Longrightarrow> now - m_last_valid_frame_ms m < kLinkTimeoutMs"
  using assms by (auto simp: supervise_def mcu_off_def Let_def not_less split: if_splits)

text \<open>The power that \<open>actuate\<close> commands.\<close>

definition heater_watts :: "('h, 'u) safety_mcu \<Rightarrow> f32" where
  "heater_watts m = (if m_fault m = FaultNone \<and> pid_enabled (c_pid m) \<and> in_lid_closed (m_inputs m)
     then fst (pid_update (in_temp_c (m_inputs m)) (rnd (1 / 1000)) (c_pid m)) else 0)"

lemma heater_watts_range: "0 \<le> heater_watts m" "heater_watts m \<le> 1200"
  using pid_update_range by (simp_all add: heater_watts_def)

lemma actuate_simps:
  "fst (actuate hw m) = heater_watts m"
  "m_fault (snd (actuate hw m)) = m_fault m" "m_inputs (snd (actuate hw m)) = m_inputs m"
  "c_link (snd (actuate hw m)) = c_link m" "c_uart (snd (actuate hw m)) = c_uart m"
  "m_last_valid_frame_ms (snd (actuate hw m)) = m_last_valid_frame_ms m"
  "m_telemetry (snd (actuate hw m)) = m_telemetry m"
  "c_motor (snd (actuate hw m)) = ramp_step (enforce_cap (continuous_cap (m_inputs m)) (c_motor m))"
  "pid_enabled (c_pid (snd (actuate hw m))) = pid_enabled (c_pid m)"
  "pid_target (c_pid (snd (actuate hw m))) = pid_target (c_pid m)"
  "c_hw (snd (actuate hw m)) = motor_set_duty hw (fdiv (mc_commanded (c_motor (snd (actuate hw m)))) 10700)
     (heater_set_power_w hw (heater_watts m) (c_hw m))"
  using motor_tick_snd[of hw "enforce_cap (continuous_cap (m_inputs m)) (c_motor m)"]
    motor_tick_fst[of hw "enforce_cap (continuous_cap (m_inputs m)) (c_motor m)"]
  by (simp_all add: actuate_def heater_watts_def Let_def case_prod_beta del: motor_tick_fst)

lemma actuate_off:
  assumes "mcu_inv m" "mcu_off m"
  shows "c_motor (snd (actuate hw m)) = c_motor m" "mcu_off (snd (actuate hw m))"
proof -
  have "motor_ctrl_inv (c_motor m)" "\<not> motor_active (c_motor m)" using assms by (simp_all add: mcu_inv_def mcu_off_def)
  then show c: "c_motor (snd (actuate hw m)) = c_motor m"
    by (simp add: actuate_simps enforce_cap_stopped ramp_step_stopped)
  show "mcu_off (snd (actuate hw m))" using assms(2) by (simp add: mcu_off_def c) (simp add: actuate_simps)
qed

lemma actuate_inv:
  assumes "mcu_inv m" shows "mcu_inv (snd (actuate hw m))"
proof -
  have "mcu_off (snd (actuate hw m))" if "m_fault m \<noteq> FaultNone"
    using actuate_off[OF assms] assms that by (simp add: mcu_inv_def)
  then show ?thesis
    using assms by (simp add: mcu_inv_def actuate_simps ramp_step_inv enforce_cap_inv heater_target_ok_def)
qed

lemma actuate_speed:
  assumes "mcu_inv m"
  shows "mc_target (c_motor (snd (actuate hw m))) \<le> continuous_cap (m_inputs m)"
    "mc_commanded (c_motor (snd (actuate hw m))) \<le> rpm_f (continuous_cap (m_inputs m))"
proof -
  let ?cap = "continuous_cap (m_inputs m)"
  let ?mc = "enforce_cap ?cap (c_motor m)"
  have t: "mc_target ?mc \<le> ?cap" "mc_commanded ?mc \<le> rpm_f ?cap" by (rule enforce_cap_bounds)+
  then show "mc_target (c_motor (snd (actuate hw m))) \<le> ?cap" by (simp add: actuate_simps)
  have "mc_commanded (ramp_step ?mc) \<le> max (rpm_f (mc_target ?mc)) (mc_commanded ?mc)"
    using assms by (intro ramp_step_between enforce_cap_inv) (simp add: mcu_inv_def)
  also have "\<dots> \<le> rpm_f ?cap" using t by simp
  finally show "mc_commanded (c_motor (snd (actuate hw m))) \<le> rpm_f ?cap" by (simp add: actuate_simps)
qed

lemma report_simps:
  "m_fault (report hw io now w m) = m_fault m" "m_inputs (report hw io now w m) = m_inputs m"
  "m_last_valid_frame_ms (report hw io now w m) = m_last_valid_frame_ms m"
  "c_motor (report hw io now w m) = c_motor m" "c_pid (report hw io now w m) = c_pid m"
  "c_hw (report hw io now w m) = snd (read_raw hw (c_hw m))"
  by (simp_all add: report_def Let_def case_prod_beta)

lemmas finish_simps = mcu_finish_def case_prod_beta report_simps actuate_simps

context uart
begin

lemma report_inv:
  assumes "mcu_inv m" "uart_inv (c_uart m)"
  shows "mcu_inv (report hw io now w m)" "uart_inv (c_uart (report hw io now w m))"
proof -
  obtain g m1 where g: "current_grams hw m = (g, m1)" by fastforce
  have m1: "c_link m1 = c_link m" "c_uart m1 = c_uart m" "m_telemetry m1 = m_telemetry m"
    using current_grams_simps[of hw m] current_grams_mcu[of hw m] g by simp_all
  have k: "link_inv (c_link m)" using assms(1) by (simp add: mcu_inv_def)
  define data where "data = \<lparr>td_tick = m_tick_count m1, td_deci_celsius = from_celsius (in_temp_c (m_inputs m1)),
                  td_rpm = in_rpm (m_inputs m1), td_grams = g, td_flags = telemetry_flags (m_inputs m1) w\<rparr>"
  obtain tp lk u where p: "maybe_publish io now data (m_telemetry m) (c_link m) (c_uart m) = (tp, lk, u)"
    "link_inv lk" "uart_inv u"
    using maybe_publish_spec[OF k assms(2), of now data "m_telemetry m"] by blast
  have "c_link (report hw io now w m) = lk" "c_uart (report hw io now w m) = u"
    by (simp_all add: report_def g m1 p(1) flip: data_def)
  then show "mcu_inv (report hw io now w m)" "uart_inv (c_uart (report hw io now w m))"
    using assms p(2,3) by (simp_all add: mcu_inv_def mcu_off_def report_simps)
qed

lemma finish_inv:
  assumes "mcu_inv m" "uart_inv (c_uart m)"
  shows "mcu_inv (mcu_finish hw io now m)" "uart_inv (c_uart (mcu_finish hw io now m))"
  using report_inv[OF actuate_inv[OF supervise_inv[OF assms(1)]]] assms(2)
  by (simp_all add: mcu_finish_def case_prod_beta actuate_simps)

text \<open>
  The request loop returns, and whatever every handled frame and every link operation keeps holds
  when it does.
\<close>

lemma handle_frame_inv:
  assumes "mcu_inv m" "uart_inv (c_uart m)"
  shows "mcu_inv (handle_frame hw io now f m)" "uart_inv (c_uart (handle_frame hw io now f m))"
    "rx_q (c_uart (handle_frame hw io now f m)) = rx_q (c_uart m)"
proof -
  let ?m = "if f_type f = FtRequest then m\<lparr>m_last_valid_frame_ms := now\<rparr> else m"
  have "link_inv (c_link ?m)" "uart_inv (c_uart ?m)" using assms by (simp_all add: mcu_inv_def)
  from handle_keeps_link[OF this, of hw f "m_inputs m" "m_fault m \<noteq> FaultNone"]
  have k: "link_inv (c_link (handle_frame hw io now f m))" "uart_inv (c_uart (handle_frame hw io now f m))"
    "rx_q (c_uart (handle_frame hw io now f m)) = rx_q (c_uart m)" by (simp_all add: handle_frame_core)
  have "mcu_off (handle_frame hw io now f m)" if "m_fault (handle_frame hw io now f m) \<noteq> FaultNone"
    using that assms(1) by (intro handle_frame_off) (auto simp: handle_frame_fault mcu_inv_def split: if_splits)
  then show "mcu_inv (handle_frame hw io now f m)"
    using k(1) handle_frame_motor_pid[of m hw io now f] assms(1) by (simp add: mcu_inv_def)
  show "uart_inv (c_uart (handle_frame hw io now f m))" "rx_q (c_uart (handle_frame hw io now f m)) = rx_q (c_uart m)"
    using k by simp_all
qed

lemma process_frames_rule:
  assumes "mcu_inv m" "uart_inv (c_uart m)" "P m"
    and step: "\<And>m f. mcu_inv m \<Longrightarrow> P m \<Longrightarrow> P (handle_frame hw io now f m)"
    and line: "\<And>m lk u. P m \<Longrightarrow> P (m\<lparr>c_link := lk, c_uart := u\<rparr>)"
  shows "\<exists>m'. process_frames hw io now m = Some m' \<and> P m' \<and> mcu_inv m' \<and> uart_inv (c_uart m')"
  using assms(1-3)
proof (induction "length (rx_q (c_uart m))" arbitrary: m rule: less_induct)
  case less
  have k: "link_inv (c_link m)" using less.prems(1) by (simp add: mcu_inv_def)
  obtain out lk u lk1 where p: "link_poll io now (c_link m) (c_uart m) = Some (out, lk, u)" "link_inv lk"
    "uart_inv u" "poll_bytes now (rx_q (c_uart m)) lk1 = (out, lk, rx_q u)"
    using link_poll_spec[OF k less.prems(2)] by blast
  let ?m = "m\<lparr>c_link := lk, c_uart := u\<rparr>"
  have m: "mcu_inv ?m" "uart_inv (c_uart ?m)" "P ?m"
    using less.prems p(2,3) mcu_inv_link line by simp_all
  show ?case
  proof (cases out)
    case None
    then have "process_frames hw io now m = Some ?m" by (subst process_frames.simps) (simp add: p(1))
    then show ?thesis using m by simp
  next
    case (Some f)
    have eq: "process_frames hw io now m = process_frames hw io now (handle_frame hw io now f ?m)"
      by (subst process_frames.simps) (simp add: p(1) Some)
    note h = handle_frame_inv[OF m(1,2), of hw now f]
    have "length (rx_q (c_uart (handle_frame hw io now f ?m))) < length (rx_q (c_uart m))"
      unfolding h(3) using poll_bytes_shorter p(4) Some by simp
    from less.hyps[OF this h(1,2) step[OF m(1,3)]] show ?thesis unfolding eq .
  qed
qed

lemma mcu_tick_rule:
  assumes "mcu_inv m" "uart_inv (c_uart m)" "P (mcu_sample hw m)"
    and "\<And>m f. mcu_inv m \<Longrightarrow> P m \<Longrightarrow> P (handle_frame hw io now f m)"
    and "\<And>m lk u. P m \<Longrightarrow> P (m\<lparr>c_link := lk, c_uart := u\<rparr>)"
  shows "\<exists>m1 m'. mcu_tick_1ms hw io now m = Some m' \<and> m' = mcu_finish hw io now m1 \<and> P m1 \<and>
    mcu_inv m1 \<and> mcu_inv m' \<and> uart_inv (c_uart m')"
proof -
  obtain m1 where m1: "process_frames hw io now (mcu_sample hw m) = Some m1" "P m1" "mcu_inv m1" "uart_inv (c_uart m1)"
    using process_frames_rule[OF mcu_sample_inv[OF assms(1)] _ assms(3-5)] assms(2) by auto
  moreover have "mcu_tick_1ms hw io now m = Some (mcu_finish hw io now m1)" by (simp add: mcu_tick_1ms_def m1(1))
  ultimately show ?thesis using finish_inv[OF m1(3,4), of hw now] by blast
qed

end

context actuators
begin

lemma duty_range:
  assumes "motor_ctrl_inv mc"
  shows "0 \<le> fdiv (mc_commanded mc) 10700" "fdiv (mc_commanded mc) 10700 \<le> 1"
  using assms b32.rd_unit[of "mc_commanded mc / 10700"] by (auto simp: motor_ctrl_inv_def f32_ops)

text \<open>What the hardware shows at the end of a tick.\<close>

lemma finish_outputs:
  assumes "mcu_inv m"
  shows "duty_of (c_hw (mcu_finish hw io now m)) = fdiv (mc_commanded (c_motor (mcu_finish hw io now m))) 10700"
    "heater_power_w hw (c_hw (mcu_finish hw io now m)) = heater_watts (supervise hw now m)"
proof -
  let ?m = "supervise hw now m"
  have i: "motor_ctrl_inv (c_motor (snd (actuate hw ?m)))"
    using actuate_inv[OF supervise_inv[OF assms]] by (simp add: mcu_inv_def)
  show "duty_of (c_hw (mcu_finish hw io now m)) = fdiv (mc_commanded (c_motor (mcu_finish hw io now m))) 10700"
    using duty_range[OF i] by (simp add: mcu_finish_def case_prod_beta report_simps duty_frame actuate_simps(11) set_duty)
  show "heater_power_w hw (c_hw (mcu_finish hw io now m)) = heater_watts ?m"
    using heater_watts_range[of ?m]
    by (simp add: mcu_finish_def case_prod_beta report_simps power_frame actuate_simps(11) set_power)
qed

lemma finish_off:
  assumes "mcu_inv m" "m_fault (supervise hw now m) \<noteq> FaultNone"
  shows "duty_of (c_hw (mcu_finish hw io now m)) = 0" "heater_power_w hw (c_hw (mcu_finish hw io now m)) = 0"
proof -
  let ?m = "supervise hw now m"
  have i: "mcu_inv ?m" "mcu_off ?m" using supervise_inv[OF assms(1), of hw now] assms(2) by (simp_all add: mcu_inv_def)
  then have "mc_commanded (c_motor ?m) = 0" by (auto simp: mcu_inv_def mcu_off_def motor_active_def motor_ctrl_inv_def)
  then show "duty_of (c_hw (mcu_finish hw io now m)) = 0"
    using finish_outputs(1)[OF assms(1), of io now] actuate_off(1)[OF i, of hw]
    by (simp add: mcu_finish_def case_prod_beta report_simps f32_ops)
  show "heater_power_w hw (c_hw (mcu_finish hw io now m)) = 0"
    using finish_outputs(2)[OF assms(1), of io now] assms(2) by (simp add: heater_watts_def)
qed

end

end
