(* ===== verification/Sim_Models.thy ===== *)
theory Sim_Models
  imports Hal "HOL-Library.Stream"
begin

text \<open>
  The physical models of \<open>src/sim/\<close>: lid, motor, scale and thermal plant, in binary32 and in the
  order of evaluation of the code. The normally distributed noise of the sensors is a stream of
  samples kept in the state: \<open>std::normal_distribution\<close> over a seeded engine determines one, and no
  property depends on which. Shown here: a locked lid is closed, and the simulated motor never
  leaves the range of the drive.
\<close>

section \<open>Lid\<close>

record lid_model =
  lid_closed :: bool
  lid_locked :: bool

definition lid_model_init :: lid_model where
  "lid_model_init = \<lparr>lid_closed = True, lid_locked = False\<rparr>"

definition user_open :: "lid_model \<Rightarrow> lid_model" where
  "user_open l = (if \<not> lid_locked l then l\<lparr>lid_closed := False\<rparr> else l)"

definition user_close :: "lid_model \<Rightarrow> lid_model" where
  "user_close l = l\<lparr>lid_closed := True\<rparr>"

definition set_lock :: "bool \<Rightarrow> lid_model \<Rightarrow> lid_model" where
  "set_lock locked l = (if lid_closed l then l\<lparr>lid_locked := locked\<rparr> else l)"

definition lid_inv :: "lid_model \<Rightarrow> bool" where
  "lid_inv l \<longleftrightarrow> (lid_locked l \<longrightarrow> lid_closed l)"

lemma lid_inv_ops:
  "lid_inv lid_model_init" "lid_inv l \<Longrightarrow> lid_inv (user_open l)" "lid_inv l \<Longrightarrow> lid_inv (user_close l)"
  "lid_inv l \<Longrightarrow> lid_inv (set_lock b l)"
  by (auto simp: lid_inv_def lid_model_init_def user_open_def user_close_def set_lock_def)

section \<open>Motor\<close>

record motor_model =
  mm_duty :: f32
  mm_rpm :: f32
  mm_viscosity :: f32
  mm_reverse :: bool
  mm_stalled :: bool
  mm_current_ma :: u16

definition motor_model_init :: motor_model where
  "motor_model_init = \<lparr>mm_duty = 0, mm_rpm = 0, mm_viscosity = 1, mm_reverse = False, mm_stalled = False,
     mm_current_ma = 0\<rparr>"

definition kSpeedTauSeconds :: f32 where [limit_defs]: "kSpeedTauSeconds = rnd (4 / 10)"
definition kIdleCurrentMa :: f32 where [limit_defs]: "kIdleCurrentMa = 150"
definition kCurrentPerRpmMa :: f32 where [limit_defs]: "kCurrentPerRpmMa = rnd (5 / 100)"
definition kStallLoadLimit :: f32 where [limit_defs]: "kStallLoadLimit = 9000"

definition mm_set_duty :: "f32 \<Rightarrow> motor_model \<Rightarrow> motor_model" where
  "mm_set_duty duty mm =
     (let d0 = (if duty < 0 then 0 else duty);
          d1 = (if d0 > 1 then 1 else d0);
          mm1 = mm\<lparr>mm_duty := d1\<rparr>
      in if d1 = 0 then mm1\<lparr>mm_stalled := False\<rparr> else mm1)"

definition mm_rpm_reading :: "motor_model \<Rightarrow> rpm" where
  "mm_rpm_reading mm = word_of_int (trunc (if mm_rpm mm < 0 then 0 else mm_rpm mm))"

text \<open>The first-order speed response, before the load is considered.\<close>

definition mm_speed :: "f32 \<Rightarrow> motor_model \<Rightarrow> f32" where
  "mm_speed dt mm =
     (let target = fmul (mm_duty mm) 10700
      in fadd (mm_rpm mm) (fdiv (fmul (fsub target (mm_rpm mm)) dt) kSpeedTauSeconds))"

definition mm_step :: "f32 \<Rightarrow> f32 \<Rightarrow> motor_model \<Rightarrow> motor_model" where
  "mm_step dt contents_grams mm =
     (if mm_stalled mm then mm\<lparr>mm_rpm := 0, mm_current_ma := 2500\<rparr>
      else let rpm = mm_speed dt mm;
               load = fmul (fmul (fdiv rpm 10700) (mm_viscosity mm)) (fadd 500 contents_grams)
           in if load > kStallLoadLimit
              then mm\<lparr>mm_stalled := True, mm_rpm := 0, mm_current_ma := 2500\<rparr>
              else mm\<lparr>mm_rpm := rpm,
                     mm_current_ma := word_of_int (trunc
                       (if mm_duty mm > 0
                        then fadd (fadd kIdleCurrentMa (fmul kCurrentPerRpmMa rpm)) (fmul load (rnd (1 / 10)))
                        else 0))\<rparr>)"

section \<open>Scale\<close>

record scale_model =
  sc_true_mass_g :: f32
  sc_drift_g :: f32
  sc_vibration_rpm :: f32
  sc_noise :: "f32 stream"

definition kDriftGramsPerMinute :: f32 where [limit_defs]: "kDriftGramsPerMinute = rnd (5 / 100)"
definition kVibrationAmplitudeG :: f32 where [limit_defs]: "kVibrationAmplitudeG = 90"

definition scale_model_init :: "f32 stream \<Rightarrow> scale_model" where
  "scale_model_init noise = \<lparr>sc_true_mass_g = 0, sc_drift_g = 0, sc_vibration_rpm = 0, sc_noise = noise\<rparr>"

definition sc_step :: "f32 \<Rightarrow> f32 \<Rightarrow> scale_model \<Rightarrow> scale_model" where
  "sc_step dt rpm sc =
     sc\<lparr>sc_drift_g := fadd (sc_drift_g sc) (fdiv (fmul kDriftGramsPerMinute dt) 60), sc_vibration_rpm := rpm\<rparr>"

definition sc_add_mass :: "f32 \<Rightarrow> scale_model \<Rightarrow> scale_model" where
  "sc_add_mass grams sc = sc\<lparr>sc_true_mass_g := fadd (sc_true_mass_g sc) grams\<rparr>"

definition sc_clear_mass :: "scale_model \<Rightarrow> scale_model" where
  "sc_clear_mass sc = sc\<lparr>sc_true_mass_g := 0\<rparr>"

definition sc_read_raw_counts :: "scale_model \<Rightarrow> i32 \<times> scale_model" where
  "sc_read_raw_counts sc =
     (let speed_ratio = fdiv (sc_vibration_rpm sc) 10700;
          vibration = fmul (fmul (fmul kVibrationAmplitudeG speed_ratio) speed_ratio) (shd (sc_noise sc));
          gauss = shd (stl (sc_noise sc));
          grams = fadd (fadd (fadd (sc_true_mass_g sc) (sc_drift_g sc)) gauss) vibration
      in (word_of_int (trunc (fmul grams 10)), sc\<lparr>sc_noise := stl (stl (sc_noise sc))\<rparr>))"

section \<open>Thermal plant\<close>

record thermal_model =
  th_temperature_c :: f32
  th_ambient_c :: f32

definition thermal_model_init :: thermal_model where
  "thermal_model_init = \<lparr>th_temperature_c = 20, th_ambient_c = 20\<rparr>"

definition th_step :: "f32 \<Rightarrow> f32 \<Rightarrow> f32 \<Rightarrow> thermal_model \<Rightarrow> thermal_model" where
  "th_step dt heater_watts contents_grams th =
     (let capacity = fadd 500 (fmul (rnd (418 / 100)) contents_grams);
          loss_watts = fmul 5 (fsub (th_temperature_c th) (th_ambient_c th));
          t = fadd (th_temperature_c th) (fdiv (fmul (fsub heater_watts loss_watts) dt) capacity)
      in th\<lparr>th_temperature_c := (if t < fsub (th_ambient_c th) 40 then fsub (th_ambient_c th) 40 else t)\<rparr>)"

definition th_set_temperature_c :: "f32 \<Rightarrow> thermal_model \<Rightarrow> thermal_model" where
  "th_set_temperature_c celsius th = th\<lparr>th_temperature_c := celsius\<rparr>"

definition th_set_ambient_c :: "f32 \<Rightarrow> thermal_model \<Rightarrow> thermal_model" where
  "th_set_ambient_c celsius th = th\<lparr>th_ambient_c := celsius\<rparr>"

section \<open>The range of the simulated motor\<close>

definition motor_model_inv :: "motor_model \<Rightarrow> bool" where
  "motor_model_inv mm \<longleftrightarrow> 0 \<le> mm_duty mm \<and> mm_duty mm \<le> 1 \<and> 0 \<le> mm_rpm mm \<and> mm_rpm mm \<le> 10700"

lemma rnd_double: assumes "0 \<le> x" shows "0 \<le> rnd x" "rnd x \<le> 2 * x"
proof -
  show "0 \<le> rnd x" using assms by (rule b32.rd_pos_mono)
  show "rnd x \<le> 2 * x"
  proof (cases "quantum x \<le> 2 * x")
    case True
    then show ?thesis using rnd_error[of x] by linarith
  next
    case False
    then have "\<bar>x / quantum x\<bar> \<le> 1 / 2" using assms quantum_pos[of x] by (simp add: field_simps)
    then have "round_even (x / quantum x) = 0" by (intro round_even_near) (simp_all only: even_zero of_int_0 diff_zero)
    then show ?thesis using assms by (simp add: rnd_def)
  qed
qed

lemma scaled_step:
  assumes "0 \<le> d" "k = rnd (1 / 1000)"
  shows "0 \<le> rnd (rnd (rnd d * k) / kSpeedTauSeconds)" "rnd (rnd (rnd d * k) / kSpeedTauSeconds) \<le> d"
proof -
  have k: "0 \<le> k" "k \<le> 1 / 500" unfolding assms(2) by code_simp+
  have t: "1 / 3 \<le> kSpeedTauSeconds" unfolding kSpeedTauSeconds_def by code_simp
  have "rnd d * k \<le> (2 * d) * (1 / 500)" using rnd_double[OF assms(1)] k by (intro mult_mono) auto
  moreover have "0 \<le> rnd d * k" using rnd_double[OF assms(1)] k by simp
  ultimately have a: "rnd d * k \<le> (2 * d) * (1 / 500)" "0 \<le> rnd d * k" by simp_all
  note a = a rnd_double[OF a(2)]
  have "rnd (rnd d * k) / kSpeedTauSeconds \<le> rnd (rnd d * k) / (1 / 3)"
    using a t by (intro divide_left_mono) auto
  moreover have "0 \<le> rnd (rnd d * k) / kSpeedTauSeconds" using a t by simp
  ultimately show "0 \<le> rnd (rnd (rnd d * k) / kSpeedTauSeconds)" "rnd (rnd (rnd d * k) / kSpeedTauSeconds) \<le> d"
    using rnd_double[of "rnd (rnd d * k) / kSpeedTauSeconds"] a assms(1) unfolding divide_divide_eq_right by linarith+
qed

lemma mm_speed_range:
  assumes "motor_model_inv mm"
  shows "0 \<le> mm_speed (rnd (1 / 1000)) mm" "mm_speed (rnd (1 / 1000)) mm \<le> 10700"
proof -
  define t where "t = fmul (mm_duty mm) 10700"
  define s where "s = rnd (rnd (rnd (t - mm_rpm mm) * rnd (1 / 1000)) / kSpeedTauSeconds)"
  have t: "0 \<le> t" "t \<le> 10700"
    using assms b32.rd_pos_mono[of "mm_duty mm * 10700"] b32.rd_le[of 10700 "mm_duty mm * 10700"]
    by (auto simp: t_def f32_ops motor_model_inv_def)
  have m: "0 \<le> mm_rpm mm" "mm_rpm mm \<le> 10700" using assms by (simp_all add: motor_model_inv_def)
  have "0 \<le> mm_rpm mm + s" "mm_rpm mm + s \<le> 10700"
  proof (atomize (full), cases "mm_rpm mm \<le> t")
    case True
    then show "0 \<le> mm_rpm mm + s \<and> mm_rpm mm + s \<le> 10700"
      using scaled_step[of "t - mm_rpm mm" "rnd (1 / 1000)"] t m by (simp add: s_def)
  next
    case False
    have "s = - rnd (rnd (rnd (mm_rpm mm - t) * rnd (1 / 1000)) / kSpeedTauSeconds)"
      using b32.rd_odd[of "mm_rpm mm - t"] b32.rd_odd by (simp add: s_def flip: minus_divide_left)
    then show "0 \<le> mm_rpm mm + s \<and> mm_rpm mm + s \<le> 10700"
      using scaled_step[of "mm_rpm mm - t" "rnd (1 / 1000)"] t m False by simp
  qed
  then show "0 \<le> mm_speed (rnd (1 / 1000)) mm" "mm_speed (rnd (1 / 1000)) mm \<le> 10700"
    using b32.rd_pos_mono[of "mm_rpm mm + s"] b32.rd_le[of 10700 "mm_rpm mm + s"]
    by (simp_all add: mm_speed_def f32_ops s_def t_def)
qed

lemma motor_model_inv_ops:
  "motor_model_inv motor_model_init" "motor_model_inv mm \<Longrightarrow> motor_model_inv (mm_set_duty d mm)"
  "motor_model_inv mm \<Longrightarrow> motor_model_inv (mm_step (rnd (1 / 1000)) g mm)"
  using mm_speed_range[of mm]
  by (auto simp: motor_model_inv_def motor_model_init_def mm_set_duty_def mm_step_def Let_def)

end
