(* ===== verification/Sim_Board.thy ===== *)
theory Sim_Board
  imports Sim_Models
begin

text \<open>
  \<open>src/sim/sim_board.h\<close> and \<open>sim_board.cpp\<close> (with \<open>sim_clock.h\<close>): the simulated board that wires the
  models to the hardware interfaces and advances them in 1 ms steps. The board is interpreted in the
  locale \<open>actuators\<close>. Shown here: the invariants of the lid and the motor hold in every state the
  board can reach by firmware, user and time steps, and a watchdog that is fed often enough never trips.
\<close>

section \<open>Watchdog\<close>

record watchdog =
  wd_last_feed_ms :: millis
  wd_armed :: bool
  wd_tripped :: bool

definition kWatchdogTimeoutMs :: millis where [limit_defs]: "kWatchdogTimeoutMs = 500"

definition watchdog_init :: watchdog where
  "watchdog_init = \<lparr>wd_last_feed_ms = 0, wd_armed = False, wd_tripped = False\<rparr>"

definition wd_feed :: "millis \<Rightarrow> watchdog \<Rightarrow> watchdog" where
  "wd_feed now wd = wd\<lparr>wd_armed := True, wd_last_feed_ms := now\<rparr>"

definition wd_check :: "millis \<Rightarrow> watchdog \<Rightarrow> watchdog" where
  "wd_check now wd =
     (if wd_armed wd \<and> now - wd_last_feed_ms wd > kWatchdogTimeoutMs then wd\<lparr>wd_tripped := True\<rparr> else wd)"

section \<open>The board\<close>

record sim_board =
  sb_now_us :: micros
  sb_thermal :: thermal_model
  sb_motor :: motor_model
  sb_scale :: scale_model
  sb_lid :: lid_model
  sb_heater_watts :: f32
  sb_temp_noise :: "f32 stream"
  sb_temp_failed :: bool
  sb_watchdog :: watchdog

definition sim_board_init :: "f32 stream \<Rightarrow> f32 stream \<Rightarrow> sim_board" where
  "sim_board_init scale_noise temp_noise =
     \<lparr>sb_now_us = 0, sb_thermal = thermal_model_init, sb_motor = motor_model_init,
      sb_scale = scale_model_init scale_noise, sb_lid = lid_model_init, sb_heater_watts = 0,
      sb_temp_noise = temp_noise, sb_temp_failed = False, sb_watchdog = watchdog_init\<rparr>"

definition sb_now_ms :: "sim_board \<Rightarrow> millis" where
  "sb_now_ms b = to_millis (sb_now_us b)"

definition heater_hal_set_power_w :: "f32 \<Rightarrow> sim_board \<Rightarrow> sim_board" where
  "heater_hal_set_power_w watts b =
     (let w0 = (if watts < 0 then 0 else watts);
          w1 = (if w0 > 1200 then 1200 else w0)
      in b\<lparr>sb_heater_watts := w1\<rparr>)"

definition temp_hal_read :: "sim_board \<Rightarrow> deci_celsius result \<times> sim_board" where
  "temp_hal_read b =
     (if sb_temp_failed b then (result_err HardwareFault, b)
      else let reading = fadd (th_temperature_c (sb_thermal b)) (shd (sb_temp_noise b))
           in (result_ok (from_celsius reading), b\<lparr>sb_temp_noise := stl (sb_temp_noise b)\<rparr>))"

definition scale_hal_read :: "sim_board \<Rightarrow> i32 result \<times> sim_board" where
  "scale_hal_read b =
     (case sc_read_raw_counts (sb_scale b) of (counts, sc) \<Rightarrow> (result_ok counts, b\<lparr>sb_scale := sc\<rparr>))"

definition sim_hw :: "sim_board hardware" where
  "sim_hw = \<lparr>
     motor_set_duty = (\<lambda>d b. b\<lparr>sb_motor := mm_set_duty d (sb_motor b)\<rparr>),
     motor_set_reverse = (\<lambda>r b. b\<lparr>sb_motor := (sb_motor b)\<lparr>mm_reverse := r\<rparr>\<rparr>),
     motor_rpm = (\<lambda>b. mm_rpm_reading (sb_motor b)),
     motor_current_ma = (\<lambda>b. mm_current_ma (sb_motor b)),
     motor_stalled = (\<lambda>b. mm_stalled (sb_motor b)),
     heater_set_power_w = heater_hal_set_power_w,
     heater_power_w = sb_heater_watts,
     read_deci_celsius = temp_hal_read,
     read_raw = scale_hal_read,
     lid_is_closed = (\<lambda>b. lid_closed (sb_lid b)),
     lid_is_locked = (\<lambda>b. lid_locked (sb_lid b)),
     lid_set_lock = (\<lambda>l b. b\<lparr>sb_lid := set_lock l (sb_lid b)\<rparr>)\<rparr>"

interpretation sim_act: actuators sim_hw "\<lambda>b. mm_duty (sb_motor b)"
  by unfold_locales
     (auto simp: sim_hw_def mm_set_duty_def heater_hal_set_power_w_def scale_hal_read_def Let_def split: prod.splits)

section \<open>World and user actions\<close>

definition sb_add_mass :: "f32 \<Rightarrow> sim_board \<Rightarrow> sim_board" where
  "sb_add_mass grams b = b\<lparr>sb_scale := sc_add_mass grams (sb_scale b)\<rparr>"

definition sb_clear_mass :: "sim_board \<Rightarrow> sim_board" where
  "sb_clear_mass b = b\<lparr>sb_scale := sc_clear_mass (sb_scale b)\<rparr>"

definition sb_set_viscosity :: "f32 \<Rightarrow> sim_board \<Rightarrow> sim_board" where
  "sb_set_viscosity factor b = b\<lparr>sb_motor := (sb_motor b)\<lparr>mm_viscosity := factor\<rparr>\<rparr>"

definition sb_open_lid :: "sim_board \<Rightarrow> sim_board" where
  "sb_open_lid b = b\<lparr>sb_lid := user_open (sb_lid b)\<rparr>"

definition sb_close_lid :: "sim_board \<Rightarrow> sim_board" where
  "sb_close_lid b = b\<lparr>sb_lid := user_close (sb_lid b)\<rparr>"

definition sb_set_ambient_c :: "f32 \<Rightarrow> sim_board \<Rightarrow> sim_board" where
  "sb_set_ambient_c celsius b = b\<lparr>sb_thermal := th_set_ambient_c celsius (sb_thermal b)\<rparr>"

definition sb_set_temperature_c :: "f32 \<Rightarrow> sim_board \<Rightarrow> sim_board" where
  "sb_set_temperature_c celsius b = b\<lparr>sb_thermal := th_set_temperature_c celsius (sb_thermal b)\<rparr>"

definition sb_set_temp_sensor_failed :: "bool \<Rightarrow> sim_board \<Rightarrow> sim_board" where
  "sb_set_temp_sensor_failed failed b = b\<lparr>sb_temp_failed := failed\<rparr>"

text \<open>One iteration of \<open>step_ms\<close>, and the loop.\<close>

definition sb_step_1ms :: "sim_board \<Rightarrow> sim_board" where
  "sb_step_1ms b =
     (let dt = rnd (1 / 1000);
          b1 = b\<lparr>sb_now_us := sb_now_us b + 1000\<rparr>;
          b2 = b1\<lparr>sb_motor := mm_step dt (sc_true_mass_g (sb_scale b1)) (sb_motor b1)\<rparr>;
          b3 = b2\<lparr>sb_scale := sc_step dt (float_of (uint (mm_rpm_reading (sb_motor b2)))) (sb_scale b2)\<rparr>;
          b4 = b3\<lparr>sb_thermal := th_step dt (sb_heater_watts b3) (sc_true_mass_g (sb_scale b3)) (sb_thermal b3)\<rparr>
      in b4\<lparr>sb_watchdog := wd_check (sb_now_ms b4) (sb_watchdog b4)\<rparr>)"

definition sb_step_ms :: "nat \<Rightarrow> sim_board \<Rightarrow> sim_board" where
  "sb_step_ms ms b = (sb_step_1ms ^^ ms) b"

section \<open>Reachable boards\<close>

text \<open>Everything that happens to a board: firmware operations, user actions and time.\<close>

inductive board_step :: "sim_board \<Rightarrow> sim_board \<Rightarrow> bool" where
  duty: "board_step b (motor_set_duty sim_hw d b)"
| reverse: "board_step b (motor_set_reverse sim_hw r b)"
| power: "board_step b (heater_set_power_w sim_hw w b)"
| read_temp: "board_step b (snd (read_deci_celsius sim_hw b))"
| read_scale: "board_step b (snd (read_raw sim_hw b))"
| lock: "board_step b (lid_set_lock sim_hw l b)"
| add: "board_step b (sb_add_mass g b)"
| clear: "board_step b (sb_clear_mass b)"
| viscosity: "board_step b (sb_set_viscosity v b)"
| open_lid: "board_step b (sb_open_lid b)"
| close_lid: "board_step b (sb_close_lid b)"
| ambient: "board_step b (sb_set_ambient_c c b)"
| temperature: "board_step b (sb_set_temperature_c c b)"
| sensor: "board_step b (sb_set_temp_sensor_failed f b)"
| feed: "board_step b (b\<lparr>sb_watchdog := wd_feed (sb_now_ms b) (sb_watchdog b)\<rparr>)"
| time: "board_step b (sb_step_1ms b)"

definition board_inv :: "sim_board \<Rightarrow> bool" where
  "board_inv b \<longleftrightarrow> lid_inv (sb_lid b) \<and> motor_model_inv (sb_motor b) \<and> 0 \<le> sb_heater_watts b \<and> sb_heater_watts b \<le> 1200"

lemma board_inv_init: "board_inv (sim_board_init s t)"
  by (simp add: board_inv_def sim_board_init_def lid_inv_ops motor_model_inv_ops)

lemma board_step_inv: "board_step b b' \<Longrightarrow> board_inv b \<Longrightarrow> board_inv b'"
  by (induction rule: board_step.induct)
     (auto simp: board_inv_def sim_hw_def lid_inv_ops motor_model_inv_ops heater_hal_set_power_w_def temp_hal_read_def
        scale_hal_read_def sb_add_mass_def sb_clear_mass_def sb_set_viscosity_def sb_open_lid_def sb_close_lid_def
        sb_set_ambient_c_def sb_set_temperature_c_def sb_set_temp_sensor_failed_def sb_step_1ms_def Let_def
        motor_model_inv_def[of "_\<lparr>mm_viscosity := _\<rparr>"] motor_model_inv_def[of "_\<lparr>mm_reverse := _\<rparr>"]
        simp flip: motor_model_inv_def split: prod.splits)

lemma reachable_board_inv: "board_step\<^sup>*\<^sup>* (sim_board_init s t) b \<Longrightarrow> board_inv b"
  by (induction rule: rtranclp_induct) (auto intro: board_inv_init board_step_inv)

lemma mm_rpm_reading_bound:
  assumes "motor_model_inv mm" shows "unat (mm_rpm_reading mm) \<le> 10700"
proof -
  have "trunc (mm_rpm mm) \<le> trunc 10700" using assms by (intro trunc_mono) (simp add: motor_model_inv_def)
  moreover have "0 \<le> trunc (mm_rpm mm)" using assms by (simp add: motor_model_inv_def trunc_def)
  ultimately have t: "0 \<le> trunc (mm_rpm mm)" "trunc (mm_rpm mm) \<le> 10700" by simp_all
  have "mm_rpm_reading mm = word_of_int (trunc (mm_rpm mm))"
    using assms by (auto simp: mm_rpm_reading_def motor_model_inv_def)
  moreover have "unat (word_of_int (trunc (mm_rpm mm)) :: rpm) = nat (trunc (mm_rpm mm))"
    using t by (simp add: unat_eq_nat_uint unsigned_of_int take_bit_int_eq_self)
  ultimately show ?thesis using t by simp
qed

section \<open>Properties\<close>

text \<open>
  Whatever sequence of firmware commands, user actions, sensor readings and time steps a simulated
  board goes through, a locked lid is a closed lid, the measured speed is at most 10,700 RPM and the
  heater power stays between 0 and 1200 W.
\<close>

theorem reachable_board_safe:
  assumes "board_step\<^sup>*\<^sup>* (sim_board_init s t) b"
  shows "(lid_locked (sb_lid b) \<longrightarrow> lid_closed (sb_lid b)) \<and> unat (mm_rpm_reading (sb_motor b)) \<le> 10700 \<and>
    0 \<le> sb_heater_watts b \<and> sb_heater_watts b \<le> 1200"
  using reachable_board_inv[OF assms] mm_rpm_reading_bound[of "sb_motor b"] by (simp add: board_inv_def lid_inv_def)

theorem reachable_board_safe_witness:
  "let b = sb_open_lid (lid_set_lock sim_hw True (sim_board_init (sconst 0) (sconst 0)))
   in lid_locked (sb_lid b) \<and> lid_closed (sb_lid b)"
proof -
  let ?start = "sim_board_init (sconst 0) (sconst 0)"
  let ?b = "sb_open_lid (lid_set_lock sim_hw True ?start)"
  have "board_step\<^sup>*\<^sup>* ?start ?b"
    using board_step.lock[of ?start True] board_step.open_lid[of "lid_set_lock sim_hw True ?start"]
    by (meson rtranclp.rtrancl_into_rtrancl rtranclp.rtrancl_refl)
  moreover have "lid_locked (sb_lid ?b)"
    by (simp add: sb_open_lid_def sim_hw_def set_lock_def user_open_def sim_board_init_def lid_model_init_def)
  ultimately show ?thesis unfolding Let_def using reachable_board_safe by blast
qed

text \<open>The watchdog as time passes: it is checked at every millisecond.\<close>

definition wd_run :: "millis \<Rightarrow> nat \<Rightarrow> watchdog \<Rightarrow> watchdog" where
  "wd_run now k wd = fold (\<lambda>i. wd_check (now + of_nat i)) [1..<Suc k] wd"

lemma wd_run_Suc: "wd_run now (Suc k) wd = wd_check (now + of_nat (Suc k)) (wd_run now k wd)"
  by (simp add: wd_run_def)

lemma wd_check_feed_time [simp]:
  "wd_last_feed_ms (wd_check now wd) = wd_last_feed_ms wd" "wd_armed (wd_check now wd) = wd_armed wd"
  by (simp_all add: wd_check_def)

lemma wd_run_keeps:
  "wd_last_feed_ms (wd_run now k wd) = wd_last_feed_ms wd \<and> wd_armed (wd_run now k wd) = wd_armed wd"
  by (induction k) (simp_all add: wd_run_Suc, simp_all add: wd_run_def)

text \<open>
  C12: the watchdog's timing, across the wrap-around of the clock. After feeding it at time \<open>now\<close>, the
  watchdog trips within the next \<open>k\<close> milliseconds if and only if \<open>k\<close> is more than 500.
\<close>

theorem watchdog_trips_exactly:
  assumes "\<not> wd_tripped wd" "k < 2 ^ 32"
  shows "wd_tripped (wd_run now k (wd_feed now wd)) \<longleftrightarrow> 500 < k"
  using assms(2)
proof (induction k)
  case 0
  then show ?case using assms(1) by (simp add: wd_run_def wd_feed_def)
next
  case (Suc k)
  let ?w = "wd_run now k (wd_feed now wd)"
  have f: "wd_armed ?w" "wd_last_feed_ms ?w = now" using wd_run_keeps[of now k "wd_feed now wd"] by (simp_all add: wd_feed_def)
  have "unat (of_nat (Suc k) :: millis) = Suc k" using Suc.prems by (simp only: unat_of_nat) simp
  then have "of_nat (Suc k) > kWatchdogTimeoutMs \<longleftrightarrow> 500 < Suc k"
    by (simp only: word_less_nat_alt limit_defs) simp
  then show ?case using Suc f by (auto simp: wd_run_Suc wd_check_def simp del: of_nat_Suc)
qed

theorem watchdog_trips_exactly_witness:
  "\<not> wd_tripped (wd_run 0xFFFFFFF0 500 (wd_feed 0xFFFFFFF0 watchdog_init)) \<and>
   wd_tripped (wd_run 0xFFFFFFF0 501 (wd_feed 0xFFFFFFF0 watchdog_init))"
  using watchdog_trips_exactly[of watchdog_init 500 "0xFFFFFFF0"] watchdog_trips_exactly[of watchdog_init 501 "0xFFFFFFF0"]
  by (simp add: watchdog_init_def)

end
