(* ===== verification/Mcu_Safety.thy ===== *)
theory Mcu_Safety
  imports Safety_Mcu Sim_Board
begin

text \<open>
  The safety requirements SR-001 to SR-005 and SR-007 of \<open>docs/safety-requirements.md\<close> for the control
  tick of \<open>SafetyMcu\<close>, over every UART and every hardware that satisfy the locales \<open>uart\<close> and
  \<open>actuators\<close>, and for every byte stream the untrusted application processor may send. The locale
  \<open>mcu_env\<close> joins the two interfaces; it is interpreted on the simulated board and transport.
\<close>

section \<open>The environment of the MCU\<close>

locale mcu_env = uart io rx_q tx_q uart_inv + actuators hw duty_of
  for io :: "'u uart_ops" and rx_q tx_q uart_inv and hw :: "'h hardware" and duty_of

interpretation sim_env: mcu_env mcu_side "ring_contents \<circ> app_to_mcu" "ring_contents \<circ> mcu_to_app" transport_inv
  sim_hw "\<lambda>b. mm_duty (sb_motor b)"
  by unfold_locales

lemma finish_state:
  "m_fault (mcu_finish hw io now m) = m_fault (supervise hw now m)"
  "m_inputs (mcu_finish hw io now m) = m_inputs m"
  "m_last_valid_frame_ms (mcu_finish hw io now m) = m_last_valid_frame_ms m"
  "c_motor (mcu_finish hw io now m) = c_motor (snd (actuate hw (supervise hw now m)))"
  "pid_enabled (c_pid (mcu_finish hw io now m)) = pid_enabled (c_pid (supervise hw now m))"
  by (simp_all add: mcu_finish_def case_prod_beta report_simps) (simp_all add: actuate_simps)

lemma fdiv_mono: "0 \<le> c \<Longrightarrow> x \<le> y \<Longrightarrow> fdiv x c \<le> fdiv y c"
  by (simp add: f32_ops b32.rd_mono divide_right_mono)

context mcu_env
begin

text \<open>A tick after a successful sample: the request loop cannot change the sampled inputs.\<close>

lemma tick_sampled:
  assumes "mcu_inv m" "uart_inv (c_uart m)" "read_deci_celsius hw (c_hw m) = (result_ok t, h)"
  shows "\<exists>m1 m'. mcu_tick_1ms hw io now m = Some m' \<and> m' = mcu_finish hw io now m1 \<and>
    m_inputs m1 = sampled hw h t \<and> (m_fault m = FaultNone \<longrightarrow> m_fault m1 = FaultNone) \<and> mcu_inv m1 \<and>
    mcu_inv m' \<and> uart_inv (c_uart m')"
  using mcu_tick_rule[OF assms(1,2), of "\<lambda>k. m_inputs k = sampled hw h t \<and> (m_fault m = FaultNone \<longrightarrow> m_fault k = FaultNone)" hw now]
    mcu_sample_ok[OF assms(3)]
  by (auto simp: handle_frame_fault)

lemma tick_failed:
  assumes "mcu_inv m" "uart_inv (c_uart m)" "\<not> is_ok (fst (read_deci_celsius hw (c_hw m)))"
  shows "\<exists>m1 m'. mcu_tick_1ms hw io now m = Some m' \<and> m' = mcu_finish hw io now m1 \<and>
    m_fault m1 = SensorFailure \<and> mcu_inv m1 \<and> mcu_inv m' \<and> uart_inv (c_uart m')"
  using mcu_tick_rule[OF assms(1,2), of "\<lambda>k. m_fault k = SensorFailure \<and> \<not> m_temp_sensor_ok k" hw now]
    mcu_sample_fail[OF assms(3)]
  by (auto simp: handle_frame_fault can_clear_fault_def)

lemma tick_returns:
  assumes "mcu_inv m" "uart_inv (c_uart m)"
  shows "\<exists>m1 m'. mcu_tick_1ms hw io now m = Some m' \<and> m' = mcu_finish hw io now m1 \<and> mcu_inv m1 \<and>
    mcu_inv m' \<and> uart_inv (c_uart m')"
  using mcu_tick_rule[OF assms, of "\<lambda>_. True" hw now] by auto

lemma speed_guard:
  fixes now :: millis
  assumes "mcu_inv m" "m_inputs m = inp"
  defines "m' \<equiv> mcu_finish hw io now m"
  shows "speed_permitted inp (mc_target (c_motor m')) \<and> 0 \<le> duty_of (c_hw m') \<and>
    duty_of (c_hw m') \<le> fdiv (rpm_f (continuous_cap inp)) 10700"
proof -
  have i: "mcu_inv (supervise hw now m)" "m_inputs (supervise hw now m) = inp"
    using assms(1,2) supervise_inv by simp_all
  have s: "mc_target (c_motor m') \<le> continuous_cap inp" "mc_commanded (c_motor m') \<le> rpm_f (continuous_cap inp)"
    using actuate_speed[OF i(1), of hw] i(2) by (simp_all add: m'_def finish_state)
  have "motor_ctrl_inv (c_motor m')"
    using actuate_inv[OF i(1), of hw] by (simp add: m'_def finish_state mcu_inv_def)
  then show ?thesis
    using duty_range(1)[of "c_motor m'"] fdiv_mono[OF _ s(2), of 10700] s(1) finish_outputs(1)[OF assms(1), of io now]
    by (simp add: cap_permitted m'_def)
qed

lemma heater_guard:
  assumes "mcu_inv m" "0 < heater_power_w hw (c_hw (mcu_finish hw io now m))"
  shows "m_fault m = FaultNone \<and> pid_enabled (c_pid m) \<and> in_lid_closed (m_inputs m) \<and>
    evaluate (m_inputs m) = FaultNone \<and> now - m_last_valid_frame_ms m < kLinkTimeoutMs"
proof -
  have w: "0 < heater_watts (supervise hw now m)" using assms(2) finish_outputs(2)[OF assms(1), of io now] by simp
  then have f: "m_fault (supervise hw now m) = FaultNone" by (auto simp: heater_watts_def split: if_splits)
  note a = supervise_alive[OF f]
  have "pid_enabled (c_pid m)" "in_lid_closed (m_inputs m)"
    using w a(1) by (auto simp: heater_watts_def split: if_splits)
  then show ?thesis using a by (simp add: mcu_off_def)
qed

text \<open>With nothing on the line the request loop only polls.\<close>

lemma tick_silent:
  assumes "mcu_inv m" "uart_inv (c_uart m)" "rx_q (c_uart m) = []"
  shows "\<exists>lk u m1. mcu_tick_1ms hw io now m = Some (mcu_finish hw io now m1) \<and>
    m1 = (mcu_sample hw m)\<lparr>c_link := lk, c_uart := u\<rparr> \<and> mcu_inv m1"
proof -
  have k: "link_inv (c_link m)" using assms(1) by (simp add: mcu_inv_def)
  obtain out lk u lk1 where p: "link_poll io now (c_link m) (c_uart m) = Some (out, lk, u)" "link_inv lk"
    "poll_bytes now (rx_q (c_uart m)) lk1 = (out, lk, rx_q u)"
    using link_poll_spec[OF k assms(2)] by blast
  then have "out = None" using assms(3) by auto
  then have "process_frames hw io now (mcu_sample hw m) = Some ((mcu_sample hw m)\<lparr>c_link := lk, c_uart := u\<rparr>)"
    by (subst process_frames.simps) (simp add: p(1))
  then show ?thesis using mcu_inv_link[OF mcu_sample_inv[OF assms(1)] p(2)] by (auto simp: mcu_tick_1ms_def)
qed

end

section \<open>A concrete machine\<close>

text \<open>The simulated machine at rest with the bowl at a given temperature, for concrete instances.\<close>

definition demo_board :: "f32 \<Rightarrow> sim_board" where
  "demo_board celsius = sb_set_temperature_c celsius (sim_board_init (sconst 0) (sconst 0))"

definition demo_mcu :: "sim_board \<Rightarrow> (sim_board, transport) safety_mcu" where
  "demo_mcu b = mcu_init 0 b transport_init"

lemma demo_mcu_ok [simp]: "mcu_inv (demo_mcu b)" "transport_inv (c_uart (demo_mcu b))" "c_hw (demo_mcu b) = b"
  "m_fault (demo_mcu b) = FaultNone" "m_last_valid_frame_ms (demo_mcu b) = 0"
  unfolding demo_mcu_def by (rule mcu_inv_init) (simp_all add: mcu_init_def transport_inv_init)

lemma demo_read:
  assumes "\<bar>n\<bar> \<le> 2000"
  shows "read_deci_celsius sim_hw (demo_board (of_int n)) = (result_ok (word_of_int (n * 10)), demo_board (of_int n))"
proof -
  have "rnd (of_int n) = of_int n" using assms by (intro b32.rd_exact) simp
  moreover have "rnd (of_int (n * 10)) = of_int (n * 10)" using assms by (intro b32.rd_exact) simp
  then have "rnd (of_int n * 10) = of_int (n * 10)" by simp
  moreover have "trunc (of_int n * 10) = n * 10" using trunc_of_int[of "n * 10"] by simp
  ultimately show ?thesis
    by (simp add: sim_hw_def temp_hal_read_def demo_board_def sb_set_temperature_c_def th_set_temperature_c_def
        sim_board_init_def from_celsius_def f32_ops)
qed

section \<open>The guards\<close>

text \<open>
  C1: SR-001 and SR-002 at every tick. Whatever bytes arrive, the tick returns, and afterwards the
  motor target is permitted with the lid, lock and temperature sampled in this very tick, and the duty
  written to the drive is at most the share of the maximum speed that the cap allows.
\<close>

theorem tick_speed_guard:
  assumes "mcu_env io rx_q tx_q uart_inv hw duty_of" "mcu_inv m" "uart_inv (c_uart m)"
    "read_deci_celsius hw (c_hw m) = (result_ok t, h)"
  shows "\<exists>m'. mcu_tick_1ms hw io now m = Some m' \<and> speed_permitted (sampled hw h t) (mc_target (c_motor m')) \<and>
    0 \<le> duty_of (c_hw m') \<and> duty_of (c_hw m') \<le> fdiv (rpm_f (continuous_cap (sampled hw h t))) 10700"
proof -
  obtain m1 where "mcu_tick_1ms hw io now m = Some (mcu_finish hw io now m1)" "m_inputs m1 = sampled hw h t" "mcu_inv m1"
    using mcu_env.tick_sampled[OF assms, of now] by blast
  then show ?thesis using mcu_env.speed_guard[OF assms(1), of m1 "sampled hw h t" now] by blast
qed

theorem tick_speed_guard_witness:
  "\<exists>m'. mcu_tick_1ms sim_hw mcu_side 1 (demo_mcu (demo_board 80)) = Some m' \<and>
     mm_duty (sb_motor (c_hw m')) \<le> fdiv (rpm_f (continuous_cap (sampled sim_hw (demo_board 80) 800))) 10700"
proof -
  have r: "read_deci_celsius sim_hw (c_hw (demo_mcu (demo_board 80))) = (result_ok 800, demo_board 80)"
    using demo_read[of 80] by simp
  show ?thesis
    using tick_speed_guard[OF sim_env.mcu_env_axioms demo_mcu_ok(1,2) r, of 1] by blast
qed

text \<open>
  C2: the heater at every tick. The tick returns with a power between 0 and 1200 W, and with any power
  at all only if no fault is latched, the heater is enabled with a setpoint between 37.0 and 160.0
  degrees, the lid is closed, the bowl is below 165 degrees, the motor is not stalled and the last
  request is less than five seconds old.
\<close>

theorem tick_heater_guard:
  assumes "mcu_env io rx_q tx_q uart_inv hw duty_of" "mcu_inv m" "uart_inv (c_uart m)"
    "read_deci_celsius hw (c_hw m) = (result_ok t, h)"
  shows "\<exists>m'. mcu_tick_1ms hw io now m = Some m' \<and> 0 \<le> heater_power_w hw (c_hw m') \<and>
    heater_power_w hw (c_hw m') \<le> 1200 \<and>
    (0 < heater_power_w hw (c_hw m') \<longrightarrow> m_fault m' = FaultNone \<and> pid_enabled (c_pid m') \<and>
      370 \<le> sint (pid_target (c_pid m')) \<and> sint (pid_target (c_pid m')) \<le> 1600 \<and>
      lid_is_closed hw h \<and> sint t < 1650 \<and> \<not> motor_stalled hw h \<and> now - m_last_valid_frame_ms m' < 5000)"
proof -
  obtain m1 m' where m1: "mcu_tick_1ms hw io now m = Some m'" "m' = mcu_finish hw io now m1"
    "m_inputs m1 = sampled hw h t" "mcu_inv m1" "mcu_inv m'"
    using mcu_env.tick_sampled[OF assms, of now] by blast
  have a: "actuators hw duty_of" using assms(1) by (simp add: mcu_env_def)
  note p = actuators.finish_outputs(2)[OF a m1(4), of io now, folded m1(2)]
  have r: "0 \<le> heater_power_w hw (c_hw m')" "heater_power_w hw (c_hw m') \<le> 1200"
    unfolding p by (rule heater_watts_range)+
  have "m_fault m' = FaultNone \<and> pid_enabled (c_pid m') \<and> heater_target_ok (c_pid m') \<and>
      lid_is_closed hw h \<and> sint t < 1650 \<and> \<not> motor_stalled hw h \<and> now - m_last_valid_frame_ms m' < 5000"
    if "0 < heater_power_w hw (c_hw m')"
  proof -
    have g: "m_fault m1 = FaultNone" "pid_enabled (c_pid m1)" "in_lid_closed (sampled hw h t)"
      "evaluate (sampled hw h t) = FaultNone" "now - m_last_valid_frame_ms m1 < kLinkTimeoutMs"
      using mcu_env.heater_guard[OF assms(1) m1(4), of now] that unfolding m1(2,3) by simp_all
    then have "supervise hw now m1 = m1" using m1(3) by (simp add: supervise_def not_le)
    then show ?thesis
      using g m1(2,5) to_celsius_less[of 165 t]
      by (simp add: finish_state evaluate_eq_None sampled_def mcu_inv_def limit_defs)
  qed
  then show ?thesis using m1(1) r by (auto simp: heater_target_ok_def)
qed

theorem tick_heater_guard_witness:
  "\<exists>m'. mcu_tick_1ms sim_hw mcu_side 1 (demo_mcu (demo_board 80)) = Some m' \<and>
     heater_power_w sim_hw (c_hw m') \<le> 1200"
proof -
  have r: "read_deci_celsius sim_hw (c_hw (demo_mcu (demo_board 80))) = (result_ok 800, demo_board 80)"
    using demo_read[of 80] by simp
  show ?thesis
    using tick_heater_guard[OF sim_env.mcu_env_axioms demo_mcu_ok(1,2) r, of 1] by blast
qed

text \<open>Ending a tick with a fault leaves every output off.\<close>

lemma finish_faulted:
  assumes "actuators hw duty_of" "mcu_inv m1" "m' = mcu_finish hw io now m1" "mcu_inv m'" "m_fault m' \<noteq> FaultNone"
  shows "mcu_off m' \<and> duty_of (c_hw m') = 0 \<and> heater_power_w hw (c_hw m') = 0"
  using actuators.finish_off[OF assms(1,2), of now io] assms(3-5) by (simp add: finish_state mcu_inv_def)

text \<open>
  C3: SR-003 and SR-004. A tick that samples 165 degrees or more, or a stalled motor, ends with a
  latched fault and every output off: the duty and the heater power on the hardware are zero, motor
  and heater controllers are disabled, whatever requests arrive in the same tick. If no other fault
  was latched before, it is the overtemperature fault, or else the stall fault.
\<close>

theorem tick_trips:
  assumes "mcu_env io rx_q tx_q uart_inv hw duty_of" "mcu_inv m" "uart_inv (c_uart m)"
    "read_deci_celsius hw (c_hw m) = (result_ok t, h)" "1650 \<le> sint t \<or> motor_stalled hw h"
  shows "\<exists>m'. mcu_tick_1ms hw io now m = Some m' \<and> m_fault m' \<noteq> FaultNone \<and>
    (m_fault m = FaultNone \<longrightarrow> m_fault m' = (if 1650 \<le> sint t then Overtemp else MotorStall)) \<and>
    mcu_off m' \<and> duty_of (c_hw m') = 0 \<and> heater_power_w hw (c_hw m') = 0"
proof -
  obtain m1 m' where m1: "mcu_tick_1ms hw io now m = Some m'" "m' = mcu_finish hw io now m1"
    "m_inputs m1 = sampled hw h t" "m_fault m = FaultNone \<longrightarrow> m_fault m1 = FaultNone" "mcu_inv m1" "mcu_inv m'"
    using mcu_env.tick_sampled[OF assms(1-4), of now] by blast
  have a: "actuators hw duty_of" using assms(1) by (simp add: mcu_env_def)
  have e: "evaluate (m_inputs m1) = (if 1650 \<le> sint t then Overtemp else MotorStall)"
    using assms(5) to_celsius_less[of 165 t] by (auto simp: m1(3) evaluate_def sampled_def limit_defs not_less)
  then have f: "m_fault m' = (if m_fault m1 \<noteq> FaultNone then m_fault m1 else if 1650 \<le> sint t then Overtemp else MotorStall)"
    by (simp add: m1(2) finish_state supervise_fault)
  then have "m_fault m' \<noteq> FaultNone" by (simp split: if_splits)
  then show ?thesis using m1(1,4) f finish_faulted[OF a m1(5,2,6)] by auto
qed

theorem tick_trips_witness:
  "\<exists>m'. mcu_tick_1ms sim_hw mcu_side 1 (demo_mcu (demo_board 170)) = Some m' \<and> m_fault m' = Overtemp \<and>
     mm_duty (sb_motor (c_hw m')) = 0 \<and> heater_power_w sim_hw (c_hw m') = 0"
proof -
  have r: "read_deci_celsius sim_hw (c_hw (demo_mcu (demo_board 170))) = (result_ok 1700, demo_board 170)"
    using demo_read[of 170] by simp
  have t: "1650 \<le> sint (1700 :: deci_celsius)" by simp
  show ?thesis
    using tick_trips[OF sim_env.mcu_env_axioms demo_mcu_ok(1,2) r, of 1] t demo_mcu_ok(4)[of "demo_board 170"]
    by auto
qed

text \<open>
  C4: SR-007. A tick in which the bowl temperature cannot be read ends with the sensor fault latched
  and every output off, even if the application sends its stop and set commands in that tick.
\<close>

theorem tick_sensor_failure:
  assumes "mcu_env io rx_q tx_q uart_inv hw duty_of" "mcu_inv m" "uart_inv (c_uart m)"
    "\<not> is_ok (fst (read_deci_celsius hw (c_hw m)))"
  shows "\<exists>m'. mcu_tick_1ms hw io now m = Some m' \<and> m_fault m' = SensorFailure \<and>
    mcu_off m' \<and> duty_of (c_hw m') = 0 \<and> heater_power_w hw (c_hw m') = 0"
proof -
  obtain m1 m' where m1: "mcu_tick_1ms hw io now m = Some m'" "m' = mcu_finish hw io now m1"
    "m_fault m1 = SensorFailure" "mcu_inv m1" "mcu_inv m'"
    using mcu_env.tick_failed[OF assms, of now] by blast
  have a: "actuators hw duty_of" using assms(1) by (simp add: mcu_env_def)
  have "m_fault m' = SensorFailure" by (simp add: m1(2,3) finish_state supervise_fault)
  then show ?thesis using m1(1) finish_faulted[OF a m1(4,2,5)] by simp
qed

theorem tick_sensor_failure_witness:
  "\<exists>m'. mcu_tick_1ms sim_hw mcu_side 1 (demo_mcu (sb_set_temp_sensor_failed True (demo_board 20))) = Some m' \<and>
     m_fault m' = SensorFailure \<and> heater_power_w sim_hw (c_hw m') = 0"
proof -
  let ?b = "sb_set_temp_sensor_failed True (demo_board 20)"
  have r: "\<not> is_ok (fst (read_deci_celsius sim_hw (c_hw (demo_mcu ?b))))"
    by (simp add: sim_hw_def temp_hal_read_def sb_set_temp_sensor_failed_def)
  show ?thesis using tick_sensor_failure[OF sim_env.mcu_env_axioms demo_mcu_ok(1,2) r, of 1] by blast
qed



section \<open>Fault latching\<close>

text \<open>
  C6: fault recovery. Handling a frame leaves a latched fault as it is unless the frame is a well-formed
  motor-stop request and the recovery condition holds: a sensor fault needs a successful temperature
  reading in this tick, an overtemperature fault a bowl below 165 degrees, while stall and link-lost
  faults always recover. Under exactly these conditions the fault is cleared.
\<close>

theorem fault_clears_iff:
  assumes "m_fault m \<in> {Overtemp, MotorStall, SensorFailure, LinkLost}"
  shows "m_fault (handle_frame hw io now f m) =
    (if f_type f = FtRequest \<and> f_msg f = MotorStop \<and> f_len f = 0 \<and>
        (m_fault m = SensorFailure \<longrightarrow> m_temp_sensor_ok m) \<and>
        (m_fault m = Overtemp \<longrightarrow> in_temp_c (m_inputs m) < 165)
     then FaultNone else m_fault m)"
  using assms by (auto simp: handle_frame_fault can_clear_fault_def limit_defs)

theorem fault_clears_iff_witness:
  "m_fault (handle_frame sim_hw mcu_side 1 (frame_init\<lparr>f_msg := MotorStop\<rparr>) ((demo_mcu (demo_board 20))\<lparr>m_fault := MotorStall\<rparr>))
     = FaultNone \<and>
   m_fault (handle_frame sim_hw mcu_side 1 (frame_init\<lparr>f_msg := HeaterOff\<rparr>) ((demo_mcu (demo_board 20))\<lparr>m_fault := MotorStall\<rparr>))
     = MotorStall"
  using fault_clears_iff[of "(demo_mcu (demo_board 20))\<lparr>m_fault := MotorStall\<rparr>" sim_hw mcu_side 1 "frame_init\<lparr>f_msg := MotorStop\<rparr>"]
    fault_clears_iff[of "(demo_mcu (demo_board 20))\<lparr>m_fault := MotorStall\<rparr>" sim_hw mcu_side 1 "frame_init\<lparr>f_msg := HeaterOff\<rparr>"]
  by (simp add: frame_init_def)

text \<open>
  The states of an MCU that has run for any time in any world: ticks at any clock value, and between
  them any change of the hardware and any traffic on the line.
\<close>

inductive mcu_reach :: "'h hardware \<Rightarrow> 'u uart_ops \<Rightarrow> ('u \<Rightarrow> bool) \<Rightarrow> ('h, 'u) safety_mcu \<Rightarrow> bool"
  for hw io uart_inv where
  start: "uart_inv u \<Longrightarrow> mcu_reach hw io uart_inv (mcu_init now h u)"
| tick: "mcu_reach hw io uart_inv m \<Longrightarrow> mcu_tick_1ms hw io now m = Some m' \<Longrightarrow> mcu_reach hw io uart_inv m'"
| world: "mcu_reach hw io uart_inv m \<Longrightarrow> uart_inv u \<Longrightarrow> mcu_reach hw io uart_inv (m\<lparr>c_hw := h, c_uart := u\<rparr>)"

lemma mcu_reach_inv:
  assumes "mcu_env io rx_q tx_q uart_inv hw duty_of" "mcu_reach hw io uart_inv m"
  shows "mcu_inv m \<and> uart_inv (c_uart m)"
  using assms(2)
proof induction
  case (start u now h)
  then show ?case by (simp add: mcu_inv_init) (simp add: mcu_init_def)
next
  case (tick m now m')
  then show ?case using mcu_env.tick_returns[OF assms(1), of m now] by auto
next
  case (world m u h)
  then show ?case by (simp add: mcu_inv_def mcu_off_def)
qed

text \<open>
  C7: in every state an MCU can reach, whatever the application sends and the world does, its next tick
  returns, the commanded speed is within the drive's range, an enabled heater has a setpoint between
  37.0 and 160.0 degrees, and while a fault is latched the motor target and the commanded speed are zero
  and the heater is disabled.
\<close>

theorem mcu_reach_safe:
  assumes "mcu_env io rx_q tx_q uart_inv hw duty_of" "mcu_reach hw io uart_inv m"
  shows "(\<exists>m'. mcu_tick_1ms hw io now m = Some m') \<and>
    0 \<le> mc_commanded (c_motor m) \<and> mc_commanded (c_motor m) \<le> 10700 \<and>
    (pid_enabled (c_pid m) \<longrightarrow> 370 \<le> sint (pid_target (c_pid m)) \<and> sint (pid_target (c_pid m)) \<le> 1600) \<and>
    (m_fault m \<noteq> FaultNone \<longrightarrow> mc_target (c_motor m) = 0 \<and> mc_commanded (c_motor m) = 0 \<and> \<not> pid_enabled (c_pid m))"
proof -
  have i: "mcu_inv m" "uart_inv (c_uart m)" using mcu_reach_inv[OF assms] by simp_all
  obtain m' where "mcu_tick_1ms hw io now m = Some m'" using mcu_env.tick_returns[OF assms(1) i, of now] by blast
  moreover have "mc_target (c_motor m) = 0 \<and> mc_commanded (c_motor m) = 0" if "mcu_off m"
    using that i(1) by (auto simp: mcu_off_def mcu_inv_def motor_active_def motor_ctrl_inv_def word_gt_0)
  ultimately show ?thesis
    using i(1) by (auto simp: mcu_inv_def motor_ctrl_inv_def heater_target_ok_def mcu_off_def)
qed

theorem mcu_reach_safe_witness:
  "\<exists>m'. mcu_tick_1ms sim_hw mcu_side 7 (demo_mcu (demo_board 20)) = Some m'"
proof -
  have "mcu_reach sim_hw mcu_side transport_inv (demo_mcu (demo_board 20))"
    unfolding demo_mcu_def by (rule mcu_reach.start) (rule transport_inv_init)
  then show ?thesis using mcu_reach_safe[OF sim_env.mcu_env_axioms, of "demo_mcu (demo_board 20)" 7] by blast
qed

end
