(* ===== verification/C_Text.thy ===== *)
theory C_Text
  imports Common
begin

text \<open>
  The text functions of the C library the firmware's parsers call. A character string is the list of its
  characters without the terminating zero. Conversions return \<open>None\<close> where the function performs no
  conversion (its end pointer is the start), and otherwise the value, whether the function leaves
  \<open>errno\<close> at zero, and the text behind the end pointer. \<open>long\<close> has 64 bits. An overflowing or an inexact
  subnormal \<open>strtof\<close> result is a range error, as the GNU library has it.
\<close>

section \<open>Characters\<close>

definition is_space :: "char \<Rightarrow> bool" where
  "is_space c \<longleftrightarrow> c = CHR '' '' \<or> 9 \<le> (of_char c :: nat) \<and> (of_char c :: nat) \<le> 13"

definition is_digit :: "char \<Rightarrow> bool" where
  "is_digit c \<longleftrightarrow> 48 \<le> (of_char c :: nat) \<and> (of_char c :: nat) \<le> 57"

definition to_lower :: "char \<Rightarrow> char" where
  "to_lower c = (if 65 \<le> (of_char c :: nat) \<and> (of_char c :: nat) \<le> 90 then char_of (of_char c + 32 :: nat) else c)"

definition is_xdigit :: "char \<Rightarrow> bool" where
  "is_xdigit c \<longleftrightarrow> is_digit c \<or> 97 \<le> (of_char (to_lower c) :: nat) \<and> (of_char (to_lower c) :: nat) \<le> 102"

definition digit_value :: "char \<Rightarrow> nat" where
  "digit_value c = (if is_digit c then of_char c - 48 else of_char (to_lower c) - 87)"

text \<open>The C string in a buffer that may hold further zero bytes.\<close>

definition c_str :: "string \<Rightarrow> string" where
  "c_str s = takeWhile (\<lambda>c. c \<noteq> CHR 0x00) s"

section \<open>Integers\<close>

definition digits_value :: "nat \<Rightarrow> string \<Rightarrow> nat" where
  "digits_value base ds = foldl (\<lambda>n c. base * n + digit_value c) 0 ds"

definition split_sign :: "string \<Rightarrow> bool \<times> string" where
  "split_sign s =
     (case s of
        c # cs \<Rightarrow> if c = CHR ''-'' then (True, cs) else if c = CHR ''+'' then (False, cs) else (False, s)
      | [] \<Rightarrow> (False, s))"

definition c_strtol :: "string \<Rightarrow> (int \<times> bool \<times> string) option" where
  "c_strtol s =
     (let (neg, ds) = split_sign (dropWhile is_space s);
          n = int (digits_value 10 (takeWhile is_digit ds));
          v = (if neg then - n else n)
      in if takeWhile is_digit ds = [] then None
         else Some (v, - (2 ^ 63) \<le> v \<and> v < 2 ^ 63, dropWhile is_digit ds))"

text \<open>\<open>strtoul\<close> and \<open>strtoull\<close> negate the magnitude of a negative number modulo \<open>2 ^ 64\<close>.\<close>

definition c_strtoul :: "string \<Rightarrow> (nat \<times> bool \<times> string) option" where
  "c_strtoul s =
     (let (neg, ds) = split_sign (dropWhile is_space s);
          n = digits_value 10 (takeWhile is_digit ds)
      in if takeWhile is_digit ds = [] then None
         else Some (if neg then (2 ^ 64 - n) mod 2 ^ 64 else n, n < 2 ^ 64, dropWhile is_digit ds))"

section \<open>Floating-point numbers\<close>

datatype float_value = Finite f32 | Infinite | NotANumber

text \<open>Digits with an optional point: the digits, how many of them follow the point, the rest.\<close>

definition scan_significand :: "(char \<Rightarrow> bool) \<Rightarrow> string \<Rightarrow> string \<times> nat \<times> string" where
  "scan_significand dig s =
     (let r = dropWhile dig s
      in case r of
           c # cs \<Rightarrow> if c = CHR ''.''
             then (takeWhile dig s @ takeWhile dig cs, length (takeWhile dig cs), dropWhile dig cs)
             else (takeWhile dig s, 0, r)
         | [] \<Rightarrow> (takeWhile dig s, 0, r))"

text \<open>An optional exponent introduced by the given lower-case letter.\<close>

definition scan_exponent :: "char \<Rightarrow> string \<Rightarrow> int \<times> string" where
  "scan_exponent letter s =
     (case s of
        c # cs \<Rightarrow>
          (let (neg, ds) = split_sign cs; n = int (digits_value 10 (takeWhile is_digit ds))
           in if to_lower c = letter \<and> takeWhile is_digit ds \<noteq> []
              then (if neg then - n else n, dropWhile is_digit ds) else (0, s))
      | [] \<Rightarrow> (0, s))"

definition round_float :: "rat \<Rightarrow> float_value \<times> bool" where
  "round_float q =
     (let r = rnd q
      in if 2 ^ 128 \<le> \<bar>r\<bar> then (Infinite, False)
         else (Finite r, \<not> (\<bar>r\<bar> < 2 powi (- 126) \<and> r \<noteq> q)))"

definition scan_number :: "bool \<Rightarrow> bool \<Rightarrow> string \<Rightarrow> (float_value \<times> bool \<times> string) option" where
  "scan_number hex neg s =
     (let (ds, frac, r) = scan_significand (if hex then is_xdigit else is_digit) s;
          (e, rest) = scan_exponent (if hex then CHR ''p'' else CHR ''e'') r;
          m = of_nat (digits_value (if hex then 16 else 10) ds);
          q = (if hex then m * 2 powi (e - 4 * int frac) else m * 10 powi (e - int frac));
          (v, ok) = round_float (if neg then - q else q)
      in if ds = [] then None else Some (v, ok, rest))"

definition lower_prefix :: "string \<Rightarrow> string \<Rightarrow> bool" where
  "lower_prefix p s \<longleftrightarrow> map to_lower (take (length p) s) = p"

definition is_nan_char :: "char \<Rightarrow> bool" where
  "is_nan_char c \<longleftrightarrow> is_digit c \<or> 97 \<le> (of_char (to_lower c) :: nat) \<and> (of_char (to_lower c) :: nat) \<le> 122 \<or> c = CHR ''_''"

text \<open>The optional parenthesised characters after \<open>nan\<close>.\<close>

definition skip_nan_chars :: "string \<Rightarrow> string" where
  "skip_nan_chars s =
     (case s of
        c # cs \<Rightarrow>
          (case dropWhile is_nan_char cs of
             d # ds \<Rightarrow> if c = CHR ''('' \<and> d = CHR '')'' then ds else s
           | [] \<Rightarrow> s)
      | [] \<Rightarrow> s)"

definition c_strtof :: "string \<Rightarrow> (float_value \<times> bool \<times> string) option" where
  "c_strtof s =
     (let (neg, body) = split_sign (dropWhile is_space s)
      in if lower_prefix ''0x'' body \<and> fst (scan_significand is_xdigit (drop 2 body)) \<noteq> []
         then scan_number True neg (drop 2 body)
         else if lower_prefix ''infinity'' body then Some (Infinite, True, drop 8 body)
         else if lower_prefix ''inf'' body then Some (Infinite, True, drop 3 body)
         else if lower_prefix ''nan'' body then Some (NotANumber, True, skip_nan_chars (drop 3 body))
         else scan_number False neg body)"

section \<open>Streams\<close>

text \<open>
  An open file: the bytes still to be read, whether reading past them fails instead of reporting the end
  of the file, and the end-of-file and error indicators.
\<close>

record c_file =
  fl_bytes :: string
  fl_fails :: bool
  fl_eof :: bool
  fl_error :: bool

definition c_fopen :: "string \<Rightarrow> bool \<Rightarrow> c_file" where
  "c_fopen bytes fails = \<lparr>fl_bytes = bytes, fl_fails = fails, fl_eof = False, fl_error = False\<rparr>"

text \<open>The next bytes up to and including a newline, at most \<open>n\<close>, and the bytes after them.\<close>

fun fgets_scan :: "nat \<Rightarrow> string \<Rightarrow> string \<times> string" where
  "fgets_scan 0 s = ([], s)"
| "fgets_scan (Suc n) [] = ([], [])"
| "fgets_scan (Suc n) (c # cs) =
     (if c = CHR 0x0A then ([c], cs) else case fgets_scan n cs of (a, b) \<Rightarrow> (c # a, b))"

definition c_fgets :: "nat \<Rightarrow> c_file \<Rightarrow> string option \<times> c_file" where
  "c_fgets room f =
     (let (a, b) = fgets_scan (room - 1) (fl_bytes f);
          ended = (b = [] \<and> length a < room - 1 \<and> CHR 0x0A \<notin> set a);
          f' = f\<lparr>fl_bytes := b, fl_eof := fl_eof f \<or> ended \<and> \<not> fl_fails f, fl_error := fl_error f \<or> ended \<and> fl_fails f\<rparr>
      in (if a = [] \<or> ended \<and> fl_fails f then None else Some a, f'))"

section \<open>Printed numbers\<close>

text \<open>The decimal representation of a number, to state what the conversions accept.\<close>

fun show_nat :: "nat \<Rightarrow> string" where
  "show_nat n = (if n < 10 then [char_of (48 + n)] else show_nat (n div 10) @ [char_of (48 + n mod 10)])"

declare show_nat.simps [simp del]

lemma is_digit_char [simp]: "n < 10 \<Longrightarrow> is_digit (char_of (48 + n :: nat))" "n < 10 \<Longrightarrow> digit_value (char_of (48 + n)) = n"
  by (simp_all add: is_digit_def digit_value_def)

lemma show_nat_digits: "\<forall>c \<in> set (show_nat n). is_digit c"
proof (induction n rule: show_nat.induct)
  case (1 n)
  then show ?case by (subst show_nat.simps) auto
qed

lemma show_nat_nonempty [simp]: "show_nat n \<noteq> []"
  by (subst show_nat.simps) simp

lemma digits_value_snoc [simp]: "digits_value b (ds @ [c]) = b * digits_value b ds + digit_value c" "digits_value b [] = 0"
  by (simp_all add: digits_value_def)

lemma digits_value_show [simp]: "digits_value 10 (show_nat n) = n"
proof (induction n rule: show_nat.induct)
  case (1 n)
  have "digits_value 10 [char_of (48 + n)] = n" if "n < 10"
    using digits_value_snoc(1)[of 10 "[]"] that by simp
  with 1 show ?case by (subst show_nat.simps) simp
qed

text \<open>A block of digits in front of a text that does not go on with a digit.\<close>

definition no_digit :: "string \<Rightarrow> bool" where
  "no_digit s \<longleftrightarrow> s = [] \<or> \<not> is_digit (hd s)"

lemma while_digits:
  assumes "\<forall>c \<in> set ds. is_digit c" "no_digit s"
  shows "takeWhile is_digit (ds @ s) = ds" "dropWhile is_digit (ds @ s) = s"
  using assms by (cases s; simp add: no_digit_def takeWhile_append2 dropWhile_append2)+

lemma no_digit_stops [simp]: "no_digit s \<Longrightarrow> takeWhile is_digit s = []" "no_digit s \<Longrightarrow> dropWhile is_digit s = s"
  by (cases s; simp add: no_digit_def)+

lemma digit_not_special:
  assumes "is_digit c"
  shows "\<not> is_space c" "c \<noteq> CHR ''-''" "c \<noteq> CHR ''+''" "c \<noteq> CHR ''.''" "c \<noteq> CHR 0x00" "c \<noteq> CHR 0x0A" "c \<noteq> CHR ''|''"
    "c \<noteq> CHR ''=''" "c \<noteq> CHR '' ''" "c \<noteq> CHR 0x09" "c \<noteq> CHR 0x0D"
  using assms by (auto simp: is_digit_def is_space_def)

lemma split_sign_digits: "ds \<noteq> [] \<Longrightarrow> \<forall>c \<in> set ds. is_digit c \<Longrightarrow> split_sign (dropWhile is_space (ds @ s)) = (False, ds @ s)"
  by (cases ds) (auto simp: split_sign_def digit_not_special)

lemma c_strtol_show: "no_digit s \<Longrightarrow> n < 2 ^ 63 \<Longrightarrow> c_strtol (show_nat n @ s) = Some (int n, True, s)"
  using show_nat_digits[of n]
  by (simp add: c_strtol_def split_sign_digits while_digits)

lemma c_strtoul_show: "no_digit s \<Longrightarrow> n < 2 ^ 64 \<Longrightarrow> c_strtoul (show_nat n @ s) = Some (n, True, s)"
  using show_nat_digits[of n]
  by (simp add: c_strtoul_def Let_def split_sign_digits while_digits)

text \<open>Tenths: a number with one digit behind the point is converted to the nearest \<open>float\<close>.\<close>

definition show_tenths :: "nat \<Rightarrow> string" where
  "show_tenths n = show_nat (n div 10) @ CHR ''.'' # [char_of (48 + n mod 10)]"

lemma lower_prefix_digits:
  assumes "ds \<noteq> []" "\<forall>c \<in> set ds. is_digit c"
  shows "\<not> lower_prefix ''infinity'' (ds @ s)" "\<not> lower_prefix ''inf'' (ds @ s)" "\<not> lower_prefix ''nan'' (ds @ s)"
  using assms by (cases ds; auto simp: lower_prefix_def to_lower_def is_digit_def)+

lemma rnd_tenths_ge: "n \<noteq> 0 \<Longrightarrow> 2 powi (- 4) \<le> rnd (of_nat n / 10)"
proof -
  assume "n \<noteq> 0"
  then have "2 powi (- 4) \<le> (of_nat n / 10 :: rat)" by (simp add: power_int_minus_divide)
  then have "rnd (2 powi (- 4)) \<le> rnd (of_nat n / 10)" by (rule b32.rd_mono)
  then show ?thesis using rnd_pow2[of "- 4"] by simp
qed

lemma c_strtof_tenths:
  assumes "n < 100000" "no_digit s" "s = [] \<or> to_lower (hd s) \<noteq> CHR ''e''"
  shows "c_strtof (show_tenths n @ s) = Some (Finite (rnd (of_nat n / 10)), True, s)"
proof -
  let ?ds = "show_nat (n div 10)" and ?d = "char_of (48 + n mod 10) :: char"
  note dig = show_nat_digits[of "n div 10"]
  have full: "show_tenths n @ s = ?ds @ CHR ''.'' # ?d # s" by (simp add: show_tenths_def)
  have sig: "scan_significand is_digit (?ds @ CHR ''.'' # ?d # s) = (?ds @ [?d], 1, s)"
    using dig assms(2) while_digits[OF dig, of "CHR ''.'' # ?d # s"] while_digits[of "[?d]" s]
    by (simp add: scan_significand_def no_digit_def is_digit_def)
  have exp: "scan_exponent CHR ''e'' s = (0, s)"
    using assms(3) by (cases s) (auto simp: scan_exponent_def split: prod.splits)
  have hex: "\<not> lower_prefix ''0x'' (?ds @ CHR ''.'' # ?d # s)"
  proof (cases ?ds)
    case (Cons a r)
    with dig show ?thesis by (cases r) (auto simp: lower_prefix_def to_lower_def is_digit_def)
  qed simp
  have val: "digits_value 10 (?ds @ [?d]) = n" by simp
  have r: "round_float (of_nat n / 10) = (Finite (rnd (of_nat n / 10)), True)"
  proof -
    have "rnd (of_nat n / 10) \<le> of_int 100000" using assms(1) by (intro b32.rd_le) simp_all
    moreover have "0 \<le> rnd (of_nat n / 10)" by (rule rnd_nonneg) simp
    moreover have "(2::rat) powi (- 126) \<le> 2 powi (- 4)" by (intro power_int_increasing) simp_all
    ultimately show ?thesis using rnd_tenths_ge[of n] by (cases "n = 0") (auto simp: round_float_def Let_def)
  qed
  show ?thesis
    unfolding full c_strtof_def split_sign_digits[OF show_nat_nonempty dig] Let_def prod.case
    using hex lower_prefix_digits[OF show_nat_nonempty dig]
    by (simp add: scan_number_def sig exp val r power_int_minus_divide del: digits_value_snoc)
qed

end
