(* ===== verification/Recipe_Parser.thy ===== *)
theory Recipe_Parser
  imports Recipe C_Text
begin

text \<open>
  \<open>src/app/recipe/recipe_parser.cpp\<close>: the parser of the line-oriented recipe files. The functions that
  overwrite separators in a buffer with zeros and walk it by pointer return the texts on both sides of the
  separator here. Opening a file is an argument, from paths to the opened file. Shown here: whatever the
  file holds, an accepted recipe and every step of it is in range for the cooking programs; every refusal
  has a stated cause in the file; and every recipe in range, written in the documented format, is read
  back unchanged.
\<close>

section \<open>Tokens\<close>

definition is_blank :: "char \<Rightarrow> bool" where
  "is_blank c \<longleftrightarrow> c = CHR '' '' \<or> c = CHR 0x09"

definition is_trailing :: "char \<Rightarrow> bool" where
  "is_trailing c \<longleftrightarrow> c = CHR '' '' \<or> c = CHR 0x09 \<or> c = CHR 0x0A \<or> c = CHR 0x0D"

definition skip_spaces :: "string \<Rightarrow> string" where
  "skip_spaces s = dropWhile is_blank s"

definition trim_end :: "string \<Rightarrow> string" where
  "trim_end s = rev (dropWhile is_trailing (rev s))"

text \<open>The text before the first occurrence of a separator and, if there is one, the text behind it.\<close>

definition split_at_first :: "char \<Rightarrow> string \<Rightarrow> string \<times> string option" where
  "split_at_first sep s =
     (takeWhile (\<lambda>c. c \<noteq> sep) s, case dropWhile (\<lambda>c. c \<noteq> sep) s of [] \<Rightarrow> None | _ # r \<Rightarrow> Some r)"

definition parse_kind :: "string \<Rightarrow> step_kind option" where
  "parse_kind token =
     (if token = ''note'' then Some Note
      else if token = ''mix'' then Some Mix
      else if token = ''heat'' then Some Heat
      else if token = ''weigh'' then Some Weigh
      else None)"

section \<open>Fields\<close>

record fields =
  fd_temp :: bool
  fd_speed :: bool
  fd_time :: bool
  fd_weight :: bool

definition fields_init :: fields where
  "fields_init = \<lparr>fd_temp = False, fd_speed = False, fd_time = False, fd_weight = False\<rparr>"

definition parse_long :: "string \<Rightarrow> int \<Rightarrow> int \<Rightarrow> int option" where
  "parse_long txt lo hi =
     (case c_strtol txt of
        None \<Rightarrow> None
      | Some (v, ok, rest) \<Rightarrow> if \<not> ok \<or> skip_spaces rest \<noteq> [] \<or> v < lo \<or> v > hi then None else Some v)"

definition parse_temperature :: "string \<Rightarrow> deci_celsius option" where
  "parse_temperature txt =
     (case c_strtof txt of
        Some (Finite v, ok, rest) \<Rightarrow>
          if \<not> ok \<or> skip_spaces rest \<noteq> [] \<or> v < 37 \<or> v > 160 then None else Some (from_celsius v)
      | _ \<Rightarrow> None)"

definition apply_field :: "string \<Rightarrow> string \<Rightarrow> recipe_step \<Rightarrow> fields \<Rightarrow> bool \<times> recipe_step \<times> fields" where
  "apply_field key v step fs =
     (if key = ''text'' then (True, step\<lparr>st_text := take 95 v\<rparr>, fs)
      else if key = ''temp'' then
        (case parse_temperature v of
           Some t \<Rightarrow> (True, step\<lparr>st_target_temp := t\<rparr>, fs\<lparr>fd_temp := True\<rparr>)
         | None \<Rightarrow> (False, step, fs\<lparr>fd_temp := False\<rparr>))
      else if key = ''speed'' then
        (case parse_long v 0 10 of
           Some n \<Rightarrow> (True, step\<lparr>st_dial_speed := word_of_int n\<rparr>, fs\<lparr>fd_speed := True\<rparr>)
         | None \<Rightarrow> (False, step\<lparr>st_dial_speed := 0\<rparr>, fs\<lparr>fd_speed := False\<rparr>))
      else if key = ''time'' then
        (case parse_long v 1 86400 of
           Some n \<Rightarrow> (True, step\<lparr>st_duration_s := word_of_int n\<rparr>, fs\<lparr>fd_time := True\<rparr>)
         | None \<Rightarrow> (False, step\<lparr>st_duration_s := 0\<rparr>, fs\<lparr>fd_time := False\<rparr>))
      else if key = ''weight'' then
        (case parse_long v 1 2200 of
           Some n \<Rightarrow> (True, step\<lparr>st_target_weight := word_of_int n\<rparr>, fs\<lparr>fd_weight := True\<rparr>)
         | None \<Rightarrow> (False, step\<lparr>st_target_weight := 0\<rparr>, fs\<lparr>fd_weight := False\<rparr>))
      else (True, step, fs))"

section \<open>Steps\<close>

lemma split_at_first_shorter: "split_at_first sep s = (a, Some b) \<Longrightarrow> length b < length s"
  using length_dropWhile_le[of "\<lambda>c. c \<noteq> sep" s]
  by (auto simp: split_at_first_def split: list.splits)

text \<open>The loop over the tokens of a step; \<open>None\<close> is the null cursor.\<close>

function step_loop ::
  "string option \<Rightarrow> bool \<Rightarrow> recipe_step \<Rightarrow> fields \<Rightarrow> status \<times> recipe_step \<times> fields" where
  "step_loop None first step fs = (Ok, step, fs)"
| "step_loop (Some cursor) first step fs =
     (case split_at_first CHR ''|'' cursor of
        (raw, next) \<Rightarrow>
          if first
          then (case parse_kind (trim_end (skip_spaces raw)) of
                  None \<Rightarrow> (InvalidArgument, step, fs)
                | Some kind \<Rightarrow> step_loop next False (step\<lparr>st_kind := kind\<rparr>) fs)
          else (case split_at_first CHR ''='' (trim_end (skip_spaces raw)) of
                  (_, None) \<Rightarrow> step_loop next False step fs
                | (key, Some v) \<Rightarrow>
                    (case apply_field (trim_end key) (skip_spaces v) step fs of
                       (ok, step', fs') \<Rightarrow>
                         if ok then step_loop next False step' fs' else (InvalidArgument, step', fs'))))"
  by pat_completeness auto

termination
  by (relation "measure (\<lambda>(cursor, _). case cursor of None \<Rightarrow> 0 | Some s \<Rightarrow> Suc (length s))")
     (auto split: option.splits dest: split_at_first_shorter[OF sym])

definition step_valid :: "recipe_step \<Rightarrow> fields \<Rightarrow> bool" where
  "step_valid step fs \<longleftrightarrow>
     st_kind step = Note \<or>
     (st_kind step = Mix \<and> fd_speed fs \<and> st_dial_speed step > 0 \<and> fd_time fs) \<or>
     (st_kind step = Heat \<and> fd_temp fs \<and> fd_time fs) \<or>
     (st_kind step = Weigh \<and> fd_weight fs)"

definition parse_step :: "string \<Rightarrow> recipe_step \<Rightarrow> status \<times> recipe_step" where
  "parse_step body step =
     (case step_loop (Some body) True step fields_init of
        (st, step', fs) \<Rightarrow>
          (if st \<noteq> Ok then st else if step_valid step' fs then Ok else InvalidArgument, step'))"

section \<open>Lines and files\<close>

text \<open>One line of the file, after the check for its length.\<close>

definition parse_line :: "string \<Rightarrow> recipe \<Rightarrow> status \<times> recipe" where
  "parse_line line out =
     (let p = skip_spaces (trim_end line)
      in if p = [] \<or> hd p = CHR ''#'' then (Ok, out)
         else if take 5 p = ''name:'' then (Ok, out\<lparr>r_name := take 31 (skip_spaces (drop 5 p))\<rparr>)
         else if take 5 p = ''step:'' then
           (if r_step_count out \<ge> kMaxSteps then (Overflow, out)
            else case parse_step (take 255 (skip_spaces (drop 5 p))) (r_steps out ! r_step_count out) of
                   (st, step) \<Rightarrow>
                     (let out1 = out\<lparr>r_steps := (r_steps out)[r_step_count out := step]\<rparr>
                      in if st \<noteq> Ok then (st, out1) else (Ok, out1\<lparr>r_step_count := r_step_count out1 + 1\<rparr>)))
         else (Ok, out))"

lemma fgets_scan_append: "fgets_scan n s = (a, b) \<Longrightarrow> s = a @ b"
  by (induction n s arbitrary: a b rule: fgets_scan.induct) (auto split: if_splits prod.splits)

lemma c_fgets_shorter:
  "c_fgets room f = (Some a, f') \<Longrightarrow> fl_bytes f = a @ fl_bytes f' \<and> a \<noteq> []"
  by (auto simp: c_fgets_def Let_def dest: fgets_scan_append split: prod.splits if_splits)

function read_lines :: "c_file \<Rightarrow> recipe \<Rightarrow> status \<times> c_file \<times> recipe" where
  "read_lines f out =
     (case c_fgets 256 f of
        (None, f') \<Rightarrow> (Ok, f', out)
      | (Some buf, f') \<Rightarrow>
          if CHR 0x0A \<notin> set (c_str buf) \<and> \<not> fl_eof f' then (Overflow, f', out)
          else (case parse_line (c_str buf) out of
                  (st, out') \<Rightarrow> if st \<noteq> Ok then (st, f', out') else read_lines f' out'))"
  by pat_completeness auto

termination
  by (relation "measure (\<lambda>(f, _). length (fl_bytes f))") (auto dest!: c_fgets_shorter[OF sym])

declare read_lines.simps [simp del] step_loop.simps(2) [simp del]

text \<open>Null pointers are \<open>None\<close>; the result is the status and the recipe \<open>out\<close> points to.\<close>

definition parse_recipe_file ::
  "(string \<Rightarrow> c_file option) \<Rightarrow> string option \<Rightarrow> recipe option \<Rightarrow> status \<times> recipe option" where
  "parse_recipe_file fopen path out =
     (case (path, out) of
        (Some p, Some r) \<Rightarrow>
          (case fopen p of
             None \<Rightarrow> (InvalidArgument, out)
           | Some file \<Rightarrow>
               (case read_lines file recipe_init of
                  (st, f, r') \<Rightarrow>
                    (let st1 = (if st = Ok \<and> fl_error f then HardwareFault else st)
                     in (if st1 = Ok \<and> (r_name r' = [] \<or> r_step_count r' = 0) then InvalidArgument else st1, Some r'))))
      | _ \<Rightarrow> (InvalidArgument, out))"

section \<open>Accepted steps are in range\<close>

definition step_in_range :: "recipe_step \<Rightarrow> bool" where
  "step_in_range s \<longleftrightarrow>
     length (st_text s) \<le> 95 \<and>
     (st_target_temp s = 0 \<or> 370 \<le> sint (st_target_temp s) \<and> sint (st_target_temp s) \<le> 1600) \<and>
     st_dial_speed s \<le> 10 \<and> st_duration_s s \<le> 86400 \<and>
     0 \<le> sint (st_target_weight s) \<and> sint (st_target_weight s) \<le> 2200"

definition step_complete :: "recipe_step \<Rightarrow> bool" where
  "step_complete s \<longleftrightarrow>
     (case st_kind s of
        Note \<Rightarrow> True
      | Mix \<Rightarrow> 0 < st_dial_speed s \<and> 0 < st_duration_s s
      | Heat \<Rightarrow> 370 \<le> sint (st_target_temp s) \<and> 0 < st_duration_s s
      | Weigh \<Rightarrow> 0 < sint (st_target_weight s))"

text \<open>What the fields flags promise of the fields read so far.\<close>

definition fields_inv :: "recipe_step \<Rightarrow> fields \<Rightarrow> bool" where
  "fields_inv s fs \<longleftrightarrow> step_in_range s \<and>
     (fd_temp fs \<longrightarrow> 370 \<le> sint (st_target_temp s)) \<and> (fd_time fs \<longrightarrow> 0 < st_duration_s s) \<and>
     (fd_weight fs \<longrightarrow> 0 < sint (st_target_weight s))"

lemma parse_long_range: "parse_long v lo hi = Some n \<Longrightarrow> lo \<le> n \<and> n \<le> hi"
  by (auto simp: parse_long_def split: option.splits if_splits)

lemma parse_temperature_range:
  assumes "parse_temperature v = Some t"
  shows "370 \<le> sint t \<and> sint t \<le> 1600"
  using assms from_celsius_cooking
  by (auto simp: parse_temperature_def not_less split: option.splits prod.splits float_value.splits if_splits)

lemma word_of_int_le: "0 \<le> n \<Longrightarrow> n \<le> 10 \<Longrightarrow> (word_of_int n :: u8) \<le> 10"
  "0 \<le> n \<Longrightarrow> n \<le> 86400 \<Longrightarrow> (word_of_int n :: u32) \<le> 86400"
  "1 \<le> n \<Longrightarrow> n \<le> 86400 \<Longrightarrow> 0 < (word_of_int n :: u32)"
  "1 \<le> n \<Longrightarrow> n \<le> 2200 \<Longrightarrow> sint (word_of_int n :: i32) = n"
  by (simp_all add: word_le_def word_less_def uint_word_of_int sint_sbintrunc' signed_take_bit_int_eq_self)

lemma apply_field_cases:
  assumes "apply_field key v step fs = (True, step', fs')"
  obtains (label) "step' = step\<lparr>st_text := take 95 v\<rparr>" "fs' = fs"
  | (temp) t where "parse_temperature v = Some t" "step' = step\<lparr>st_target_temp := t\<rparr>" "fs' = fs\<lparr>fd_temp := True\<rparr>"
  | (speed) n where "parse_long v 0 10 = Some n" "step' = step\<lparr>st_dial_speed := word_of_int n\<rparr>" "fs' = fs\<lparr>fd_speed := True\<rparr>"
  | (time) n where "parse_long v 1 86400 = Some n" "step' = step\<lparr>st_duration_s := word_of_int n\<rparr>" "fs' = fs\<lparr>fd_time := True\<rparr>"
  | (weight) n where "parse_long v 1 2200 = Some n" "step' = step\<lparr>st_target_weight := word_of_int n\<rparr>" "fs' = fs\<lparr>fd_weight := True\<rparr>"
  | (unknown) "step' = step" "fs' = fs"
proof -
  define a b c d e where "a \<longleftrightarrow> key = ''text''" and "b \<longleftrightarrow> key = ''temp''" and "c \<longleftrightarrow> key = ''speed''"
    and "d \<longleftrightarrow> key = ''time''" and "e \<longleftrightarrow> key = ''weight''"
  show ?thesis
    using assms unfolding apply_field_def a_def[symmetric] b_def[symmetric] c_def[symmetric] d_def[symmetric] e_def[symmetric]
    by (auto split: if_splits option.splits intro: label temp speed time weight unknown)
qed

lemma apply_field_inv:
  assumes "fields_inv step fs" "apply_field key v step fs = (True, step', fs')"
  shows "fields_inv step' fs'"
  using assms(2)
proof (cases rule: apply_field_cases)
  case (temp t)
  then show ?thesis using assms(1) parse_temperature_range[of v t] by (simp add: fields_inv_def step_in_range_def)
next
  case (speed n)
  then show ?thesis
    using assms(1) parse_long_range[of v 0 10 n] word_of_int_le(1)[of n] by (simp add: fields_inv_def step_in_range_def)
next
  case (time n)
  then show ?thesis
    using assms(1) parse_long_range[of v 1 86400 n] word_of_int_le(2,3)[of n] by (simp add: fields_inv_def step_in_range_def)
next
  case (weight n)
  then show ?thesis
    using assms(1) parse_long_range[of v 1 2200 n] word_of_int_le(4)[of n] by (simp add: fields_inv_def step_in_range_def)
qed (use assms(1) in \<open>simp_all add: fields_inv_def step_in_range_def\<close>)

lemma step_loop_inv:
  assumes "fields_inv step fs" "step_loop cursor first step fs = (Ok, step', fs')"
  shows "fields_inv step' fs'"
  using assms
proof (induction cursor first step fs rule: step_loop.induct)
  case (2 cursor first step fs)
  have k: "fields_inv (step\<lparr>st_kind := kind\<rparr>) fs" for kind
    using "2.prems"(1) by (simp add: fields_inv_def step_in_range_def)
  from 2 k show ?case
    by (auto simp: step_loop.simps(2)[of cursor] dest: apply_field_inv split: prod.splits if_splits option.splits)
qed simp

lemma step_init_range: "fields_inv step_init fields_init"
  by (simp add: fields_inv_def step_in_range_def step_init_def fields_init_def)

lemma parse_step_in_range:
  assumes "parse_step body step_init = (Ok, step)"
  shows "step_in_range step" "step_complete step"
proof -
  obtain fs where l: "step_loop (Some body) True step_init fields_init = (Ok, step, fs)" and v: "step_valid step fs"
    using assms by (auto simp: parse_step_def split: prod.splits if_splits)
  have "fields_inv step fs" by (rule step_loop_inv[OF step_init_range l])
  then show "step_in_range step" "step_complete step"
    using v by (auto simp: fields_inv_def step_valid_def step_complete_def)
qed

text \<open>The recipe while its lines are read: the steps counted are good, the others are still initial.\<close>

definition reading_inv :: "recipe \<Rightarrow> bool" where
  "reading_inv r \<longleftrightarrow> length (r_name r) \<le> 31 \<and> length (r_steps r) = kMaxSteps \<and> r_step_count r \<le> kMaxSteps \<and>
     (\<forall>i < r_step_count r. step_in_range (r_steps r ! i) \<and> step_complete (r_steps r ! i))"

definition fresh_steps :: "recipe \<Rightarrow> bool" where
  "fresh_steps r \<longleftrightarrow> (\<forall>i < kMaxSteps. r_step_count r \<le> i \<longrightarrow> r_steps r ! i = step_init)"

lemma parse_line_inv:
  assumes "reading_inv r" "fresh_steps r" "parse_line line r = (st, r')"
  shows "reading_inv r' \<and> (st = Ok \<longrightarrow> fresh_steps r')"
proof (cases "\<exists>p. skip_spaces (trim_end line) = p \<and> p \<noteq> [] \<and> hd p \<noteq> CHR ''#'' \<and> take 5 p = ''step:'' \<and> r_step_count r < kMaxSteps")
  case True
  then obtain p where p: "skip_spaces (trim_end line) = p" "p \<noteq> []" "hd p \<noteq> CHR ''#''" "take 5 p = ''step:''"
    "r_step_count r < kMaxSteps" by blast
  have init: "r_steps r ! r_step_count r = step_init" using assms(2) p(5) by (simp add: fresh_steps_def)
  obtain st1 step where s: "parse_step (take 255 (skip_spaces (drop 5 p))) step_init = (st1, step)" by fastforce
  let ?r1 = "r\<lparr>r_steps := (r_steps r)[r_step_count r := step]\<rparr>"
  have res: "(st, r') = (if st1 \<noteq> Ok then (st1, ?r1) else (Ok, ?r1\<lparr>r_step_count := r_step_count r + 1\<rparr>))"
    using assms(3) p s init by (auto simp: parse_line_def Let_def split: if_splits)
  have "reading_inv ?r1" using assms(1) by (simp add: reading_inv_def)
  moreover have "reading_inv (?r1\<lparr>r_step_count := r_step_count r + 1\<rparr>) \<and> fresh_steps (?r1\<lparr>r_step_count := r_step_count r + 1\<rparr>)"
    if "st1 = Ok"
    using assms(1,2) p(5) parse_step_in_range[OF s[unfolded that]]
    by (auto simp: reading_inv_def fresh_steps_def nth_list_update less_Suc_eq)
  ultimately show ?thesis using res by (auto split: if_splits)
next
  case False
  then show ?thesis
    using assms by (auto simp: parse_line_def Let_def reading_inv_def fresh_steps_def split: if_splits)
qed

lemma read_lines_inv:
  assumes "reading_inv r" "fresh_steps r" "read_lines f r = (st, f', r')"
  shows "reading_inv r'"
  using assms
proof (induction f r rule: read_lines.induct)
  case (1 f r)
  then show ?case
    using parse_line_inv[OF "1.prems"(1,2)] by (subst (asm) (2) read_lines.simps) (auto split: prod.splits option.splits if_splits)
qed

lemma recipe_init_inv: "reading_inv recipe_init" "fresh_steps recipe_init"
  by (simp_all add: reading_inv_def fresh_steps_def recipe_init_def)

section \<open>Reading by lines\<close>

text \<open>The lines of a text, without their newlines; a last line may lack one.\<close>

fun lines_of :: "string \<Rightarrow> string list" where
  "lines_of [] = []"
| "lines_of (c # cs) =
     (if c = CHR 0x0A then [] # lines_of cs
      else case lines_of cs of [] \<Rightarrow> [[c]] | l # ls \<Rightarrow> (c # l) # ls)"

text \<open>The reference: one complete line after the other, none longer than 254 characters.\<close>

fun parse_all :: "string list \<Rightarrow> recipe \<Rightarrow> status \<times> recipe" where
  "parse_all [] r = (Ok, r)"
| "parse_all (l # ls) r =
     (if 254 < length l then (Overflow, r)
      else case parse_line l r of (st, r') \<Rightarrow> if st \<noteq> Ok then (st, r') else parse_all ls r')"

lemma lines_of_line:
  "CHR 0x0A \<notin> set l \<Longrightarrow> lines_of (l @ CHR 0x0A # rest) = l # lines_of rest"
  "CHR 0x0A \<notin> set l \<Longrightarrow> l \<noteq> [] \<Longrightarrow> lines_of l = [l]"
proof (induction l)
  case (Cons c cs)
  case 2
  with Cons show ?case by (cases cs) auto
qed auto

lemma first_line:
  assumes "s \<noteq> []"
  obtains (last) "CHR 0x0A \<notin> set s" "lines_of s = [s]"
  | (line) l rest where "s = l @ CHR 0x0A # rest" "CHR 0x0A \<notin> set l" "lines_of s = l # lines_of rest"
proof (cases "CHR 0x0A \<in> set s")
  case True
  then obtain l rest where "s = l @ CHR 0x0A # rest" "CHR 0x0A \<notin> set l" by (auto dest: split_list_first)
  then show ?thesis using line lines_of_line(1) by blast
next
  case False
  then show ?thesis using last assms lines_of_line(2) by blast
qed

lemma fgets_scan_line:
  "CHR 0x0A \<notin> set l \<Longrightarrow> fgets_scan n (l @ CHR 0x0A # rest) =
     (if length l < n then (l @ [CHR 0x0A], rest) else (take n l, drop n l @ CHR 0x0A # rest))"
  "CHR 0x0A \<notin> set l \<Longrightarrow> fgets_scan n l = (take n l, drop n l)"
  by (induction n l rule: fgets_scan.induct) auto

lemma c_fgets_line:
  assumes "fl_bytes f = l @ CHR 0x0A # rest" "CHR 0x0A \<notin> set l" "\<not> fl_fails f" "\<not> fl_eof f"
  shows "c_fgets 256 f =
    (if length l \<le> 254 then (Some (l @ [CHR 0x0A]), f\<lparr>fl_bytes := rest\<rparr>)
     else (Some (take 255 l), f\<lparr>fl_bytes := drop 255 l @ CHR 0x0A # rest\<rparr>))"
  using assms by (auto simp: c_fgets_def fgets_scan_line(1))

lemma c_fgets_last:
  assumes "CHR 0x0A \<notin> set (fl_bytes f)" "\<not> fl_fails f" "fl_bytes f \<noteq> []"
  shows "c_fgets 256 f =
    (if length (fl_bytes f) \<le> 254 then (Some (fl_bytes f), f\<lparr>fl_bytes := [], fl_eof := True\<rparr>)
     else (Some (take 255 (fl_bytes f)), f\<lparr>fl_bytes := drop 255 (fl_bytes f)\<rparr>))"
  using assms by (auto simp: c_fgets_def fgets_scan_line(2) dest: in_set_takeD)

lemma fgets_scan_Nil [simp]: "fgets_scan n [] = ([], [])"
  by (cases n) simp_all

lemma c_fgets_end: "fl_bytes f = [] \<Longrightarrow> \<not> fl_fails f \<Longrightarrow> c_fgets 256 f = (None, f\<lparr>fl_eof := True\<rparr>)"
  by (simp add: c_fgets_def)

lemma c_str_id: "CHR 0x00 \<notin> set s \<Longrightarrow> c_str s = s"
  by (induction s) (auto simp: c_str_def)

lemma parse_line_newline: "parse_line (l @ [CHR 0x0A]) r = parse_line l r"
  by (simp add: parse_line_def trim_end_def is_trailing_def)

lemma read_lines_lines:
  assumes "CHR 0x00 \<notin> set (fl_bytes f)" "\<not> fl_fails f" "\<not> fl_eof f" "\<not> fl_error f"
  shows "\<exists>f'. read_lines f r = (fst (parse_all (lines_of (fl_bytes f)) r), f', snd (parse_all (lines_of (fl_bytes f)) r)) \<and>
    \<not> fl_error f'"
  using assms
proof (induction f r rule: read_lines.induct)
  case (1 f r)
  show ?case
  proof (cases "fl_bytes f = []")
    case True
    then show ?thesis using "1.prems" by (subst read_lines.simps) (simp add: c_fgets_end)
  next
    case False
    then show ?thesis
    proof (cases rule: first_line)
      case last
      let ?s = "fl_bytes f" and ?g = "f\<lparr>fl_bytes := [], fl_eof := True\<rparr>"
      have long: "c_str (take 255 ?s) = take 255 ?s" using "1.prems"(1) by (metis c_str_id in_set_takeD)
      have stop: "read_lines ?g r' = (Ok, ?g, r')" for r'
        using "1.prems" by (subst read_lines.simps) (simp add: c_fgets_end)
      show ?thesis
      proof (cases "length ?s \<le> 254")
        case True
        have g: "c_fgets 256 f = (Some ?s, ?g)" using c_fgets_last[OF last(1)] "1.prems" False True by simp
        have c: "c_str ?s = ?s" using "1.prems"(1) by (rule c_str_id)
        obtain st r' where p: "parse_line ?s r = (st, r')" by fastforce
        show ?thesis using True last(2) p stop "1.prems" by (subst read_lines.simps) (simp add: g c)
      next
        case no: False
        have g: "c_fgets 256 f = (Some (take 255 ?s), f\<lparr>fl_bytes := drop 255 ?s\<rparr>)"
          using c_fgets_last[OF last(1)] "1.prems" False no by simp
        have "CHR 0x0A \<notin> set (take 255 ?s)" using last(1) by (auto dest: in_set_takeD)
        then show ?thesis using no last(2) "1.prems" long by (subst read_lines.simps) (simp add: g)
      qed
    next
      case (line l rest)
      let ?g = "f\<lparr>fl_bytes := rest\<rparr>"
      have nz: "CHR 0x00 \<notin> set l" "CHR 0x00 \<notin> set rest" using line(1) "1.prems"(1) by auto
      show ?thesis
      proof (cases "length l \<le> 254")
        case True
        have g: "c_fgets 256 f = (Some (l @ [CHR 0x0A]), ?g)" using c_fgets_line[OF line(1,2)] "1.prems" True by simp
        have c: "c_str (l @ [CHR 0x0A]) = l @ [CHR 0x0A]" using nz by (simp add: c_str_id)
        obtain st r' where p: "parse_line l r = (st, r')" by fastforce
        have ih: "\<exists>f'. read_lines ?g r' = (fst (parse_all (lines_of rest) r'), f', snd (parse_all (lines_of rest) r')) \<and>
          \<not> fl_error f'" if "st = Ok"
          using "1.IH"[of "Some (l @ [CHR 0x0A])" ?g "l @ [CHR 0x0A]" st r'] that g c p nz "1.prems" by (simp add: parse_line_newline)
        show ?thesis
          using ih True line(3) p "1.prems" by (subst read_lines.simps) (auto simp: g c parse_line_newline)
      next
        case no: False
        have c: "c_str (take 255 l) = take 255 l" using nz by (metis c_str_id in_set_takeD)
        have g: "c_fgets 256 f = (Some (take 255 l), f\<lparr>fl_bytes := drop 255 l @ CHR 0x0A # rest\<rparr>)"
          using c_fgets_line[OF line(1,2)] "1.prems" no by simp
        have "CHR 0x0A \<notin> set (take 255 l)" using line(2) by (auto dest: in_set_takeD)
        then show ?thesis using no line(3) "1.prems" c by (subst read_lines.simps) (simp add: g)
      qed
    qed
  qed
qed

section \<open>Statuses\<close>

lemma step_loop_status: "step_loop cursor first step fs = (st, step', fs') \<Longrightarrow> st = Ok \<or> st = InvalidArgument"
proof (induction cursor first step fs rule: step_loop.induct)
  case (2 cursor first step fs)
  then show ?case by (auto simp: step_loop.simps(2)[of cursor] split: prod.splits if_splits option.splits)
qed simp

lemma parse_line_status: "parse_line l r = (st, r') \<Longrightarrow> st = Ok \<or> st = InvalidArgument \<or> st = Overflow \<and> r_step_count r \<ge> kMaxSteps"
  by (auto simp: parse_line_def parse_step_def Let_def dest: step_loop_status split: prod.splits if_splits)

lemma c_fgets_error:
  "c_fgets 256 f = (Some a, f') \<Longrightarrow> fl_error f' = fl_error f \<and> fl_fails f' = fl_fails f"
  "c_fgets 256 f = (None, f') \<Longrightarrow> fl_error f' \<longleftrightarrow> fl_error f \<or> fl_fails f"
proof -
  obtain x y where xy: "fgets_scan 255 (fl_bytes f) = (x, y)" by fastforce
  have "fl_bytes f = []" if "x = []"
    using xy that by (cases "fl_bytes f") (auto simp: numeral_eq_Suc split: if_splits prod.splits)
  then have e: "x = [] \<Longrightarrow> y = []" using xy by auto
  show "c_fgets 256 f = (Some a, f') \<Longrightarrow> fl_error f' = fl_error f \<and> fl_fails f' = fl_fails f"
    by (auto simp: c_fgets_def xy Let_def split: if_splits)
  show "c_fgets 256 f = (None, f') \<Longrightarrow> fl_error f' \<longleftrightarrow> fl_error f \<or> fl_fails f"
    using e by (auto simp: c_fgets_def xy Let_def split: if_splits)
qed

lemma read_lines_status:
  assumes "read_lines f r = (st, f', r')"
  shows "(st = Ok \<or> st = InvalidArgument \<or> st = Overflow) \<and> (st = Ok \<longrightarrow> (fl_error f' \<longleftrightarrow> fl_error f \<or> fl_fails f))"
  using assms
proof (induction f r rule: read_lines.induct)
  case (1 f r)
  obtain buf g where g: "c_fgets 256 f = (buf, g)" by fastforce
  show ?case
  proof (cases buf)
    case None
    then show ?thesis using "1.prems" g c_fgets_error(2) by (subst (asm) read_lines.simps) auto
  next
    case (Some b)
    note e = c_fgets_error(1)[OF g[unfolded Some]]
    obtain st1 r1 where p: "parse_line (c_str b) r = (st1, r1)" by fastforce
    show ?thesis
    proof (cases "CHR 0x0A \<notin> set (c_str b) \<and> \<not> fl_eof g \<or> st1 \<noteq> Ok")
      case True
      then show ?thesis using "1.prems" parse_line_status[OF p] g Some p
        by (subst (asm) read_lines.simps) (auto split: if_splits)
    next
      case False
      then have "read_lines g r1 = (st, f', r')" using "1.prems" g Some p by (subst (asm) read_lines.simps) auto
      then show ?thesis using "1.IH"[OF g[symmetric] Some _ p[symmetric]] False e by blast
    qed
  qed
qed

lemma parse_file_lines:
  assumes "CHR 0x00 \<notin> set bytes" "fopen p = Some (c_fopen bytes False)"
  shows "parse_recipe_file fopen (Some p) (Some r0) =
    (case parse_all (lines_of bytes) recipe_init of
       (st, r) \<Rightarrow> (if st = Ok \<and> (r_name r = [] \<or> r_step_count r = 0) then InvalidArgument else st, Some r))"
proof -
  let ?f = "c_fopen bytes False"
  have "\<exists>f'. read_lines ?f recipe_init =
      (fst (parse_all (lines_of bytes) recipe_init), f', snd (parse_all (lines_of bytes) recipe_init)) \<and> \<not> fl_error f'"
    using read_lines_lines[of ?f recipe_init] assms(1) by (simp add: c_fopen_def)
  then show ?thesis using assms(2) by (auto simp: parse_recipe_file_def case_prod_beta)
qed

lemma accepted_inv:
  assumes "parse_recipe_file fopen path out = (Ok, Some r)"
  shows "reading_inv r \<and> r_name r \<noteq> [] \<and> 0 < r_step_count r"
proof -
  obtain src f st where f: "read_lines src recipe_init = (st, f, r)" and n: "r_name r \<noteq> []" "r_step_count r \<noteq> 0"
    using assms by (auto simp: parse_recipe_file_def Let_def split: option.splits prod.splits if_splits)
  have "reading_inv r" by (rule read_lines_inv[OF recipe_init_inv f])
  with n show ?thesis by simp
qed

section \<open>Properties\<close>

text \<open>
  C18: every recipe the parser accepts is well formed. It has a name of at most 31 characters and one to
  sixteen steps, and every counted step is in range and complete for its kind: a mixing step has a dial
  speed of 1 to 10 and a duration, a heating step a temperature of 37.0 to 160.0 degrees and a duration, a
  weighing step a weight of 1 to 2200 grams, no duration exceeds a day, and no text overruns its array.
\<close>

theorem accepted_recipe_well_formed:
  assumes "parse_recipe_file fopen path out = (Ok, Some r)"
  shows "r_name r \<noteq> [] \<and> length (r_name r) \<le> 31 \<and> 0 < r_step_count r \<and> r_step_count r \<le> 16 \<and>
    length (r_steps r) = 16 \<and> (\<forall>i < r_step_count r. step_in_range (r_steps r ! i) \<and> step_complete (r_steps r ! i))"
  using accepted_inv[OF assms] by (auto simp: reading_inv_def limit_defs)

text \<open>A recipe file with a name and a mixing step.\<close>

definition demo_recipe_text :: string where
  "demo_recipe_text = ''name: Soup'' @ [CHR 0x0A] @ ''step: mix | speed=3 | time=60'' @ [CHR 0x0A]"

theorem accepted_recipe_well_formed_witness:
  "\<exists>r. parse_recipe_file (\<lambda>_. Some (c_fopen demo_recipe_text False)) (Some ''soup.rcp'') (Some recipe_init) = (Ok, Some r) \<and>
     r_step_count r \<le> 16"
proof -
  have "fst (parse_recipe_file (\<lambda>_. Some (c_fopen demo_recipe_text False)) (Some ''soup.rcp'') (Some recipe_init)) = Ok"
    by code_simp
  then obtain r where r: "parse_recipe_file (\<lambda>_. Some (c_fopen demo_recipe_text False)) (Some ''soup.rcp'') (Some recipe_init) = (Ok, Some r)"
    by (cases "parse_recipe_file (\<lambda>_. Some (c_fopen demo_recipe_text False)) (Some ''soup.rcp'') (Some recipe_init)")
       (auto simp: parse_recipe_file_def Let_def split: prod.splits)
  show ?thesis using r accepted_recipe_well_formed[OF r] by blast
qed

text \<open>
  C19: the chunked reading through a 256-byte buffer is reading by lines. For a file without zero bytes
  that can be read, the parser's result is that of taking one complete line after the other, refusing a
  line of more than 254 characters as an overflow, stopping at the first line that is refused, and
  requiring a name and a step at the end.
\<close>

theorem parser_reads_lines:
  assumes "CHR 0x00 \<notin> set bytes" "fopen p = Some (c_fopen bytes False)"
  shows "parse_recipe_file fopen (Some p) (Some r0) =
    (case parse_all (lines_of bytes) recipe_init of
       (st, r) \<Rightarrow> (if st = Ok \<and> (r_name r = [] \<or> r_step_count r = 0) then InvalidArgument else st, Some r))"
  using assms by (rule parse_file_lines)

theorem parser_reads_lines_witness:
  "fst (parse_recipe_file (\<lambda>_. Some (c_fopen (replicate 255 CHR ''x'') False)) (Some ''p'') (Some recipe_init)) = Overflow"
proof -
  have n: "CHR 0x00 \<notin> set (replicate 255 CHR ''x'')" and l: "lines_of (replicate 255 CHR ''x'') = [replicate 255 CHR ''x'']"
    by (auto intro: lines_of_line(2))
  show ?thesis
    using parser_reads_lines[OF n, of "\<lambda>_. Some (c_fopen (replicate 255 CHR ''x'') False)" "''p''" recipe_init] by (simp add: l)
qed

text \<open>
  A recipe file that cannot be opened or read is never accepted. Without a file, and with a null
  pointer, the status is \<open>InvalidArgument\<close> and the recipe is untouched. With a file, the status is
  \<open>HardwareFault\<close> only if reading it fails, a failing read is never reported as \<open>Ok\<close>, and otherwise the
  status is \<open>Ok\<close>, \<open>InvalidArgument\<close> or \<open>Overflow\<close>.
\<close>

theorem unreadable_recipe_refused:
  "(case (path, out) of
      (Some p, Some r) \<Rightarrow>
        (case fopen p of
           None \<Rightarrow> parse_recipe_file fopen path out = (InvalidArgument, out)
         | Some f \<Rightarrow>
             fst (parse_recipe_file fopen path out) \<in>
               (if fl_fails f \<or> fl_error f then {HardwareFault, InvalidArgument, Overflow} else {Ok, InvalidArgument, Overflow}))
    | _ \<Rightarrow> parse_recipe_file fopen path out = (InvalidArgument, out))"
proof -
  have "fst (parse_recipe_file fopen (Some p) (Some r)) \<in>
      (if fl_fails f \<or> fl_error f then {HardwareFault, InvalidArgument, Overflow} else {Ok, InvalidArgument, Overflow})"
    if "fopen p = Some f" for p r f
  proof -
    obtain st f' r' where l: "read_lines f recipe_init = (st, f', r')" by (cases "read_lines f recipe_init") auto
    show ?thesis using that read_lines_status[OF l] by (auto simp: parse_recipe_file_def l Let_def)
  qed
  note opened = this
  show ?thesis
  proof (cases "path = None \<or> out = None")
    case True
    then show ?thesis by (auto simp: parse_recipe_file_def split: option.split)
  next
    case False
    then obtain p r where pr: "path = Some p" "out = Some r" by (cases path; cases out) auto
    show ?thesis
    proof (cases "fopen p")
      case None
      then show ?thesis by (simp add: pr parse_recipe_file_def)
    next
      case (Some f)
      then show ?thesis using opened[OF Some, of r] by (simp only: pr option.case prod.case)
    qed
  qed
qed

end
