(* ===== verification/Recipe_Library.thy ===== *)
theory Recipe_Library
  imports Recipe_Parser
begin

text \<open>
  \<open>src/app/recipe/recipe_library.cpp\<close>: the recipes of a directory, loaded once into a fixed array of 64, and
  the lookup by name. The directory listing and the opening of files are arguments. Shown here: the library
  holds exactly the first 64 accepted recipe files of the listing, in its order, and a lookup returns the
  first recipe of the given name.
\<close>

section \<open>State and operations\<close>

record recipe_library =
  lib_recipes :: "recipe list"
  lib_count :: nat

definition kMaxRecipes :: nat where [limit_defs]: "kMaxRecipes = 64"

definition library_init :: recipe_library where
  "library_init = \<lparr>lib_recipes = replicate kMaxRecipes recipe_init, lib_count = 0\<rparr>"

definition has_rcp_extension :: "string \<Rightarrow> bool" where
  "has_rcp_extension name \<longleftrightarrow> length name > 4 \<and> drop (length name - 4) name = ''.rcp''"

text \<open>The 512-byte path buffer of \<open>snprintf\<close>.\<close>

definition entry_path :: "string \<Rightarrow> string \<Rightarrow> string" where
  "entry_path dir_path name = take 511 (dir_path @ CHR ''/'' # name)"

text \<open>One entry of the directory: the body of the loop.\<close>

definition load_entry :: "(string \<Rightarrow> c_file option) \<Rightarrow> string \<Rightarrow> string \<Rightarrow> recipe_library \<Rightarrow> recipe_library" where
  "load_entry fopen dir_path name lib =
     (if \<not> has_rcp_extension name then lib
      else if lib_count lib \<ge> kMaxRecipes then lib
      else case parse_recipe_file fopen (Some (entry_path dir_path name)) (Some (lib_recipes lib ! lib_count lib)) of
             (st, out) \<Rightarrow>
               (let lib1 = (case out of None \<Rightarrow> lib | Some r \<Rightarrow> lib\<lparr>lib_recipes := (lib_recipes lib)[lib_count lib := r]\<rparr>)
                in if st \<noteq> Ok then lib1 else lib1\<lparr>lib_count := lib_count lib1 + 1\<rparr>))"

definition load_directory ::
  "(string \<Rightarrow> string list option) \<Rightarrow> (string \<Rightarrow> c_file option) \<Rightarrow> string \<Rightarrow> recipe_library \<Rightarrow> status \<times> recipe_library" where
  "load_directory opendir fopen dir_path lib =
     (case opendir dir_path of
        None \<Rightarrow> (InvalidArgument, lib)
      | Some entries \<Rightarrow> (Ok, fold (load_entry fopen dir_path) entries (lib\<lparr>lib_count := 0\<rparr>)))"

definition library_at :: "nat \<Rightarrow> recipe_library \<Rightarrow> recipe option" where
  "library_at i lib = (if i < lib_count lib then Some (lib_recipes lib ! i) else None)"

definition library_find :: "string \<Rightarrow> recipe_library \<Rightarrow> recipe option" where
  "library_find name lib = find (\<lambda>r. r_name r = name) (take (lib_count lib) (lib_recipes lib))"

section \<open>What the library holds\<close>

text \<open>The recipe an entry contributes, if it is a recipe file that parses.\<close>

definition entry_recipe :: "(string \<Rightarrow> c_file option) \<Rightarrow> string \<Rightarrow> string \<Rightarrow> recipe option" where
  "entry_recipe fopen dir_path name =
     (if has_rcp_extension name
      then case parse_recipe_file fopen (Some (entry_path dir_path name)) (Some recipe_init) of
             (st, out) \<Rightarrow> if st = Ok then out else None
      else None)"

text \<open>The recipes loaded.\<close>

definition held :: "recipe_library \<Rightarrow> recipe list" where
  "held lib = take (lib_count lib) (lib_recipes lib)"

definition library_inv :: "recipe_library \<Rightarrow> bool" where
  "library_inv lib \<longleftrightarrow> length (lib_recipes lib) = kMaxRecipes \<and> lib_count lib \<le> kMaxRecipes"

lemma library_init_inv: "library_inv library_init"
  by (simp add: library_inv_def library_init_def)

text \<open>The parser overwrites the recipe it is given, so the result does not depend on it.\<close>

lemma parse_overwrites:
  "fst (parse_recipe_file fopen (Some p) (Some r)) = fst (parse_recipe_file fopen (Some p) (Some r'))"
  "fopen p \<noteq> None \<Longrightarrow> parse_recipe_file fopen (Some p) (Some r) = parse_recipe_file fopen (Some p) (Some r')"
  "\<exists>x. snd (parse_recipe_file fopen (Some p) (Some r)) = Some x"
  "fst (parse_recipe_file fopen (Some p) (Some r)) = Ok \<Longrightarrow> fopen p \<noteq> None"
  by (auto simp: parse_recipe_file_def Let_def split: option.splits prod.splits)

lemma load_entry_spec:
  assumes "library_inv lib"
  shows "library_inv (load_entry fopen d n lib) \<and>
    held (load_entry fopen d n lib) =
      (case entry_recipe fopen d n of Some r \<Rightarrow> take kMaxRecipes (held lib @ [r]) | None \<Rightarrow> held lib)"
proof (cases "has_rcp_extension n \<and> lib_count lib < kMaxRecipes")
  case False
  then show ?thesis using assms by (auto simp: load_entry_def entry_recipe_def library_inv_def held_def split: option.split prod.split)
next
  case True
  let ?p = "entry_path d n" and ?slot = "lib_recipes lib ! lib_count lib"
  obtain st out where p: "parse_recipe_file fopen (Some ?p) (Some ?slot) = (st, out)" by fastforce
  then obtain x where out: "out = Some x" using parse_overwrites(3)[of fopen ?p ?slot] by auto
  let ?l1 = "lib\<lparr>lib_recipes := (lib_recipes lib)[lib_count lib := x]\<rparr>"
  have le: "load_entry fopen d n lib = (if st \<noteq> Ok then ?l1 else ?l1\<lparr>lib_count := lib_count lib + 1\<rparr>)"
    using True p out by (simp add: load_entry_def)
  have er: "entry_recipe fopen d n = (if st = Ok then Some x else None)"
  proof (cases "st = Ok")
    case True
    then have "fopen ?p \<noteq> None" using parse_overwrites(4)[of fopen ?p ?slot] p by simp
    then show ?thesis
      using parse_overwrites(2)[of fopen ?p recipe_init ?slot] \<open>has_rcp_extension n \<and> _\<close> p out by (simp add: entry_recipe_def)
  next
    case False
    then show ?thesis using parse_overwrites(1)[of fopen ?p recipe_init ?slot] p
      by (auto simp: entry_recipe_def split: prod.split)
  qed
  show ?thesis
    using assms True unfolding le er by (auto simp: library_inv_def held_def take_Suc_snoc)
qed

lemma take_take_append: "take k (take k xs @ ys) = take k (xs @ ys)"
  by (simp add: min_def)

lemma load_entries:
  assumes "library_inv lib"
  shows "library_inv (fold (load_entry fopen d) ns lib) \<and>
    held (fold (load_entry fopen d) ns lib) = take kMaxRecipes (held lib @ List.map_filter (entry_recipe fopen d) ns)"
  using assms
proof (induction ns arbitrary: lib)
  case Nil
  then show ?case by (simp add: library_inv_def held_def map_filter_def)
next
  case (Cons n ns)
  note s = load_entry_spec[OF Cons.prems, of fopen d n]
  show ?case
  proof (cases "entry_recipe fopen d n")
    case None
    then show ?thesis using s Cons.IH[of "load_entry fopen d n lib"] by (simp add: map_filter_def)
  next
    case (Some r)
    then have "held (fold (load_entry fopen d) (n # ns) lib) =
        take kMaxRecipes (take kMaxRecipes (held lib @ [r]) @ List.map_filter (entry_recipe fopen d) ns)"
      using s Cons.IH[of "load_entry fopen d n lib"] by (simp del: take_append)
    then show ?thesis
      using Some s Cons.IH[of "load_entry fopen d n lib"] unfolding take_take_append by (simp add: map_filter_def del: take_append)
  qed
qed

lemma entry_recipe_good: "entry_recipe fopen d n = Some r \<Longrightarrow> reading_inv r \<and> r_name r \<noteq> [] \<and> 0 < r_step_count r"
  using accepted_inv by (auto simp: entry_recipe_def split: if_splits prod.splits)

section \<open>Properties\<close>

text \<open>
  Loading a directory succeeds exactly if it can be listed, and then, whatever the library held
  before, it holds the recipes of the first 64 accepted recipe files, in the order of the listing: a file
  that is refused takes no place. Every recipe in it is well formed. A directory that cannot be listed
  leaves the library as it was.
\<close>

theorem library_holds_accepted:
  assumes "library_inv lib" "load_directory opendir fopen d lib = (st, lib')"
  shows "library_inv lib' \<and>
    (case opendir d of
       None \<Rightarrow> st = InvalidArgument \<and> lib' = lib
     | Some entries \<Rightarrow> st = Ok \<and> held lib' = take 64 (List.map_filter (entry_recipe fopen d) entries) \<and>
         (\<forall>r \<in> set (held lib'). r_name r \<noteq> [] \<and> 0 < r_step_count r \<and> r_step_count r \<le> 16 \<and>
            (\<forall>i < r_step_count r. step_in_range (r_steps r ! i) \<and> step_complete (r_steps r ! i))))"
proof (cases "opendir d")
  case None
  then show ?thesis using assms by (simp add: load_directory_def)
next
  case (Some entries)
  have h: "library_inv lib'" "st = Ok" "held lib' = take 64 (List.map_filter (entry_recipe fopen d) entries)"
    using assms Some load_entries[of "lib\<lparr>lib_count := 0\<rparr>" fopen d entries]
    by (simp_all add: load_directory_def library_inv_def limit_defs held_def)
  have "\<exists>n. entry_recipe fopen d n = Some r" if "r \<in> set (held lib')" for r
  proof -
    have "r \<in> set (List.map_filter (entry_recipe fopen d) entries)" using that unfolding h(3) by (rule in_set_takeD)
    then show ?thesis by (auto simp: map_filter_def)
  qed
  then have "reading_inv r \<and> r_name r \<noteq> [] \<and> 0 < r_step_count r" if "r \<in> set (held lib')" for r
    using entry_recipe_good that by blast
  then show ?thesis using h Some by (simp add: reading_inv_def limit_defs)
qed

theorem library_holds_accepted_witness:
  "let files = (\<lambda>p. if p = ''r/soup.rcp'' then Some (c_fopen demo_recipe_text False) else None);
       lib = snd (load_directory (\<lambda>_. Some [''notes.txt'', ''soup.rcp'']) files ''r'' library_init)
   in library_inv lib \<and> held lib = take 64 (List.map_filter (entry_recipe files ''r'') [''notes.txt'', ''soup.rcp''])"
proof -
  let ?files = "\<lambda>p. if p = ''r/soup.rcp'' then Some (c_fopen demo_recipe_text False) else None"
  let ?dirs = "\<lambda>_ :: string. Some [''notes.txt'', ''soup.rcp'']"
  obtain st lib' where l: "load_directory ?dirs ?files ''r'' library_init = (st, lib')" by fastforce
  show ?thesis unfolding Let_def l using library_holds_accepted[OF library_init_inv l] by simp
qed

text \<open>
  Looking up a name returns the first recipe of that name among the loaded ones, and nothing exactly
  if no loaded recipe has it; what is found can also be reached by its index.
\<close>

theorem library_find_first:
  "case library_find name lib of
     None \<Rightarrow> name \<notin> r_name ` set (held lib)
   | Some r \<Rightarrow> \<exists>i. i < length (held lib) \<and> library_at i lib = Some r \<and> r_name r = name \<and>
       name \<notin> r_name ` set (take i (held lib))"
proof (cases "library_find name lib")
  case None
  then have "name \<notin> r_name ` set (held lib)" by (auto simp: library_find_def held_def find_None_iff)
  then show ?thesis by (simp add: None)
next
  case (Some r)
  then obtain i where "i < length (held lib)" "held lib ! i = r" "r_name r = name" "\<forall>j < i. r_name (held lib ! j) \<noteq> name"
    by (auto simp: library_find_def held_def find_Some_iff)
  moreover from this have "name \<notin> r_name ` set (take i (held lib))" by (auto simp: all_set_conv_all_nth image_iff)
  moreover have "library_at i lib = Some r" using calculation(1,2) by (simp add: library_at_def held_def)
  ultimately show ?thesis using Some by auto
qed

end
