(* ===== verification/System_Sim.thy ===== *)
theory System_Sim
  imports Cooking_Controller Mcu_Safety Recipe_Library
begin

text \<open>
  \<open>src/app/application_runtime.cpp\<close> and \<open>src/system/system_sim.cpp\<close>: the application firmware on its
  1 ms tick, and the whole device, in which the simulated board, the safety MCU and the application
  advance in lockstep over one transport and one board. In the code the MCU and the application hold
  pointers to the board and to the transport; here the shared objects are passed from one to the other in
  the order of the calls. Shown here: from every state the device can reach, the next millisecond
  returns, and the watchdog never trips.
\<close>

section \<open>Application runtime\<close>

record ('u, 'w) app_runtime =
  ar_session :: "('u, 'w) session"
  ar_recipes :: recipe_library
  ar_divider :: u8

definition app_runtime_init :: "'u \<Rightarrow> 'w \<Rightarrow> ('u, 'w) app_runtime" where
  "app_runtime_init u w = \<lparr>ar_session = attach_ota ota_init (session_init (client_init u) w), ar_recipes = library_init,
     ar_divider = 0\<rparr>"

text \<open>The divider part of \<open>tick_1ms\<close>, after the poll.\<close>

definition app_divide ::
  "(millis \<Rightarrow> 'w \<Rightarrow> 'w) \<Rightarrow> 'u uart_ops \<Rightarrow> millis \<Rightarrow> ('u, 'w) app_runtime \<Rightarrow> ('u, 'w) app_runtime" where
  "app_divide dog io now a =
     (let d = ar_divider a + 1
      in if d \<ge> 10 then a\<lparr>ar_divider := 0, ar_session := session_tick_10ms dog io now (ar_session a)\<rparr>
         else a\<lparr>ar_divider := d\<rparr>)"

definition app_tick_1ms ::
  "(millis \<Rightarrow> 'w \<Rightarrow> 'w) \<Rightarrow> 'u uart_ops \<Rightarrow> millis \<Rightarrow> ('u, 'w) app_runtime \<Rightarrow> ('u, 'w) app_runtime option" where
  "app_tick_1ms dog io now a =
     map_option (\<lambda>c. app_divide dog io now (a\<lparr>ar_session := (ar_session a)\<lparr>k_client := c\<rparr>\<rparr>))
       (client_poll io now (k_client (ar_session a)))"

section \<open>The whole device\<close>

record system =
  sys_board :: sim_board
  sys_transport :: transport
  sys_mcu :: "(sim_board, transport) safety_mcu"
  sys_app :: "(transport, watchdog) app_runtime"

definition system_init :: "f32 stream \<Rightarrow> f32 stream \<Rightarrow> system" where
  "system_init scale_noise temp_noise =
     (let b = sim_board_init scale_noise temp_noise
      in \<lparr>sys_board = b, sys_transport = transport_init, sys_mcu = mcu_init (sb_now_ms b) b transport_init,
          sys_app = app_runtime_init transport_init (sb_watchdog b)\<rparr>)"

text \<open>Handing the shared board and transport to the MCU and to the application.\<close>

definition mcu_view :: "sim_board \<Rightarrow> transport \<Rightarrow> (sim_board, transport) safety_mcu \<Rightarrow> (sim_board, transport) safety_mcu" where
  "mcu_view b t m = m\<lparr>c_hw := b, c_uart := t\<rparr>"

definition app_view :: "watchdog \<Rightarrow> transport \<Rightarrow> (transport, watchdog) app_runtime \<Rightarrow> (transport, watchdog) app_runtime" where
  "app_view w t a = a\<lparr>ar_session := (ar_session a)\<lparr>k_watchdog := w, k_client := (k_client (ar_session a))\<lparr>cl_uart := t\<rparr>\<rparr>\<rparr>"

text \<open>One iteration of \<open>step_ms\<close>, and the loop.\<close>

definition system_step_1ms :: "system \<Rightarrow> system option" where
  "system_step_1ms s =
     (let b = sb_step_1ms (sys_board s);
          now = sb_now_ms b
      in Option.bind (mcu_tick_1ms sim_hw mcu_side now (mcu_view b (sys_transport s) (sys_mcu s)))
           (\<lambda>m. Option.bind (app_tick_1ms wd_feed app_side now (app_view (sb_watchdog (c_hw m)) (c_uart m) (sys_app s)))
              (\<lambda>a. Some \<lparr>sys_board = (c_hw m)\<lparr>sb_watchdog := k_watchdog (ar_session a)\<rparr>,
                         sys_transport = cl_uart (k_client (ar_session a)), sys_mcu = m, sys_app = a\<rparr>)))"

primrec system_step_ms :: "nat \<Rightarrow> system \<Rightarrow> system option" where
  "system_step_ms 0 s = Some s"
| "system_step_ms (Suc n) s = Option.bind (system_step_1ms s) (system_step_ms n)"

text \<open>Operations on the shared objects from outside the loop: on the session, and on the client over the transport.\<close>

definition with_session :: "((transport, watchdog) session \<Rightarrow> 'r \<times> (transport, watchdog) session) \<Rightarrow> system \<Rightarrow> 'r \<times> system" where
  "with_session f s =
     (case f (ar_session (sys_app s)) of (r, k) \<Rightarrow> (r, s\<lparr>sys_app := (sys_app s)\<lparr>ar_session := k\<rparr>\<rparr>))"

definition with_client :: "(transport mcu_client \<Rightarrow> 'r \<times> transport mcu_client) \<Rightarrow> system \<Rightarrow> 'r \<times> system" where
  "with_client f s =
     (case f ((k_client (ar_session (sys_app s)))\<lparr>cl_uart := sys_transport s\<rparr>) of
        (r, c) \<Rightarrow> (r, s\<lparr>sys_transport := cl_uart c,
                         sys_app := (sys_app s)\<lparr>ar_session := (ar_session (sys_app s))\<lparr>k_client := c\<rparr>\<rparr>\<rparr>))"

section \<open>What the MCU leaves alone\<close>

text \<open>An observation of the device that no hardware operation of the MCU changes.\<close>

locale bystander =
  fixes hw :: "'h hardware" and obs :: "'h \<Rightarrow> 'o"
  assumes keeps [simp]: "obs (motor_set_duty hw d h) = obs h" "obs (heater_set_power_w hw w h) = obs h"
    "obs (snd (read_deci_celsius hw h)) = obs h" "obs (snd (read_raw hw h)) = obs h" "obs (lid_set_lock hw l h) = obs h"
begin

lemma handle_obs [simp]: "obs (c_hw (handle hw io req inp faulted c)) = obs (c_hw c)"
  by (rule handle_cases[of req hw io inp faulted c]) (simp_all add: handler_defs Let_def case_prod_beta)

lemma handle_frame_obs [simp]: "obs (c_hw (handle_frame hw io now f m)) = obs (c_hw m)"
  by (simp add: handle_frame_def Let_def)

lemma enter_fault_obs [simp]: "obs (c_hw (enter_fault hw code m)) = obs (c_hw m)"
  by (simp add: enter_fault_def case_prod_beta)

lemma sample_obs [simp]: "obs (c_hw (mcu_sample hw m)) = obs (c_hw m)"
  by (simp add: mcu_sample_def sample_inputs_def Let_def case_prod_beta)

lemma finish_obs [simp]: "obs (c_hw (mcu_finish hw io now m)) = obs (c_hw m)"
  by (simp add: mcu_finish_def case_prod_beta report_simps actuate_simps(11) supervise_def Let_def)

lemma tick_obs:
  assumes "uart io rx_q tx_q uart_inv" "mcu_inv m" "uart_inv (c_uart m)"
  shows "\<exists>m'. mcu_tick_1ms hw io now m = Some m' \<and> obs (c_hw m') = obs (c_hw m) \<and> mcu_inv m' \<and> uart_inv (c_uart m')"
  using uart.mcu_tick_rule[OF assms, of "\<lambda>k. obs (c_hw k) = obs (c_hw m)" hw now] by auto

end

definition clock_of :: "sim_board \<Rightarrow> micros \<times> watchdog" where
  "clock_of b = (sb_now_us b, sb_watchdog b)"

interpretation sim_clock: bystander sim_hw clock_of
  by unfold_locales
     (auto simp: sim_hw_def clock_of_def heater_hal_set_power_w_def temp_hal_read_def scale_hal_read_def Let_def split: prod.splits)

section \<open>What the application keeps\<close>

lemma client_inv_frame [simp]:
  "client_inv (clear_command_status c) = client_inv c" "client_inv (clear_fault c) = client_inv c"
  "client_inv (c\<lparr>cl_uart := u\<rparr>) = client_inv c" "client_inv c \<Longrightarrow> client_inv (snd (take_response c))"
  "cl_uart (clear_command_status c) = cl_uart c" "cl_uart (clear_fault c) = cl_uart c" "cl_uart (snd (take_response c)) = cl_uart c"
  by (simp_all add: client_inv_def clear_command_status_def clear_fault_def take_response_def)

lemma session_tick_client:
  assumes u: "uart io rx_q tx_q uart_inv" and c: "client_inv (k_client k)" "uart_inv (cl_uart (k_client k))"
  shows "client_inv (k_client (session_tick_10ms dog io now k)) \<and> uart_inv (cl_uart (k_client (session_tick_10ms dog io now k)))"
proof -
  obtain r k1 where p: "tick_prepare dog now k = (r, k1)" by fastforce
  have "k_client k1 = snd (take_response (k_client k)) \<or> k_client k1 = clear_command_status (snd (take_response (k_client k)))"
    using tick_prepare_alt(2)[of dog now k] p by (auto simp: tick_check_faults_def)
  then have k1: "client_inv (k_client k1)" "uart_inv (cl_uart (k_client k1))" using c by auto
  have pr: "client_inv (k_client (tick_program io now q k1)) \<and> uart_inv (cl_uart (k_client (tick_program io now q k1)))" for q
    using any_program.tick_keeps_inv[OF u k1, of now "now - k_started_ms k1" q]
    by (simp add: tick_program_def Let_def case_prod_beta)
  let ?k2 = "note_failure (note_response r k1)"
  have k2: "client_inv (k_client ?k2)" "uart_inv (cl_uart (k_client ?k2))"
    using k1 by (simp_all add: note_failure_def Let_def)
  have "client_inv (k_client (advance_shutdown io now ?k2)) \<and> uart_inv (cl_uart (k_client (advance_shutdown io now ?k2)))"
    using k2 uart.client_request_spec[OF u k2]
    by (auto simp: advance_shutdown_def client_heater_off_def client_motor_stop_def session_begin_def case_prod_beta
        split: option.split bool.split)
  then show ?thesis
    using k1 pr by (simp add: session_tick_10ms_def p run_stopping_sequence_def split: session_state.split option.split)
qed

lemma client_poll_returns:
  assumes u: "uart io rx_q tx_q uart_inv" and c: "client_inv c" "uart_inv (cl_uart c)"
  shows "\<exists>c'. client_poll io now c = Some c' \<and> client_inv c' \<and> uart_inv (cl_uart c')"
proof -
  note t = uart.client_timeouts_spec[OF u c, of now]
  then obtain c1 where c1: "client_pump io now (client_timeouts io now c) = Some c1" "client_inv c1" "uart_inv (cl_uart c1)"
    using uart.client_pump_rule[OF u, of "client_timeouts io now c" "\<lambda>_. True" now] by auto
  then show ?thesis using uart.client_heartbeat_spec[OF u c1(2,3), of now] by (simp add: client_poll_def)
qed

section \<open>The device invariant\<close>

text \<open>
  An armed watchdog was last fed as many milliseconds ago as the application's divider shows, so fewer
  than ten.
\<close>

definition fed_recently :: "millis \<Rightarrow> watchdog \<Rightarrow> u8 \<Rightarrow> bool" where
  "fed_recently now wd d \<longleftrightarrow> d < 10 \<and> \<not> wd_tripped wd \<and> (wd_armed wd \<longrightarrow> now - wd_last_feed_ms wd = ucast d)"

definition system_inv :: "system \<Rightarrow> bool" where
  "system_inv s \<longleftrightarrow> mcu_inv (sys_mcu s) \<and> client_inv (k_client (ar_session (sys_app s))) \<and> transport_inv (sys_transport s) \<and>
     fed_recently (sb_now_ms (sys_board s)) (sb_watchdog (sys_board s)) (ar_divider (sys_app s))"

lemma system_init_inv: "system_inv (system_init sn tn)"
  by (simp add: system_inv_def system_init_def app_runtime_init_def attach_ota_def session_init_def client_inv_init
      mcu_inv_init transport_inv_init fed_recently_def sim_board_init_def watchdog_init_def Let_def)

lemma u8_below_ten: "d < 10 \<Longrightarrow> d = 0 \<or> d = 1 \<or> d = 2 \<or> d = 3 \<or> d = 4 \<or> d = 5 \<or> d = 6 \<or> d = 7 \<or> d = 8 \<or> d = 9" for d :: u8
  by unat_arith

lemma fed_step:
  assumes "fed_recently now wd d"
  shows "\<not> wd_tripped (wd_check (now + 1) wd)"
    "wd_armed wd \<longrightarrow> now + 1 - wd_last_feed_ms wd = ucast d + 1"
    "d + 1 \<ge> 10 \<or> (d + 1 < 10 \<and> ucast (d + 1) = (ucast d + 1 :: millis))"
proof -
  show lag: "wd_armed wd \<longrightarrow> now + 1 - wd_last_feed_ms wd = ucast d + 1"
    using assms by (auto simp: fed_recently_def algebra_simps)
  have d: "(ucast d + 1 :: millis) \<le> 10"
    using assms u8_below_ten[of d] by (auto simp: fed_recently_def)
  then have "\<not> (ucast d + 1 :: millis) > kWatchdogTimeoutMs" by (simp add: limit_defs not_less) (erule order_trans, simp)
  then have "wd_check (now + 1) wd = wd" if "now + 1 - wd_last_feed_ms wd = ucast d + 1" unfolding wd_check_def that by simp
  then have "wd_check (now + 1) wd = wd" using lag by (cases "wd_armed wd") (blast, simp add: wd_check_def)
  then show "\<not> wd_tripped (wd_check (now + 1) wd)" using assms by (simp add: fed_recently_def)
  show "d + 1 \<ge> 10 \<or> (d + 1 < 10 \<and> ucast (d + 1) = (ucast d + 1 :: millis))"
    using assms u8_below_ten[of d] by (auto simp: fed_recently_def)
qed

lemma sb_step_clock:
  assumes "unat (sb_now_us b) + 1000 < 2 ^ 64"
  shows "sb_now_ms (sb_step_1ms b) = sb_now_ms b + 1"
    "sb_watchdog (sb_step_1ms b) = wd_check (sb_now_ms b + 1) (sb_watchdog b)"
  using to_millis_advance[OF assms] by (simp_all add: sb_step_1ms_def Let_def sb_now_ms_def)

text \<open>One tick of the application: the divider, the watchdog and the client.\<close>

lemma app_tick_spec:
  assumes "client_inv (k_client (ar_session a))" "transport_inv (cl_uart (k_client (ar_session a)))"
    "fed_recently (now - 1) (k_watchdog (ar_session a)) (ar_divider a)"
  shows "\<exists>a'. app_tick_1ms wd_feed app_side now a = Some a' \<and> client_inv (k_client (ar_session a')) \<and>
    transport_inv (cl_uart (k_client (ar_session a'))) \<and> fed_recently now (k_watchdog (ar_session a')) (ar_divider a')"
proof -
  obtain c where c: "client_poll app_side now (k_client (ar_session a)) = Some c" "client_inv c" "transport_inv (cl_uart c)"
    using client_poll_returns[OF app_uart.uart_axioms assms(1,2)] by blast
  let ?k = "(ar_session a)\<lparr>k_client := c\<rparr>"
  note t = session_tick_client[OF app_uart.uart_axioms, of ?k wd_feed now]
  have w: "k_watchdog (session_tick_10ms wd_feed app_side now ?k) = wd_feed now (k_watchdog (ar_session a))"
    by (simp add: session_tick_watchdog)
  note f = fed_step[OF assms(3)]
  show ?thesis
  proof (cases "ar_divider a + 1 \<ge> 10")
    case True
    then show ?thesis
      using c t w assms(3) by (simp add: app_tick_1ms_def app_divide_def fed_recently_def wd_feed_def)
  next
    case False
    then have "ar_divider a + 1 < 10" "ucast (ar_divider a + 1) = (ucast (ar_divider a) + 1 :: millis)" using f(3) by auto
    then show ?thesis using False c f(2) assms(3) by (simp add: app_tick_1ms_def app_divide_def fed_recently_def)
  qed
qed

lemma system_step_inv:
  assumes "system_inv s" "unat (sb_now_us (sys_board s)) + 1000 < 2 ^ 64"
  shows "\<exists>s'. system_step_1ms s = Some s' \<and> system_inv s' \<and>
    unat (sb_now_us (sys_board s')) = unat (sb_now_us (sys_board s)) + 1000"
proof -
  let ?b = "sb_step_1ms (sys_board s)" and ?m = "mcu_view (sb_step_1ms (sys_board s)) (sys_transport s) (sys_mcu s)"
  let ?now = "sb_now_ms ?b"
  have mi: "mcu_inv ?m" "transport_inv (c_uart ?m)"
    using assms(1) by (auto simp: mcu_view_def system_inv_def mcu_inv_def mcu_off_def)
  obtain m where m: "mcu_tick_1ms sim_hw mcu_side ?now ?m = Some m" "clock_of (c_hw m) = clock_of ?b" "mcu_inv m" "transport_inv (c_uart m)"
    using sim_clock.tick_obs[OF mcu_uart.uart_axioms mi, of ?now] by (auto simp: mcu_view_def)
  then have b: "sb_watchdog (c_hw m) = wd_check ?now (sb_watchdog (sys_board s))" "sb_now_ms (c_hw m) = ?now"
    using sb_step_clock[OF assms(2)] by (simp_all add: clock_of_def sb_now_ms_def)
  let ?a = "app_view (sb_watchdog (c_hw m)) (c_uart m) (sys_app s)"
  have fr: "fed_recently (sb_now_ms (sys_board s)) (sb_watchdog (sys_board s)) (ar_divider (sys_app s))"
    using assms(1) by (simp add: system_inv_def)
  have "fed_recently (?now - 1) (sb_watchdog (c_hw m)) (ar_divider (sys_app s))"
    using fr fed_step(1)[OF fr] sb_step_clock(1)[OF assms(2)] b(1) by (simp add: fed_recently_def)
  then obtain a where a: "app_tick_1ms wd_feed app_side ?now ?a = Some a" "client_inv (k_client (ar_session a))"
    "transport_inv (cl_uart (k_client (ar_session a)))" "fed_recently ?now (k_watchdog (ar_session a)) (ar_divider a)"
    using app_tick_spec[of ?a ?now] assms(1) m(4) by (auto simp: app_view_def system_inv_def)
  moreover have "sb_now_us (c_hw m) = sb_now_us (sys_board s) + 1000"
    using m(2) by (simp add: clock_of_def sb_step_1ms_def Let_def)
  then have "unat (sb_now_us (c_hw m)) = unat (sb_now_us (sys_board s)) + 1000"
    using assms(2) by (simp add: unat_word_ariths)
  ultimately show ?thesis
    using m b(2) by (simp add: system_step_1ms_def Let_def system_inv_def sb_now_ms_def)
qed

section \<open>Reachable devices\<close>

text \<open>
  Everything that happens to the device: milliseconds, changes of the simulated world that leave its clock
  and watchdog alone (the user actions of the board), and the application's commands at the current time.
\<close>

inductive system_reach :: "system \<Rightarrow> bool" where
  start: "system_reach (system_init scale_noise temp_noise)"
| step: "system_reach s \<Longrightarrow> unat (sb_now_us (sys_board s)) + 1000 < 2 ^ 64 \<Longrightarrow> system_step_1ms s = Some s' \<Longrightarrow> system_reach s'"
| world: "system_reach s \<Longrightarrow> clock_of b = clock_of (sys_board s) \<Longrightarrow> system_reach (s\<lparr>sys_board := b\<rparr>)"
| recipes: "system_reach s \<Longrightarrow> system_reach (s\<lparr>sys_app := (sys_app s)\<lparr>ar_recipes := lib\<rparr>\<rparr>)"
| program: "system_reach s \<Longrightarrow> system_reach (snd (with_session (start_program p) s))"
| stop: "system_reach s \<Longrightarrow> system_reach (snd (with_session (\<lambda>k. ((), session_stop k)) s))"
| user_next: "system_reach s \<Longrightarrow> system_reach (snd (with_session (\<lambda>k. ((), session_user_next k)) s))"
| ota: "system_reach s \<Longrightarrow> system_reach (snd (with_session (\<lambda>k. ((), k\<lparr>k_ota := ou\<rparr>)) s))"
| request: "system_reach s \<Longrightarrow> now = sb_now_ms (sys_board s) \<Longrightarrow> msg \<in> set named_msg_ids \<Longrightarrow>
    system_reach (snd (with_client (client_request app_side now msg payload len) s))"

lemma system_inv_client: "system_inv s \<Longrightarrow> client_inv (k_client (ar_session (sys_app s)))"
  by (simp add: system_inv_def)

lemma with_session_inv:
  assumes "system_inv s" "client_inv (k_client (snd (f (ar_session (sys_app s)))))"
  shows "system_inv (snd (with_session f s))"
  using assms by (simp add: with_session_def system_inv_def case_prod_beta)

lemma session_ops_client:
  "client_inv (k_client k) \<Longrightarrow> client_inv (k_client (snd (start_program p k)))"
  "client_inv (k_client k) \<Longrightarrow> client_inv (k_client (session_stop k))"
  "client_inv (k_client k) \<Longrightarrow> client_inv (k_client (session_user_next k))"
  by (simp_all add: start_program_def session_stop_def session_user_next_def)

lemma with_client_inv:
  assumes "system_inv s"
  shows "system_inv (snd (with_client (client_request app_side now msg payload len) s))"
proof -
  let ?c = "(k_client (ar_session (sys_app s)))\<lparr>cl_uart := sys_transport s\<rparr>"
  have "client_inv ?c" "transport_inv (cl_uart ?c)" using assms by (simp_all add: system_inv_def)
  from uart.client_request_spec[OF app_uart.uart_axioms this, of now msg payload len] show ?thesis
    using assms by (simp add: with_client_def system_inv_def case_prod_beta)
qed

lemma system_reach_inv: "system_reach s \<Longrightarrow> system_inv s"
proof (induction rule: system_reach.induct)
  case (step s s')
  then show ?case using system_step_inv[of s] by auto
next
  case (world s b)
  then show ?case by (simp add: system_inv_def clock_of_def sb_now_ms_def)
next
  case (recipes s lib)
  then show ?case by (simp add: system_inv_def)
qed (simp_all add: system_init_inv with_session_inv with_client_inv session_ops_client system_inv_client)

lemma system_steps_reach:
  assumes "system_reach s" "unat (sb_now_us (sys_board s)) + n * 1000 < 2 ^ 64"
  shows "\<exists>s'. system_step_ms n s = Some s' \<and> system_reach s' \<and>
    unat (sb_now_us (sys_board s')) = unat (sb_now_us (sys_board s)) + n * 1000"
  using assms
proof (induction n arbitrary: s)
  case (Suc n)
  then have lt: "unat (sb_now_us (sys_board s)) + 1000 < 2 ^ 64" by simp
  obtain s1 where s1: "system_step_1ms s = Some s1" "unat (sb_now_us (sys_board s1)) = unat (sb_now_us (sys_board s)) + 1000"
    using system_step_inv[OF system_reach_inv[OF Suc.prems(1)] lt] by blast
  have "system_reach s1" by (rule system_reach.step[OF Suc.prems(1) lt s1(1)])
  then show ?case using Suc.IH[of s1] s1 Suc.prems(2) by (auto simp: add.assoc)
qed simp

section \<open>Property\<close>

text \<open>
  C13: SR-006 for the whole device. In every state the board, the MCU and the application can reach
  together, whatever the user does, whichever programs and requests are started and whatever happens in
  the simulated world, the next millisecond returns, the watchdog has not tripped after it, and an armed
  watchdog was fed less than 10 ms before. The condition excludes only the overflow of the 64-bit
  microsecond clock after 584,000 years.
\<close>

theorem watchdog_never_trips:
  assumes "system_reach s" "unat (sb_now_us (sys_board s)) + 1000 < 2 ^ 64"
  shows "\<exists>s'. system_step_1ms s = Some s' \<and> \<not> wd_tripped (sb_watchdog (sys_board s')) \<and>
    (wd_armed (sb_watchdog (sys_board s')) \<longrightarrow> sb_now_ms (sys_board s') - wd_last_feed_ms (sb_watchdog (sys_board s')) < 10)"
proof -
  obtain s' where s': "system_step_1ms s = Some s'" "system_inv s'"
    using system_step_inv[OF system_reach_inv[OF assms(1)] assms(2)] by blast
  then have f: "fed_recently (sb_now_ms (sys_board s')) (sb_watchdog (sys_board s')) (ar_divider (sys_app s'))"
    by (simp add: system_inv_def)
  then have "(ucast (ar_divider (sys_app s')) :: millis) < 10" using u8_below_ten[of "ar_divider (sys_app s')"] by (auto simp: fed_recently_def)
  then show ?thesis using s'(1) f by (auto simp: fed_recently_def)
qed

theorem watchdog_never_trips_witness:
  "let s = snd (with_session (start_program (Some (PTurbo (turbo_pulse_new 500)))) (system_init (sconst 0) (sconst 0)))
   in \<exists>s'. system_step_1ms s = Some s' \<and> \<not> wd_tripped (sb_watchdog (sys_board s'))"
proof -
  let ?s0 = "system_init (sconst 0) (sconst 0)"
  let ?s = "snd (with_session (start_program (Some (PTurbo (turbo_pulse_new 500)))) ?s0)"
  have r: "system_reach ?s" by (intro system_reach.program system_reach.start)
  have "sb_now_us (sys_board ?s) = 0" by (simp add: with_session_def case_prod_beta system_init_def Let_def sim_board_init_def)
  then show ?thesis unfolding Let_def using watchdog_never_trips[OF r] by auto
qed

end
