(* ===== verification/Lockstep_Line.thy ===== *)
theory Lockstep_Line
  imports System_Sim
begin

text \<open>
  The line between the MCU and the application in the simulated device, as queues of whole frames: each
  side reads what is there until it is dry, and its writes leave at once. Shown here: the MCU answers the
  requests in the queue one by one, a poll of the client works through the answers, and an accepted
  request is one more frame in the queue.
\<close>

lemma list_all2_members:
  "list_all2 P xs ys \<Longrightarrow> y \<in> set ys \<Longrightarrow> \<exists>x \<in> set xs. P x y"
  "list_all2 P xs ys \<Longrightarrow> x \<in> set xs \<Longrightarrow> \<exists>y \<in> set ys. P x y"
  by (metis in_set_conv_nth list_all2_conv_all_nth)+

section \<open>Frames on a quiet line\<close>

type_synonym wire = "frame_type \<times> u8 \<times> msg_id \<times> u8 list"

definition wire_bytes :: "wire \<Rightarrow> u8 list" where
  "wire_bytes w = (case w of (ft, seq, msg, data) \<Rightarrow> write_frame kMaxFrameSize ft seq msg data)"

definition wire_ok :: "wire \<Rightarrow> bool" where
  "wire_ok w \<longleftrightarrow> (case w of (ft, seq, msg, data) \<Rightarrow> length data \<le> kMaxPayload \<and> wf_msg_id msg)"

definition is_frame :: "wire \<Rightarrow> frame \<Rightarrow> bool" where
  "is_frame w f \<longleftrightarrow> (case w of (ft, seq, msg, data) \<Rightarrow>
     f_type f = ft \<and> f_seq f = seq \<and> f_msg f = msg \<and> unat (f_len f) = length data \<and> payload_bytes f = data)"

definition quiet :: "link \<Rightarrow> bool" where
  "quiet lk \<longleftrightarrow> link_inv lk \<and> \<not> receiving lk \<and> tx_pending lk = []"

lemma length_wire_bytes: "wire_ok (ft, seq, msg, data) \<Longrightarrow> length (wire_bytes (ft, seq, msg, data)) = length data + 10"
  by (simp add: wire_ok_def wire_bytes_def write_frame_length limit_defs)

lemma client_frame_line: "client_frame now f (c\<lparr>cl_link := lk, cl_uart := u\<rparr>) = (client_frame now f c)\<lparr>cl_link := lk, cl_uart := u\<rparr>"
  by (simp add: client_frame_def)

lemma client_frames_line: "fold (client_frame now) fs (c\<lparr>cl_link := lk, cl_uart := u\<rparr>) = (fold (client_frame now) fs c)\<lparr>cl_link := lk, cl_uart := u\<rparr>"
  by (induction fs arbitrary: c) (simp_all add: client_frame_line)

context uart
begin

lemma poll_quiet_none:
  assumes "quiet lk" "uart_inv u" "rx_q u = []"
  shows "\<exists>lk' u'. link_poll io now lk u = Some (None, lk', u') \<and> quiet lk' \<and> uart_inv u' \<and> rx_q u' = [] \<and> tx_q u' = tx_q u"
proof -
  have lk: "link_inv lk" "\<not> receiving lk" "tx_pending lk = []" using assms(1) by (simp_all add: quiet_def)
  obtain out lk1 u1 lk0 n where p: "link_poll io now lk u = Some (out, lk1, u1)" "link_inv lk1" "uart_inv u1"
    "l_parser lk0 = l_parser lk" "poll_bytes now (rx_q u) lk0 = (out, lk1, rx_q u1)"
    "tx_pending lk1 = drop n (tx_pending lk)" "tx_q u1 = tx_q u @ take n (tx_pending lk)"
    using link_poll_spec[OF lk(1) assms(2)] by blast
  then have "out = None" "rx_q u1 = []" "\<not> receiving lk1" "tx_pending lk1 = []" "tx_q u1 = tx_q u"
    using lk(2,3) assms(3) by (auto simp: drop_expired_def receiving_def in_progress_def parser_reset_def split: if_splits)
  then show ?thesis using p(1-3) by (auto simp: quiet_def)
qed

lemma poll_quiet_frame:
  assumes "quiet lk" "uart_inv u" "rx_q u = wire_bytes w @ rest" "wire_ok w"
  shows "\<exists>f lk' u'. link_poll io now lk u = Some (Some f, lk', u') \<and> is_frame w f \<and> quiet lk' \<and> uart_inv u' \<and>
    rx_q u' = rest \<and> tx_q u' = tx_q u"
proof -
  obtain ft seq msg data where w: "w = (ft, seq, msg, data)" using prod_cases4 by blast
  have d: "length data \<le> kMaxPayload" "wf_msg_id msg" using assms(4) by (simp_all add: wire_ok_def w)
  have lk: "link_inv lk" "\<not> receiving lk" "tx_pending lk = []" using assms(1) by (simp_all add: quiet_def)
  have "parser_idle (l_parser lk)" using lk parser_idle_iff by (auto simp: link_inv_def receiving_def)
  then obtain bs b st f q where f: "write_frame kMaxFrameSize ft seq msg data = bs @ [b]"
    "feed_all bs (l_parser lk) = ([], st)" "feed True b st = (Some f, q)" "parser_idle q" "is_frame w f"
    using feed_write_frame[of "l_parser lk" data kMaxFrameSize ft seq msg] d
    by (auto simp: limit_defs wf_msg_id_def is_frame_def w)
  obtain out lk1 u1 lk0 n where p: "link_poll io now lk u = Some (out, lk1, u1)" "link_inv lk1" "uart_inv u1"
    "l_parser lk0 = l_parser lk" "poll_bytes now (rx_q u) lk0 = (out, lk1, rx_q u1)"
    "tx_pending lk1 = drop n (tx_pending lk)" "tx_q u1 = tx_q u @ take n (tx_pending lk)"
    using link_poll_spec[OF lk(1) assms(2)] by blast
  obtain lk2 where "poll_bytes now (bs @ b # rest) lk0 = (Some f, lk2, rest)" "l_parser lk2 = q"
    using poll_bytes_frame[of bs lk0 st b f q now rest] f(2,3) p(4) by auto
  then have "out = Some f" "rx_q u1 = rest" "l_parser lk1 = q" using p(5) assms(3) f(1) by (auto simp: w wire_bytes_def)
  moreover have "\<not> in_progress q" using f(4) by (simp add: parser_idle_def in_progress_def)
  ultimately show ?thesis using p(1-3,6,7) lk(3) f(5) by (auto simp: quiet_def receiving_def)
qed

text \<open>The pump of the client works through a queue of frames.\<close>

lemma client_pump_queue:
  assumes "client_inv c" "uart_inv (cl_uart c)" "quiet (cl_link c)" "rx_q (cl_uart c) = concat (map wire_bytes ws)" "\<forall>w \<in> set ws. wire_ok w"
  shows "\<exists>fs lk u. client_pump io now c = Some ((fold (client_frame now) fs c)\<lparr>cl_link := lk, cl_uart := u\<rparr>) \<and>
    list_all2 is_frame ws fs \<and> quiet lk \<and> uart_inv u \<and> rx_q u = [] \<and> tx_q u = tx_q (cl_uart c)"
  using assms
proof (induction ws arbitrary: c)
  case Nil
  then obtain lk u where p: "link_poll io now (cl_link c) (cl_uart c) = Some (None, lk, u)" "quiet lk" "uart_inv u" "rx_q u = []"
    "tx_q u = tx_q (cl_uart c)"
    using poll_quiet_none by fastforce
  have "client_pump io now c = Some (c\<lparr>cl_link := lk, cl_uart := u\<rparr>)" by (subst client_pump.simps) (simp add: p(1))
  then show ?case using p by (intro exI[of _ "[]"]) auto
next
  case (Cons w ws)
  have "rx_q (cl_uart c) = wire_bytes w @ concat (map wire_bytes ws)" "wire_ok w" using Cons.prems(4,5) by simp_all
  then obtain f lk u where p: "link_poll io now (cl_link c) (cl_uart c) = Some (Some f, lk, u)" "is_frame w f" "quiet lk" "uart_inv u"
    "rx_q u = concat (map wire_bytes ws)" "tx_q u = tx_q (cl_uart c)"
    using poll_quiet_frame[OF Cons.prems(3,2)] by blast
  let ?c = "client_frame now f (c\<lparr>cl_link := lk, cl_uart := u\<rparr>)"
  have "client_inv ?c" using client_frame_inv[OF client_inv_link[OF Cons.prems(1)]] p(3) by (simp add: quiet_def)
  then obtain fs lk' u' where r: "client_pump io now ?c = Some ((fold (client_frame now) fs ?c)\<lparr>cl_link := lk', cl_uart := u'\<rparr>)"
    "list_all2 is_frame ws fs" "quiet lk'" "uart_inv u'" "rx_q u' = []" "tx_q u' = tx_q (cl_uart ?c)"
    using Cons.IH[of ?c] p Cons.prems(5) by auto
  have "client_pump io now c = client_pump io now ?c" by (subst client_pump.simps) (simp add: p(1))
  also have "\<dots> = Some ((fold (client_frame now) (f # fs) c)\<lparr>cl_link := lk', cl_uart := u'\<rparr>)"
    by (simp add: r(1)[unfolded client_frame_line client_frames_line] client_frame_line)
  finally show ?case using p(2,6) r by (intro exI[of _ "f # fs"] exI[of _ lk'] exI[of _ u']) simp
qed

end


context roomy_uart
begin

text \<open>Sending over a quiet link with room on the line.\<close>

lemma link_send_quiet:
  assumes "quiet lk" "uart_inv u" "unat len \<le> kMaxPayload" "payload = None \<longrightarrow> len = 0" "kMaxFrameSize \<le> tx_room u"
  shows "\<exists>lk' u'. link_send io ft seq msg payload len lk u = (Ok, lk', u') \<and> quiet lk' \<and> uart_inv u' \<and> rx_q u' = rx_q u \<and>
    tx_q u' = tx_q u @ wire_bytes (ft, seq, msg, bytes_at payload len)"
proof -
  have lk: "link_inv lk" "tx_pending lk = []" "\<not> receiving lk" using assms(1) by (simp_all add: quiet_def)
  have room: "\<not> (len > 0 \<and> payload = None)" "length (tx_pending lk) + kHeaderSize + unat len + kCrcSize \<le> kTxCapacity"
    "length (tx_pending lk) + kMaxFrameSize \<le> tx_room u"
    using assms(3-5) lk(2) by (auto simp: limit_defs)
  obtain lk' u' where s: "link_send io ft seq msg payload len lk u = (Ok, lk', u')" "link_inv lk'" "uart_inv u'" "tx_pending lk' = []"
    "rx_q u' = rx_q u" "tx_q u' = tx_q u @ write_frame kMaxFrameSize ft seq msg (bytes_at payload len)"
    using link_send_room[OF lk(1) assms(2,3) room, of ft seq msg] lk(2) by auto
  moreover have "l_parser lk' = l_parser lk" using link_send_spec[OF lk(1) assms(2), of ft seq msg payload len] s(1) by auto
  ultimately show ?thesis using lk(3) by (simp add: quiet_def receiving_def wire_bytes_def)
qed

end

section \<open>Replies\<close>

text \<open>The reply to an open request, among other frames.\<close>

definition replies :: "frame \<Rightarrow> 'u mcu_client \<Rightarrow> bool" where
  "replies f c \<longleftrightarrow> (f_type f = FtResponse \<or> f_type f = FtNack) \<and> f_msg f = cl_pending_msg_id c \<and> f_seq f = cl_pending_seq c"

definition request_state :: "'u mcu_client \<Rightarrow> _" where
  "request_state c = (cl_waiting c, cl_response_ready c, cl_response c, cl_last_command_status c)"

lemma client_frame_cases:
  "cl_waiting c \<and> replies f c \<and> client_frame now f c = c\<lparr>cl_response := f, cl_response_ready := True, cl_waiting := False,
     cl_last_command_status := (if f_type f = FtResponse then Ok else ProtocolError)\<rparr> \<or>
   \<not> (cl_waiting c \<and> replies f c) \<and> request_state (client_frame now f c) = request_state c"
  by (cases "f_type f") (auto simp: client_frame_def replies_def request_state_def)

lemma client_frames_keep [simp]:
  "cl_link (fold (client_frame now) fs c) = cl_link c" "cl_uart (fold (client_frame now) fs c) = cl_uart c"
  "cl_request_started_ms (fold (client_frame now) fs c) = cl_request_started_ms c"
  "cl_last_tx_ms (fold (client_frame now) fs c) = cl_last_tx_ms c"
  "cl_pending_seq (fold (client_frame now) fs c) = cl_pending_seq c"
  "cl_pending_msg_id (fold (client_frame now) fs c) = cl_pending_msg_id c"
  "cl_next_seq (fold (client_frame now) fs c) = cl_next_seq c" "cl_retried (fold (client_frame now) fs c) = cl_retried c"
  by (induction fs arbitrary: c) (simp_all add: client_frame_def)

lemma client_frames_inv: "client_inv c \<Longrightarrow> client_inv (fold (client_frame now) fs c)"
  by (induction fs arbitrary: c) (simp_all add: client_frame_inv)

lemma client_frames_idle: "\<not> cl_waiting c \<Longrightarrow> request_state (fold (client_frame now) fs c) = request_state c"
proof (induction fs arbitrary: c)
  case (Cons f fs)
  have s: "request_state (client_frame now f c) = request_state c" using Cons.prems client_frame_cases[of c f now] by blast
  then have "\<not> cl_waiting (client_frame now f c)" using Cons.prems by (simp add: request_state_def)
  then show ?case using Cons.IH s by simp
qed simp

lemma client_frames_replied:
  assumes "cl_waiting c" "\<exists>f \<in> set fs. replies f c"
  shows "\<exists>f \<in> set fs. replies f c \<and> request_state (fold (client_frame now) fs c) =
    (False, True, f, if f_type f = FtResponse then Ok else ProtocolError)"
  using assms
proof (induction fs arbitrary: c)
  case (Cons f fs)
  let ?c = "client_frame now f c"
  show ?case
  proof (cases "replies f c")
    case True
    then have c: "?c = c\<lparr>cl_response := f, cl_response_ready := True, cl_waiting := False,
        cl_last_command_status := (if f_type f = FtResponse then Ok else ProtocolError)\<rparr>"
      using client_frame_cases[of c f now] Cons.prems(1) by blast
    then have "request_state (fold (client_frame now) fs ?c) = request_state ?c" by (intro client_frames_idle) simp
    then show ?thesis using True by (simp add: c request_state_def)
  next
    case False
    then have s: "request_state ?c = request_state c" using client_frame_cases[of c f now] by blast
    have k: "replies g ?c = replies g c" for g using client_frames_keep(5,6)[of now "[f]" c] by (simp add: replies_def)
    have "cl_waiting ?c" "\<exists>f \<in> set fs. replies f ?c"
      using Cons.prems False s by (auto simp: request_state_def k)
    from Cons.IH[OF this] show ?thesis by (auto simp: k)
  qed
qed simp

section \<open>Requests and polls of the application\<close>

text \<open>
  The client over a quiet line: the frames on their way to the MCU, and nothing on its way to the client.
\<close>

definition client_line :: "wire list \<Rightarrow> transport mcu_client \<Rightarrow> bool" where
  "client_line ws c \<longleftrightarrow> client_inv c \<and> transport_inv (cl_uart c) \<and> quiet (cl_link c) \<and>
     ring_contents (mcu_to_app (cl_uart c)) = [] \<and> ring_contents (app_to_mcu (cl_uart c)) = concat (map wire_bytes ws)"

text \<open>
  What is on its way between two milliseconds: at most one heartbeat and the open request, which was sent
  in the current millisecond.
\<close>

definition heartbeats :: "wire list \<Rightarrow> bool" where
  "heartbeats ws \<longleftrightarrow> ws = [] \<or> (\<exists>seq. ws = [(FtRequest, seq, Ping, [])])"

definition flight :: "millis \<Rightarrow> wire list \<Rightarrow> 'u mcu_client \<Rightarrow> bool" where
  "flight now ws c \<longleftrightarrow> cl_last_command_status c \<noteq> Timeout \<and> \<not> cl_retried c \<and>
     (if cl_waiting c
      then cl_sent_at_ms c = now \<and> cl_request_started_ms c = now \<and>
        (\<exists>pings data. heartbeats pings \<and> ws = pings @ [(FtRequest, cl_pending_seq c, cl_pending_msg_id c, data)] \<and>
           wire_ok (FtRequest, cl_pending_seq c, cl_pending_msg_id c, data))
      else heartbeats ws)"

lemma wf_ping: "wf_msg_id Ping" by (rule wf_named) (simp add: named_msg_ids_def)

lemma heartbeats_ok: "heartbeats ws \<Longrightarrow> \<forall>w \<in> set ws. wire_ok w \<and> fst w = FtRequest" "heartbeats ws \<Longrightarrow> length (concat (map wire_bytes ws)) \<le> 10"
  by (auto simp: heartbeats_def wire_ok_def wf_ping wire_bytes_def write_frame_length limit_defs)

lemma flight_ok:
  assumes "flight now ws c"
  shows "\<forall>w \<in> set ws. wire_ok w \<and> fst w = FtRequest" "length ws \<le> 2" "length (concat (map wire_bytes ws)) \<le> 270"
proof -
  obtain pings where "heartbeats pings" "ws = pings \<or> (\<exists>seq msg data. ws = pings @ [(FtRequest, seq, msg, data)] \<and> wire_ok (FtRequest, seq, msg, data))"
    using assms by (auto simp: flight_def split: if_splits)
  then show "\<forall>w \<in> set ws. wire_ok w \<and> fst w = FtRequest" "length ws \<le> 2" "length (concat (map wire_bytes ws)) \<le> 270"
    using heartbeats_ok[of pings]
    by (auto simp: length_wire_bytes) (auto simp: heartbeats_def wire_ok_def limit_defs)
qed

lemma client_send_line:
  assumes "client_line ws c" "length (concat (map wire_bytes ws)) \<le> 3000" "unat len \<le> kMaxPayload" "payload = None \<longrightarrow> len = 0"
  shows "\<exists>lk u. client_send app_side seq msg payload len c = (Ok, c\<lparr>cl_link := lk, cl_uart := u\<rparr>) \<and>
    client_line (ws @ [(FtRequest, seq, msg, bytes_at payload len)]) (c\<lparr>cl_link := lk, cl_uart := u\<rparr>)"
proof -
  have c: "quiet (cl_link c)" "transport_inv (cl_uart c)" "client_inv c"
    "ring_contents (mcu_to_app (cl_uart c)) = []" "ring_contents (app_to_mcu (cl_uart c)) = concat (map wire_bytes ws)"
    using assms(1) by (simp_all add: client_line_def)
  have room: "kMaxFrameSize \<le> 4096 - length (ring_contents (app_to_mcu (cl_uart c)))" using assms(2) c(5) by (simp add: limit_defs)
  obtain lk u where s: "link_send app_side FtRequest seq msg payload len (cl_link c) (cl_uart c) = (Ok, lk, u)" "quiet lk"
    "transport_inv u" "ring_contents (mcu_to_app u) = ring_contents (mcu_to_app (cl_uart c))"
    "ring_contents (app_to_mcu u) = ring_contents (app_to_mcu (cl_uart c)) @ wire_bytes (FtRequest, seq, msg, bytes_at payload len)"
    using app_uart.link_send_quiet[OF c(1,2) assms(3,4) room, of FtRequest seq msg] by auto
  then show ?thesis
    using c(3-5) by (intro exI[of _ lk] exI[of _ u]) (simp add: client_send_def client_line_def client_inv_def quiet_def)
qed

text \<open>A request over a quiet line is refused without effect or on its way.\<close>

definition request_fits :: "u8 list option \<Rightarrow> u16 \<Rightarrow> 'u mcu_client \<Rightarrow> bool" where
  "request_fits payload len c \<longleftrightarrow> \<not> cl_waiting c \<and> \<not> cl_response_ready c \<and> unat len \<le> kMaxPayload \<and> (payload = None \<longrightarrow> len = 0)"

lemma client_request_line:
  assumes "client_line ws c" "length (concat (map wire_bytes ws)) \<le> 3000"
  shows "if request_fits payload len c
    then \<exists>lk u buf. client_request app_side now msg payload len c = (Ok, c\<lparr>cl_pending_seq := cl_next_seq c, cl_next_seq := cl_next_seq c + 1,
        cl_link := lk, cl_uart := u, cl_waiting := True, cl_pending_msg_id := msg, cl_response_ready := False,
        cl_sent_at_ms := now, cl_request_started_ms := now, cl_last_tx_ms := now, cl_retried := False,
        cl_last_command_status := Ok, cl_pending_payload := buf, cl_pending_payload_len := len\<rparr>) \<and>
      client_line (ws @ [(FtRequest, cl_next_seq c, msg, bytes_at payload len)]) (snd (client_request app_side now msg payload len c))
    else snd (client_request app_side now msg payload len c) = c"
proof (cases "request_fits payload len c")
  case True
  then have k: "cl_waiting c = False" "cl_response_ready c = False" "(unat len > kMaxPayload \<or> (len > 0 \<and> payload = None)) = False"
    "unat len \<le> kMaxPayload" "payload = None \<longrightarrow> len = 0"
    by (auto simp: request_fits_def)
  let ?c1 = "c\<lparr>cl_pending_seq := cl_next_seq c, cl_next_seq := cl_next_seq c + 1\<rparr>"
  have l: "client_line ws ?c1" using assms(1) by (simp add: client_line_def client_inv_def)
  obtain lk u where s: "client_send app_side (cl_next_seq c) msg payload len ?c1 = (Ok, ?c1\<lparr>cl_link := lk, cl_uart := u\<rparr>)"
    "client_line (ws @ [(FtRequest, cl_next_seq c, msg, bytes_at payload len)]) (?c1\<lparr>cl_link := lk, cl_uart := u\<rparr>)"
    using client_send_line[OF l assms(2) k(4,5)] by blast
  define buf where "buf = (if len > 0 then blit (cl_pending_payload c) 0 (bytes_at payload len) else cl_pending_payload c)"
  have e: "client_request app_side now msg payload len c = (Ok, c\<lparr>cl_pending_seq := cl_next_seq c, cl_next_seq := cl_next_seq c + 1,
        cl_link := lk, cl_uart := u, cl_waiting := True, cl_pending_msg_id := msg, cl_response_ready := False,
        cl_sent_at_ms := now, cl_request_started_ms := now, cl_last_tx_ms := now, cl_retried := False,
        cl_last_command_status := Ok, cl_pending_payload := buf, cl_pending_payload_len := len\<rparr>)"
    using k(1-3) s(1) by (simp add: client_request_def buf_def)
  have i: "client_inv (snd (client_request app_side now msg payload len c))"
    using app_uart.client_request_spec[of c now msg payload len] assms(1) by (simp add: client_line_def)
  then have "client_line (ws @ [(FtRequest, cl_next_seq c, msg, bytes_at payload len)]) (snd (client_request app_side now msg payload len c))"
    using s(2) by (simp add: client_line_def e)
  with e True show ?thesis by (simp only: if_True) blast
next
  case False
  then show ?thesis by (auto simp: client_request_def request_fits_def word_neq_0_conv)
qed

lemma flight_request:
  assumes "flight now ws c" "client_line ws c" "msg \<in> set named_msg_ids"
  shows "\<exists>ws'. flight now ws' (snd (client_request app_side now msg payload len c)) \<and>
    client_line ws' (snd (client_request app_side now msg payload len c))"
proof (cases "request_fits payload len c")
  case True
  have b: "length (concat (map wire_bytes ws)) \<le> 3000" using flight_ok(3)[OF assms(1)] by simp
  have "length (bytes_at payload len) \<le> kMaxPayload" using True by (auto simp: request_fits_def bytes_at_def split: option.splits)
  then have ok: "wire_ok (FtRequest, cl_next_seq c, msg, bytes_at payload len)" using wf_named[OF assms(3)] by (simp add: wire_ok_def)
  have h: "heartbeats ws" using assms(1) True by (simp add: flight_def request_fits_def)
  obtain c' where c': "snd (client_request app_side now msg payload len c) = c'" "cl_waiting c'" "cl_sent_at_ms c' = now"
    "cl_request_started_ms c' = now" "cl_last_command_status c' = Ok" "\<not> cl_retried c'" "cl_pending_seq c' = cl_next_seq c" "cl_pending_msg_id c' = msg"
    "client_line (ws @ [(FtRequest, cl_next_seq c, msg, bytes_at payload len)]) c'"
    using client_request_line[OF assms(2) b, of payload len now msg] True by force
  have "flight now (ws @ [(FtRequest, cl_next_seq c, msg, bytes_at payload len)]) c'"
    using c' ok h by (auto simp: flight_def)
  then show ?thesis using c'(1,9) by blast
next
  case False
  have b: "length (concat (map wire_bytes ws)) \<le> 3000" using flight_ok(3)[OF assms(1)] by simp
  show ?thesis using client_request_line[OF assms(2) b, of payload len now msg] False assms(1,2) by auto
qed

text \<open>What the MCU answers.\<close>

definition answer :: "wire \<Rightarrow> wire \<Rightarrow> bool" where
  "answer w a \<longleftrightarrow> (case (w, a) of ((_, seq, msg, data), (ft, seq', msg', data')) \<Rightarrow>
     seq' = seq \<and> msg' = msg \<and> (ft = FtResponse \<or> ft = FtNack) \<and> length data' \<le> 4 \<and>
     (data = [] \<and> (msg = HeaterOff \<or> msg = MotorStop) \<longrightarrow> ft = FtResponse))"

definition notices :: "wire list \<Rightarrow> bool" where
  "notices ts \<longleftrightarrow> (\<forall>w \<in> set ts. wire_ok w \<and> fst w = FtTelemetry)"

lemma answer_ok: "answer w a \<Longrightarrow> wire_ok w \<Longrightarrow> wire_ok a"
  by (auto simp: answer_def wire_ok_def limit_defs split: prod.splits)

lemma next_ms_no_timeout:
  assumes "cl_waiting c \<longrightarrow> cl_sent_at_ms c = now \<and> cl_request_started_ms c = now"
  shows "client_timeouts io (now + 1) c = c"
  using assms by (auto simp: client_timeouts_def limit_defs word_le_nat_alt)

text \<open>One poll of the client, a millisecond later, after the MCU has answered what was on its way.\<close>

lemma client_heartbeat_line:
  assumes "client_line [] c"
  shows "\<exists>ws n t lk u. client_heartbeat app_side now c = c\<lparr>cl_next_seq := n, cl_last_tx_ms := t, cl_link := lk, cl_uart := u\<rparr> \<and>
    heartbeats ws \<and> client_line ws (client_heartbeat app_side now c)"
proof (cases "\<not> cl_waiting c \<and> now - cl_last_tx_ms c \<ge> kHeartbeatIntervalMs")
  case True
  let ?c1 = "c\<lparr>cl_next_seq := cl_next_seq c + 1\<rparr>"
  have "client_line [] ?c1" using assms by (simp add: client_line_def client_inv_def)
  then obtain lk u where s: "client_send app_side (cl_next_seq c) Ping None 0 ?c1 = (Ok, ?c1\<lparr>cl_link := lk, cl_uart := u\<rparr>)"
    "client_line [(FtRequest, cl_next_seq c, Ping, [])] (?c1\<lparr>cl_link := lk, cl_uart := u\<rparr>)"
    using client_send_line[of "[]" ?c1 0 None "cl_next_seq c" Ping] by (auto simp: bytes_at_def)
  have e: "client_heartbeat app_side now c = c\<lparr>cl_next_seq := cl_next_seq c + 1, cl_last_tx_ms := now, cl_link := lk, cl_uart := u\<rparr>"
    using True s(1) by (simp add: client_heartbeat_def)
  moreover have "client_line [(FtRequest, cl_next_seq c, Ping, [])] (client_heartbeat app_side now c)"
    using s(2) by (simp add: e client_line_def client_inv_def)
  ultimately show ?thesis unfolding heartbeats_def by blast
next
  case False
  then have "client_heartbeat app_side now c = c" by (auto simp: client_heartbeat_def)
  moreover have "c = c\<lparr>cl_next_seq := cl_next_seq c, cl_last_tx_ms := cl_last_tx_ms c, cl_link := cl_link c, cl_uart := cl_uart c\<rparr>" by simp
  ultimately show ?thesis using assms unfolding heartbeats_def by metis
qed

lemma client_poll_line:
  assumes "client_inv c" "transport_inv (cl_uart c)" "quiet (cl_link c)" "ring_contents (app_to_mcu (cl_uart c)) = []"
    and "ring_contents (mcu_to_app (cl_uart c)) = concat (map wire_bytes (as @ ts))" "list_all2 answer ws as" "notices ts"
    and "flight now ws c"
  shows "\<exists>ws' c'. client_poll app_side (now + 1) c = Some c' \<and> client_line ws' c' \<and> flight (now + 1) ws' c' \<and> \<not> cl_waiting c' \<and>
    (if cl_waiting c
     then cl_response_ready c' \<and> f_msg (cl_response c') = cl_pending_msg_id c \<and> (\<exists>w \<in> set ws. \<exists>a. answer w a \<and> is_frame a (cl_response c')) \<and>
       cl_last_command_status c' = (if f_type (cl_response c') = FtResponse then Ok else ProtocolError)
     else request_state c' = request_state c)"
proof -
  have "wire_ok a" if a: "a \<in> set as" for a
  proof -
    obtain w where w: "w \<in> set ws" "answer w a" using list_all2_members(1)[OF assms(6) a] by (rule bexE)
    then show ?thesis using flight_ok(1)[OF assms(8)] by (intro answer_ok[OF w(2)]) simp
  qed
  then have ok: "\<forall>w \<in> set (as @ ts). wire_ok w" using assms(7) by (auto simp: notices_def)
  obtain fs lk u where p: "client_pump app_side (now + 1) c = Some ((fold (client_frame (now + 1)) fs c)\<lparr>cl_link := lk, cl_uart := u\<rparr>)"
    "list_all2 is_frame (as @ ts) fs" "quiet lk" "transport_inv u" "ring_contents (mcu_to_app u) = []" "ring_contents (app_to_mcu u) = []"
    using app_uart.client_pump_queue[OF assms(1,2,3), of "as @ ts" "now + 1"] assms(4,5) ok by auto
  let ?c1 = "(fold (client_frame (now + 1)) fs c)\<lparr>cl_link := lk, cl_uart := u\<rparr>"
  have l: "client_line [] ?c1"
    using client_frames_inv[OF assms(1), of "now + 1" fs] p(3-6) by (simp add: client_line_def client_inv_def quiet_def)
  obtain ws' n t lk' u' where h: "client_heartbeat app_side (now + 1) ?c1 = ?c1\<lparr>cl_next_seq := n, cl_last_tx_ms := t, cl_link := lk', cl_uart := u'\<rparr>"
    "heartbeats ws'" "client_line ws' (client_heartbeat app_side (now + 1) ?c1)"
    using client_heartbeat_line[OF l] by blast
  let ?c2 = "client_heartbeat app_side (now + 1) ?c1"
  have "client_timeouts app_side (now + 1) c = c" using assms(8) by (intro next_ms_no_timeout) (auto simp: flight_def)
  then have poll: "client_poll app_side (now + 1) c = Some ?c2" by (simp add: client_poll_def p(1))
  have r: "request_state ?c2 = request_state (fold (client_frame (now + 1)) fs c)" by (simp add: h(1) request_state_def)
  have n: "\<not> cl_retried ?c2" using assms(8) by (simp add: h(1) flight_def)
  show ?thesis
  proof (cases "cl_waiting c")
    case False
    then have "request_state ?c2 = request_state c" using client_frames_idle r by metis
    then show ?thesis using poll h(2,3) False n assms(8) by (intro exI[of _ ws'] exI[of _ ?c2]) (simp add: flight_def request_state_def)
  next
    case True
    have fr: "\<exists>w \<in> set ws. \<exists>a. answer w a \<and> is_frame a f" if r: "f \<in> set fs" "replies f c" for f
    proof -
      obtain x where x: "x \<in> set (as @ ts)" "is_frame x f" using list_all2_members(1)[OF p(2) r(1)] by (rule bexE)
      then have "x \<in> set as" using r(2) assms(7) by (auto simp: notices_def is_frame_def replies_def split: prod.splits)
      then show ?thesis using list_all2_members(1)[OF assms(6)] x(2) by blast
    qed
    obtain pings data where w: "ws = pings @ [(FtRequest, cl_pending_seq c, cl_pending_msg_id c, data)]"
      using True assms(8) by (auto simp: flight_def)
    have "(FtRequest, cl_pending_seq c, cl_pending_msg_id c, data) \<in> set ws" by (simp add: w)
    from list_all2_members(2)[OF assms(6) this] obtain a where a: "a \<in> set as" "answer (FtRequest, cl_pending_seq c, cl_pending_msg_id c, data) a"
      by (rule bexE)
    have "a \<in> set (as @ ts)" using a(1) by simp
    from list_all2_members(2)[OF p(2) this] obtain f where f: "f \<in> set fs" "is_frame a f" by (rule bexE)
    have "replies f c" using a(2) f(2) by (cases a) (simp add: answer_def is_frame_def replies_def)
    with f(1) have "\<exists>f \<in> set fs. replies f c" by (rule bexI[rotated])
    then have "\<exists>f \<in> set fs. replies f c \<and> request_state ?c2 = (False, True, f, if f_type f = FtResponse then Ok else ProtocolError)"
      unfolding r by (rule client_frames_replied[OF True])
    then obtain f where f: "f \<in> set fs" "replies f c"
      "request_state ?c2 = (False, True, f, if f_type f = FtResponse then Ok else ProtocolError)"
      by (elim bexE conjE)
    then show ?thesis
      using poll h(2,3) True n fr[OF f(1,2)] by (intro exI[of _ ws'] exI[of _ ?c2]) (auto simp: flight_def request_state_def replies_def)
  qed
qed

section \<open>The MCU serves the queue\<close>

text \<open>The MCU over a quiet line: what is on its way to it and what it has sent.\<close>

definition mcu_line :: "wire list \<Rightarrow> wire list \<Rightarrow> ('h, transport) safety_mcu \<Rightarrow> bool" where
  "mcu_line ws rs m \<longleftrightarrow> quiet (c_link m) \<and> transport_inv (c_uart m) \<and>
     ring_contents (app_to_mcu (c_uart m)) = concat (map wire_bytes ws) \<and>
     ring_contents (mcu_to_app (c_uart m)) = concat (map wire_bytes rs)"

lemma handle_stop_answer:
  assumes "f_type req = FtRequest" "f_len req = 0" "f_msg req = HeaterOff \<or> f_msg req = MotorStop"
  shows "\<exists>st. link_send io FtResponse (f_seq req) (f_msg req) None 0 (c_link c) (c_uart c) =
    (st, c_link (handle hw io req inp faulted c), c_uart (handle hw io req inp faulted c))"
  using assms by (cases rule: handle_cases[of req hw io inp faulted c])
    (auto simp: handle_heater_off_def handle_motor_stop_def respond_def core_send_def kHandlers_def split: prod.split)

lemma handle_frame_line:
  assumes "mcu_line ws rs m" "length (concat (map wire_bytes rs)) \<le> 3000" "is_frame w f" "fst w = FtRequest"
  shows "\<exists>a. answer w a \<and> mcu_line ws (rs @ [a]) (handle_frame hw mcu_side now f m)"
proof -
  obtain seq msg data where w: "w = (FtRequest, seq, msg, data)" using assms(4) by (cases w) auto
  have f: "f_type f = FtRequest" "f_seq f = seq" "f_msg f = msg" "unat (f_len f) = length data" using assms(3) by (simp_all add: is_frame_def w)
  have l: "quiet (c_link m)" "transport_inv (c_uart m)" using assms(1) by (simp_all add: mcu_line_def)
  have room: "kMaxFrameSize \<le> 4096 - length (ring_contents (mcu_to_app (c_uart m)))"
    using assms(1,2) by (simp add: mcu_line_def limit_defs)
  let ?c = "m\<lparr>m_last_valid_frame_ms := now\<rparr>" and ?m = "handle_frame hw mcu_side now f m"
  have lines: "c_link ?m = c_link (handle hw mcu_side f (m_inputs m) (m_fault m \<noteq> FaultNone) ?c)"
    "c_uart ?m = c_uart (handle hw mcu_side f (m_inputs m) (m_fault m \<noteq> FaultNone) ?c)"
    using f(1) by (simp_all add: handle_frame_core)
  have sent: "\<exists>ft payload len st. (ft = FtResponse \<or> ft = FtNack) \<and> unat len \<le> 4 \<and> (payload = None \<longrightarrow> len = 0) \<and>
      (data = [] \<and> (msg = HeaterOff \<or> msg = MotorStop) \<longrightarrow> ft = FtResponse) \<and>
      link_send mcu_side ft seq msg payload len (c_link m) (c_uart m) = (st, c_link ?m, c_uart ?m)"
  proof (cases "data = [] \<and> (msg = HeaterOff \<or> msg = MotorStop)")
    case True
    then have "f_len f = 0" using f(4) by (simp add: unat_eq_0)
    with True f(1-3) handle_stop_answer[of f mcu_side ?c hw "m_inputs m" "m_fault m \<noteq> FaultNone"] show ?thesis
      unfolding lines by (intro exI[of _ FtResponse] exI[of _ None] exI[of _ 0]) auto
  next
    case False
    have "answers mcu_side f ?c (handle hw mcu_side f (m_inputs m) (m_fault m \<noteq> FaultNone) ?c)" using handle_answers f(1) by blast
    with False show ?thesis unfolding lines answers_def f(2,3) by auto
  qed
  then obtain ft payload len st where a: "ft = FtResponse \<or> ft = FtNack" "unat len \<le> 4" "payload = None \<longrightarrow> len = 0"
    "data = [] \<and> (msg = HeaterOff \<or> msg = MotorStop) \<longrightarrow> ft = FtResponse"
    "link_send mcu_side ft seq msg payload len (c_link m) (c_uart m) = (st, c_link ?m, c_uart ?m)"
    by (elim exE conjE) (rule that)
  have n: "unat len \<le> kMaxPayload" using a(2) by (simp add: limit_defs)
  have "length (bytes_at payload len) \<le> 4" using a(2) by (auto simp: bytes_at_def split: option.split)
  then have "answer w (ft, seq, msg, bytes_at payload len)" using a(1,4) by (simp add: answer_def w)
  moreover have "mcu_line ws (rs @ [(ft, seq, msg, bytes_at payload len)]) ?m"
    using mcu_uart.link_send_quiet[OF l n a(3) room, of ft seq msg] a(5) assms(1) by (auto simp: mcu_line_def)
  ultimately show ?thesis by blast
qed

text \<open>
  The request loop answers what is on its way, in order. A predicate on the requests that are left and
  the state of the MCU, which every request takes over, holds at the end with none left.
\<close>

lemma process_queue:
  assumes "mcu_inv m" "mcu_line ws rs m" "\<forall>w \<in> set ws. wire_ok w \<and> fst w = FtRequest" "length rs + length ws \<le> 20"
    "\<forall>r \<in> set rs. length (wire_bytes r) \<le> 14" "P ws m"
    and step: "\<And>w ws m f. P (w # ws) m \<Longrightarrow> mcu_inv m \<Longrightarrow> is_frame w f \<Longrightarrow> P ws (handle_frame hw mcu_side now f m)"
    and line: "\<And>ws m lk u. P ws m \<Longrightarrow> P ws (m\<lparr>c_link := lk, c_uart := u\<rparr>)"
  shows "\<exists>m' as. process_frames hw mcu_side now m = Some m' \<and> P [] m' \<and> mcu_inv m' \<and> mcu_line [] (rs @ as) m' \<and> list_all2 answer ws as"
  using assms(1-6)
proof (induction ws arbitrary: m rs)
  case Nil
  have l: "quiet (c_link m)" "transport_inv (c_uart m)" using Nil.prems(2) by (simp_all add: mcu_line_def)
  obtain lk u where p: "link_poll mcu_side now (c_link m) (c_uart m) = Some (None, lk, u)" "quiet lk" "transport_inv u"
    "ring_contents (app_to_mcu u) = []" "ring_contents (mcu_to_app u) = ring_contents (mcu_to_app (c_uart m))"
    using mcu_uart.poll_quiet_none[OF l, of now] Nil.prems(2) by (auto simp: mcu_line_def)
  have "process_frames hw mcu_side now m = Some (m\<lparr>c_link := lk, c_uart := u\<rparr>)" by (subst process_frames.simps) (simp add: p(1))
  moreover have "mcu_inv (m\<lparr>c_link := lk, c_uart := u\<rparr>)" using mcu_inv_link[OF Nil.prems(1)] p(2) by (simp add: quiet_def)
  moreover have "mcu_line [] rs (m\<lparr>c_link := lk, c_uart := u\<rparr>)" using p Nil.prems(2) by (simp add: mcu_line_def)
  ultimately show ?case using line[OF Nil.prems(6)] by auto
next
  case (Cons w ws)
  have l: "quiet (c_link m)" "transport_inv (c_uart m)" "ring_contents (app_to_mcu (c_uart m)) = wire_bytes w @ concat (map wire_bytes ws)" "wire_ok w"
    using Cons.prems(2,3) by (simp_all add: mcu_line_def)
  obtain f lk u where p: "link_poll mcu_side now (c_link m) (c_uart m) = Some (Some f, lk, u)" "is_frame w f" "quiet lk" "transport_inv u"
    "ring_contents (app_to_mcu u) = concat (map wire_bytes ws)" "ring_contents (mcu_to_app u) = ring_contents (mcu_to_app (c_uart m))"
    using mcu_uart.poll_quiet_frame[OF l(1,2) _ l(4), of "concat (map wire_bytes ws)" now] l(3) by auto
  let ?m = "m\<lparr>c_link := lk, c_uart := u\<rparr>"
  let ?m1 = "handle_frame hw mcu_side now f ?m"
  have m: "mcu_inv ?m" "P (w # ws) ?m" "mcu_line ws rs ?m"
    using mcu_inv_link[OF Cons.prems(1)] line[OF Cons.prems(6)] p Cons.prems(2) by (simp_all add: quiet_def mcu_line_def)
  have "length (concat (map wire_bytes rs)) \<le> 14 * length rs" using Cons.prems(5) by (induction rs) auto
  then have b: "length (concat (map wire_bytes rs)) \<le> 3000" using Cons.prems(4) by simp
  have req: "fst w = FtRequest" using Cons.prems(3) by simp
  obtain a where a: "answer w a" "mcu_line ws (rs @ [a]) ?m1" using handle_frame_line[OF m(3) b p(2) req, of hw now] by (elim exE conjE)
  have "length (wire_bytes a) \<le> 14"
    using a(1) answer_ok[OF a(1) l(4)] by (cases a) (auto simp: answer_def length_wire_bytes split: prod.splits)
  then have small: "\<forall>r \<in> set (rs @ [a]). length (wire_bytes r) \<le> 14" using Cons.prems(5) by simp
  have i: "mcu_inv ?m1" using mcu_uart.handle_frame_inv(1)[OF m(1)] p(4) by simp
  have ws: "\<forall>w \<in> set ws. wire_ok w \<and> fst w = FtRequest" "length (rs @ [a]) + length ws \<le> 20" using Cons.prems(3,4) by simp_all
  obtain m' as where r: "process_frames hw mcu_side now ?m1 = Some m'" "P [] m'" "mcu_inv m'" "mcu_line [] ((rs @ [a]) @ as) m'" "list_all2 answer ws as"
    using Cons.IH[OF i a(2) ws small step[OF m(2,1) p(2)]] by (elim exE conjE)
  have "process_frames hw mcu_side now m = process_frames hw mcu_side now ?m1" by (subst process_frames.simps) (simp add: p(1))
  then show ?case using r a(1) by (intro exI[of _ m'] exI[of _ "a # as"]) simp
qed

section \<open>A whole tick of the MCU\<close>

lemma wf_notice: "wf_msg_id MsgTelemetry" "wf_msg_id MsgFault"
  by (simp_all add: wf_named named_msg_ids_def)

lemma publish_periodic_line:
  assumes "quiet lk" "transport_inv u" "length (ring_contents (mcu_to_app u)) \<le> 3500"
  shows "\<exists>tp' lk' u' ts. publish_periodic mcu_side now data tp lk u = (tp', lk', u') \<and> quiet lk' \<and> transport_inv u' \<and>
    ring_contents (app_to_mcu u') = ring_contents (app_to_mcu u) \<and>
    ring_contents (mcu_to_app u') = ring_contents (mcu_to_app u) @ concat (map wire_bytes ts) \<and> notices ts"
proof (cases "now - tp_last_publish_ms tp < kPeriodMs")
  case True
  then show ?thesis using assms by (intro exI[of _ tp] exI[of _ lk] exI[of _ u] exI[of _ "[]"]) (simp add: publish_periodic_def notices_def)
next
  case False
  have n: "unat (of_nat kTelemetryPayloadSize :: u16) \<le> kMaxPayload" "kMaxFrameSize \<le> 4096 - length (ring_contents (mcu_to_app u))"
    using assms(3) by (simp_all add: limit_defs)
  obtain lk' u' where s: "link_send mcu_side FtTelemetry (tp_seq tp) MsgTelemetry (Some (encode_telemetry data))
      (of_nat kTelemetryPayloadSize) lk u = (Ok, lk', u')" "quiet lk'" "transport_inv u'"
    "ring_contents (app_to_mcu u') = ring_contents (app_to_mcu u)"
    "ring_contents (mcu_to_app u') = ring_contents (mcu_to_app u) @ wire_bytes (FtTelemetry, tp_seq tp, MsgTelemetry, encode_telemetry data)"
    using mcu_uart.link_send_quiet[OF assms(1,2) n(1) _ n(2), of "Some (encode_telemetry data)" FtTelemetry "tp_seq tp" MsgTelemetry]
    unfolding bytes_at_telemetry by auto
  have ok: "notices [(FtTelemetry, tp_seq tp, MsgTelemetry, encode_telemetry data)]"
    using length_encode_telemetry[of data] by (simp add: notices_def wire_ok_def wf_notice limit_defs)
  show ?thesis
    by (intro exI[of _ "tp\<lparr>tp_seq := tp_seq tp + 1, tp_last_publish_ms := now\<rparr>"] exI[of _ lk'] exI[of _ u']
        exI[of _ "[(FtTelemetry, tp_seq tp, MsgTelemetry, encode_telemetry data)]"])
      (use False s ok in \<open>simp add: publish_periodic_def\<close>)
qed

lemma maybe_publish_line:
  assumes "quiet lk" "transport_inv u" "length (ring_contents (mcu_to_app u)) \<le> 3000"
  shows "\<exists>tp' lk' u' ts. maybe_publish mcu_side now data tp lk u = (tp', lk', u') \<and> quiet lk' \<and> transport_inv u' \<and>
    ring_contents (app_to_mcu u') = ring_contents (app_to_mcu u) \<and>
    ring_contents (mcu_to_app u') = ring_contents (mcu_to_app u) @ concat (map wire_bytes ts) \<and> notices ts"
proof (cases "tp_pending_fault tp = FaultNone")
  case True
  then show ?thesis using publish_periodic_line[OF assms(1,2), of now data tp] assms(3) by (simp add: maybe_publish_def)
next
  case False
  let ?b = "[byte_of_fault (tp_pending_fault tp)]"
  let ?f = "(FtTelemetry, tp_seq tp, MsgFault, ?b)"
  have n: "unat (1 :: u16) \<le> kMaxPayload" "kMaxFrameSize \<le> 4096 - length (ring_contents (mcu_to_app u))"
    using assms(3) by (simp_all add: limit_defs)
  have "bytes_at (Some ?b) 1 = ?b" by (simp add: bytes_at_def)
  then obtain lk1 u1 where s: "link_send mcu_side FtTelemetry (tp_seq tp) MsgFault (Some ?b) 1 lk u = (Ok, lk1, u1)" "quiet lk1" "transport_inv u1"
    "ring_contents (app_to_mcu u1) = ring_contents (app_to_mcu u)" "ring_contents (mcu_to_app u1) = ring_contents (mcu_to_app u) @ wire_bytes ?f"
    using mcu_uart.link_send_quiet[OF assms(1,2) n(1) _ n(2), of "Some ?b" FtTelemetry "tp_seq tp" MsgFault] by auto
  have ok: "wire_ok ?f" by (simp add: wire_ok_def wf_notice limit_defs)
  have "length (ring_contents (mcu_to_app u1)) \<le> 3500" using s(5) assms(3) length_wire_bytes[OF ok] by simp
  from publish_periodic_line[OF s(2,3) this, of now data "tp\<lparr>tp_seq := tp_seq tp + 1, tp_pending_fault := FaultNone\<rparr>"]
  obtain tp' lk' u' ts where t: "publish_periodic mcu_side now data (tp\<lparr>tp_seq := tp_seq tp + 1, tp_pending_fault := FaultNone\<rparr>) lk1 u1 = (tp', lk', u')"
    "quiet lk'" "transport_inv u'" "ring_contents (app_to_mcu u') = ring_contents (app_to_mcu u1)"
    "ring_contents (mcu_to_app u') = ring_contents (mcu_to_app u1) @ concat (map wire_bytes ts)" "notices ts"
    by (elim exE conjE)
  have "notices (?f # ts)" using ok t(6) by (simp add: notices_def)
  then show ?thesis
    using False s t by (intro exI[of _ tp'] exI[of _ lk'] exI[of _ u'] exI[of _ "?f # ts"]) (simp add: maybe_publish_def)
qed

lemma mcu_finish_line:
  assumes "mcu_line [] rs m" "length (concat (map wire_bytes rs)) \<le> 3000"
  shows "\<exists>ts. notices ts \<and> mcu_line [] (rs @ ts) (mcu_finish hw mcu_side now m)"
proof -
  obtain w m0 where a: "actuate hw (supervise hw now m) = (w, m0)" by fastforce
  then have m0: "c_link m0 = c_link m" "c_uart m0 = c_uart m" using actuate_simps(4,5)[of hw "supervise hw now m"] by simp_all
  obtain g m1 where g: "current_grams hw m0 = (g, m1)" by fastforce
  then have m1: "c_link m1 = c_link m0" "c_uart m1 = c_uart m0" using current_grams_simps(1,2)[of hw m0] by simp_all
  define data where "data = \<lparr>td_tick = m_tick_count m1, td_deci_celsius = from_celsius (in_temp_c (m_inputs m1)),
      td_rpm = in_rpm (m_inputs m1), td_grams = g, td_flags = telemetry_flags (m_inputs m1) w\<rparr>"
  have l: "quiet (c_link m)" "transport_inv (c_uart m)" "length (ring_contents (mcu_to_app (c_uart m))) \<le> 3000"
    using assms by (simp_all add: mcu_line_def)
  obtain tp lk u ts where p: "maybe_publish mcu_side now data (m_telemetry m1) (c_link m) (c_uart m) = (tp, lk, u)" "quiet lk" "transport_inv u"
    "ring_contents (app_to_mcu u) = ring_contents (app_to_mcu (c_uart m))"
    "ring_contents (mcu_to_app u) = ring_contents (mcu_to_app (c_uart m)) @ concat (map wire_bytes ts)" "notices ts"
    using maybe_publish_line[OF l, of now data "m_telemetry m1"] by (elim exE conjE)
  have "mcu_finish hw mcu_side now m = m1\<lparr>m_telemetry := tp, c_link := lk, c_uart := u\<rparr>"
    by (simp add: mcu_finish_def a report_def g m0 m1 p(1) flip: data_def)
  then show ?thesis using p assms(1) by (intro exI[of _ ts]) (simp add: mcu_line_def)
qed

text \<open>The tick of the MCU between two polls of the application.\<close>

lemma mcu_tick_line:
  assumes "mcu_inv m" "mcu_line ws [] m" "\<forall>w \<in> set ws. wire_ok w \<and> fst w = FtRequest" "length ws \<le> 20" "P ws (mcu_sample hw m)"
    and "\<And>w ws m f. P (w # ws) m \<Longrightarrow> mcu_inv m \<Longrightarrow> is_frame w f \<Longrightarrow> P ws (handle_frame hw mcu_side now f m)"
    and "\<And>ws m lk u. P ws m \<Longrightarrow> P ws (m\<lparr>c_link := lk, c_uart := u\<rparr>)"
  shows "\<exists>m1 as ts. mcu_tick_1ms hw mcu_side now m = Some (mcu_finish hw mcu_side now m1) \<and> P [] m1 \<and> mcu_inv m1 \<and>
    mcu_line [] (as @ ts) (mcu_finish hw mcu_side now m1) \<and> list_all2 answer ws as \<and> notices ts"
proof -
  have l: "mcu_line ws [] (mcu_sample hw m)" using assms(2) by (simp add: mcu_line_def)
  have n: "length ([] :: wire list) + length ws \<le> 20" "\<forall>r \<in> set ([] :: wire list). length (wire_bytes r) \<le> 14" using assms(4) by simp_all
  have "\<exists>m' as. process_frames hw mcu_side now (mcu_sample hw m) = Some m' \<and> P [] m' \<and> mcu_inv m' \<and> mcu_line [] ([] @ as) m' \<and>
      list_all2 answer ws as"
    by (rule process_queue[where P = P, OF mcu_sample_inv[OF assms(1)] l assms(3) n assms(5)]) (fact assms(6), fact assms(7))
  then obtain m1 as where p: "process_frames hw mcu_side now (mcu_sample hw m) = Some m1" "P [] m1" "mcu_inv m1" "mcu_line [] as m1"
    "list_all2 answer ws as" by auto
  have "length as \<le> 20" using list_all2_lengthD[OF p(5)] assms(4) by simp
  moreover have "\<forall>a \<in> set as. length (wire_bytes a) \<le> 14"
  proof
    fix a assume "a \<in> set as"
    with p(5) obtain w where "w \<in> set ws" "answer w a" by (meson list_all2_members(1))
    then show "length (wire_bytes a) \<le> 14" using answer_ok assms(3) by (cases a) (auto simp: answer_def length_wire_bytes split: prod.splits)
  qed
  then have "length (concat (map wire_bytes as)) \<le> 14 * length as" by (induction as) auto
  ultimately have "length (concat (map wire_bytes as)) \<le> 3000" by simp
  from mcu_finish_line[OF p(4) this, of hw now] show ?thesis using p by (auto simp: mcu_tick_1ms_def)
qed

end
