(* ===== verification/Lockstep.thy ===== *)
theory Lockstep
  imports Lockstep_Line
begin

text \<open>
  The whole simulated device over its line, millisecond by millisecond. Shown here: in every state the
  device can reach, what is on its way to the MCU is at most one heartbeat and the open request, sent in
  the current millisecond; the next millisecond answers it, so no request is ever repeated or given up.
\<close>

section \<open>One millisecond\<close>

text \<open>The client as the application sees it, over the shared transport.\<close>

definition client_of :: "system \<Rightarrow> transport mcu_client" where
  "client_of s = (k_client (ar_session (sys_app s)))\<lparr>cl_uart := sys_transport s\<rparr>"

definition locked :: "wire list \<Rightarrow> system \<Rightarrow> bool" where
  "locked ws s \<longleftrightarrow> system_inv s \<and> quiet (c_link (sys_mcu s)) \<and> client_line ws (client_of s) \<and>
     flight (sb_now_ms (sys_board s)) ws (client_of s)"

lemma flight_frame [simp]: "flight now ws (c\<lparr>cl_uart := u\<rparr>) = flight now ws c"
  "flight now ws (snd (take_response c)) = flight now ws c" "flight now ws (clear_fault c) = flight now ws c"
  "flight now ws c \<Longrightarrow> flight now ws (clear_command_status c)"
  by (simp_all add: flight_def take_response_def clear_fault_def) (auto simp: flight_def clear_command_status_def)

text \<open>What the poll of the next millisecond makes of the request state of the client.\<close>

definition replied :: "wire list \<Rightarrow> 'u mcu_client \<Rightarrow> 'u mcu_client \<Rightarrow> bool" where
  "replied ws c c' \<longleftrightarrow>
     (if cl_waiting c
      then cl_response_ready c' \<and> f_msg (cl_response c') = cl_pending_msg_id c \<and>
        (\<exists>w \<in> set ws. \<exists>a. answer w a \<and> is_frame a (cl_response c')) \<and>
        cl_last_command_status c' = (if f_type (cl_response c') = FtResponse then Ok else ProtocolError)
      else request_state c' = request_state c)"

lemma replied_uart: "replied ws (c\<lparr>cl_uart := u\<rparr>) c' = replied ws c c'"
  by (simp add: replied_def request_state_def cong: if_cong)

text \<open>The session before the divider of the application decides on a tick, and after it.\<close>

definition polled_session :: "transport mcu_client \<Rightarrow> sim_board \<Rightarrow> system \<Rightarrow> (transport, watchdog) session" where
  "polled_session c b s = (ar_session (sys_app s))\<lparr>k_watchdog := sb_watchdog b, k_client := c\<rparr>"

text \<open>What every request on its way and every operation of the link takes over.\<close>

definition mcu_keeps :: "(wire list \<Rightarrow> (sim_board, transport) safety_mcu \<Rightarrow> bool) \<Rightarrow> millis \<Rightarrow> bool" where
  "mcu_keeps P now \<longleftrightarrow>
     (\<forall>w ws m f. P (w # ws) m \<longrightarrow> mcu_inv m \<longrightarrow> is_frame w f \<longrightarrow> P ws (handle_frame sim_hw mcu_side now f m)) \<and>
     (\<forall>ws m lk u. P ws m \<longrightarrow> P ws (m\<lparr>c_link := lk, c_uart := u\<rparr>))"

lemma mcu_keepsD:
  "mcu_keeps P now \<Longrightarrow> P (w # ws) m \<Longrightarrow> mcu_inv m \<Longrightarrow> is_frame w f \<Longrightarrow> P ws (handle_frame sim_hw mcu_side now f m)"
  "mcu_keeps P now \<Longrightarrow> P ws m \<Longrightarrow> P ws (m\<lparr>c_link := lk, c_uart := u\<rparr>)"
  unfolding mcu_keeps_def by blast+

lemma locked_step:
  assumes s: "locked ws s" "unat (sb_now_us (sys_board s)) + 1000 < 2 ^ 64"
    and P: "P ws (mcu_sample sim_hw (mcu_view (sb_step_1ms (sys_board s)) (sys_transport s) (sys_mcu s)))"
      "mcu_keeps P (sb_now_ms (sys_board s) + 1)"
  defines "now \<equiv> sb_now_ms (sys_board s) + 1"
  shows "\<exists>s' m1 m c ws'. system_step_1ms s = Some s' \<and> system_inv s' \<and> sb_now_ms (sys_board s') = now \<and>
    unat (sb_now_us (sys_board s')) = unat (sb_now_us (sys_board s)) + 1000 \<and>
    P [] m1 \<and> mcu_inv m1 \<and> m = mcu_finish sim_hw mcu_side now m1 \<and> sys_mcu s' = m \<and> quiet (c_link m) \<and>
    sys_board s' = (c_hw m)\<lparr>sb_watchdog := k_watchdog (ar_session (sys_app s'))\<rparr> \<and>
    client_line ws' c \<and> flight now ws' c \<and> \<not> cl_waiting c \<and> replied ws (client_of s) c \<and>
    sys_app s' = app_divide wd_feed app_side now ((sys_app s)\<lparr>ar_session := polled_session c (c_hw m) s\<rparr>) \<and>
    client_of s' = k_client (ar_session (sys_app s'))"
proof -
  let ?b = "sb_step_1ms (sys_board s)" and ?v = "mcu_view (sb_step_1ms (sys_board s)) (sys_transport s) (sys_mcu s)"
  have now: "sb_now_ms ?b = now" using sb_step_clock(1)[OF s(2)] by (simp add: now_def)
  obtain s' where s': "system_step_1ms s = Some s'" "system_inv s'" "unat (sb_now_us (sys_board s')) = unat (sb_now_us (sys_board s)) + 1000"
    using system_step_inv[OF _ s(2)] s(1) by (auto simp: locked_def)
  have l: "mcu_inv ?v" "mcu_line ws [] ?v"
    using s(1) by (auto simp: locked_def system_inv_def mcu_inv_def mcu_off_def mcu_view_def mcu_line_def client_line_def client_of_def)
  have f: "flight (sb_now_ms (sys_board s)) ws (client_of s)" "client_inv (client_of s)" "quiet (cl_link (client_of s))"
    using s(1) by (simp_all add: locked_def client_line_def)
  have "length ws \<le> 20" using flight_ok(2)[OF f(1)] by simp
  then have "\<exists>m1 as ts. mcu_tick_1ms sim_hw mcu_side now ?v = Some (mcu_finish sim_hw mcu_side now m1) \<and> P [] m1 \<and> mcu_inv m1 \<and>
      mcu_line [] (as @ ts) (mcu_finish sim_hw mcu_side now m1) \<and> list_all2 answer ws as \<and> notices ts"
    by (rule mcu_tick_line[where P = P, OF l flight_ok(1)[OF f(1)] _ P(1)]) (rule mcu_keepsD[OF P(2)[folded now_def]]; assumption)+
  then obtain m1 as ts m where m: "mcu_tick_1ms sim_hw mcu_side now ?v = Some m" "m = mcu_finish sim_hw mcu_side now m1" "P [] m1" "mcu_inv m1"
    "mcu_line [] (as @ ts) m" "list_all2 answer ws as" "notices ts" by (elim exE conjE) (rule that[OF _ refl])
  let ?c = "(client_of s)\<lparr>cl_uart := c_uart m\<rparr>"
  have c: "client_inv ?c" "transport_inv (cl_uart ?c)" "quiet (cl_link ?c)" "ring_contents (app_to_mcu (cl_uart ?c)) = []"
    "ring_contents (mcu_to_app (cl_uart ?c)) = concat (map wire_bytes (as @ ts))" "flight (sb_now_ms (sys_board s)) ws ?c"
    using m(5) f by (simp_all add: mcu_line_def)
  obtain ws' c' where p: "client_poll app_side now ?c = Some c'" "client_line ws' c'" "flight now ws' c'" "\<not> cl_waiting c'" "replied ws ?c c'"
    using client_poll_line[OF c(1-5) m(6,7) c(6)] unfolding replied_def now_def by (elim exE conjE)
  have r: "replied ws (client_of s) c'" using p(5) by (simp only: replied_uart)
  let ?a = "(sys_app s)\<lparr>ar_session := polled_session c' (c_hw m) s\<rparr>"
  have "app_tick_1ms wd_feed app_side now (app_view (sb_watchdog (c_hw m)) (c_uart m) (sys_app s)) = Some (app_divide wd_feed app_side now ?a)"
    using p(1) by (simp add: app_tick_1ms_def app_view_def client_of_def polled_session_def)
  then have e: "s' = \<lparr>sys_board = (c_hw m)\<lparr>sb_watchdog := k_watchdog (ar_session (app_divide wd_feed app_side now ?a))\<rparr>,
      sys_transport = cl_uart (k_client (ar_session (app_divide wd_feed app_side now ?a))), sys_mcu = m, sys_app = app_divide wd_feed app_side now ?a\<rparr>"
    using s'(1) m(1) now by (simp add: system_step_1ms_def Let_def)
  have "unat (sb_now_us (sys_board s')) = unat (sb_now_us ?b)"
    using s'(3) s(2) by (simp add: sb_step_1ms_def Let_def unat_word_ariths)
  then have "sb_now_us (sys_board s') = sb_now_us ?b" by (simp only: word_unat_eq_iff)
  then have "sb_now_ms (sys_board s') = now" using now by (simp add: sb_now_ms_def)
  then show ?thesis
    using s' m p(2-4) r by (intro exI[of _ s'] exI[of _ m1] exI[of _ m] exI[of _ c'] exI[of _ ws']) (simp add: e client_of_def mcu_line_def)
qed

section \<open>What the sessions keep\<close>

text \<open>Whatever the bookkeeping and the requests of the client keep, a tick of the session keeps.\<close>

lemma session_tick_rule:
  assumes "P (k_client k)" "\<And>c. P c \<Longrightarrow> P (snd (take_response c))" "\<And>c. P c \<Longrightarrow> P (clear_command_status c)"
    and clear: "\<And>c. P c \<Longrightarrow> P (clear_fault c)"
    and request: "\<And>c msg payload len. msg \<in> set named_msg_ids \<Longrightarrow> P c \<Longrightarrow> P (snd (client_request io now msg payload len c))"
  shows "P (k_client (session_tick_10ms dog io now k))"
proof -
  obtain r k1 where p: "tick_prepare dog now k = (r, k1)" by fastforce
  have "k_client k1 = snd (take_response (k_client k)) \<or> k_client k1 = clear_command_status (snd (take_response (k_client k)))"
    using tick_prepare_alt(2)[of dog now k] p by (auto simp: tick_check_faults_def)
  then have k1: "P (k_client k1)" using assms(1-3) by auto
  have "P (snd (program_on_tick io now el q (k_client k1)))" for el q
    by (rule any_program.tick_cases[of io now el q "k_client k1"]) (simp_all add: k1 request)
  then have pr: "P (k_client (tick_program io now q k1))" for q
    using assms(3) by (simp add: tick_program_def Let_def case_prod_beta)
  let ?k2 = "note_failure (note_response r k1)"
  have k2: "P (k_client ?k2)" using k1 assms(3) by (simp add: note_failure_def Let_def)
  have "P (k_client (advance_shutdown io now ?k2))"
    using k2 request[OF _ k2] assms(3) clear
    by (auto simp: advance_shutdown_def client_heater_off_def client_motor_stop_def session_begin_def case_prod_beta named_msg_ids_def
        split: option.split bool.split)
  then show ?thesis
    using k1 pr by (simp add: session_tick_10ms_def p run_stopping_sequence_def split: session_state.split option.split)
qed

lemma client_line_frame [simp]:
  "client_line ws c \<Longrightarrow> client_line ws (snd (take_response c))" "client_line ws (clear_command_status c) = client_line ws c"
  "client_line ws (clear_fault c) = client_line ws c"
  by (simp_all add: client_line_def) (auto simp: clear_command_status_def clear_fault_def take_response_def)

lemma session_tick_line:
  assumes "client_line ws (k_client k)" "flight now ws (k_client k)"
  shows "\<exists>ws'. client_line ws' (k_client (session_tick_10ms dog app_side now k)) \<and> flight now ws' (k_client (session_tick_10ms dog app_side now k))"
proof (rule session_tick_rule[where P = "\<lambda>c. \<exists>ws. client_line ws c \<and> flight now ws c"])
  show "\<exists>ws. client_line ws (k_client k) \<and> flight now ws (k_client k)" using assms by blast
  fix c :: "transport mcu_client" and msg payload len
  assume "\<exists>ws. client_line ws c \<and> flight now ws c"
  then obtain ws where w: "client_line ws c" "flight now ws c" by blast
  show "\<exists>ws. client_line ws (snd (take_response c)) \<and> flight now ws (snd (take_response c))"
    using w by (intro exI[of _ ws]) simp
  show "\<exists>ws. client_line ws (clear_command_status c) \<and> flight now ws (clear_command_status c)"
    using w by (intro exI[of _ ws]) simp
  show "\<exists>ws. client_line ws (clear_fault c) \<and> flight now ws (clear_fault c)"
    using w by (intro exI[of _ ws]) simp
  assume "msg \<in> set named_msg_ids"
  from flight_request[OF w(2,1) this, of payload len]
  show "\<exists>ws. client_line ws (snd (client_request app_side now msg payload len c)) \<and>
      flight now ws (snd (client_request app_side now msg payload len c))" by (simp only: conj_commute)
qed

lemma locked_next:
  assumes "locked ws s" "unat (sb_now_us (sys_board s)) + 1000 < 2 ^ 64"
  shows "\<exists>s' ws'. system_step_1ms s = Some s' \<and> locked ws' s' \<and> unat (sb_now_us (sys_board s')) = unat (sb_now_us (sys_board s)) + 1000"
proof -
  let ?now = "sb_now_ms (sys_board s) + 1"
  obtain s' m c ws' where s: "system_step_1ms s = Some s'" "system_inv s'" "sb_now_ms (sys_board s') = ?now"
    "unat (sb_now_us (sys_board s')) = unat (sb_now_us (sys_board s)) + 1000" "sys_mcu s' = m" "quiet (c_link m)"
    "client_line ws' c" "flight ?now ws' c"
    "sys_app s' = app_divide wd_feed app_side ?now ((sys_app s)\<lparr>ar_session := polled_session c (c_hw m) s\<rparr>)"
    "client_of s' = k_client (ar_session (sys_app s'))"
    using locked_step[OF assms, of "\<lambda>_ _. True"] by (auto simp: mcu_keeps_def)
  have "\<exists>ws'. client_line ws' (client_of s') \<and> flight ?now ws' (client_of s')"
    using session_tick_line[of ws' "polled_session c (c_hw m) s" ?now wd_feed] s(7,8)
    by (auto simp: s(9,10) app_divide_def Let_def polled_session_def)
  then show ?thesis using s(1-6) by (auto simp: locked_def)
qed

section \<open>Every reachable device\<close>

lemma with_session_locked:
  assumes "locked ws s" "system_inv (snd (with_session f s))"
    and "k_client (snd (f (ar_session (sys_app s)))) = k_client (ar_session (sys_app s)) \<or>
      k_client (snd (f (ar_session (sys_app s)))) = clear_command_status (k_client (ar_session (sys_app s)))"
  shows "locked ws (snd (with_session f s))"
  using assms
  by (auto simp: locked_def with_session_def client_of_def case_prod_beta)
     (auto simp: clear_command_status_def client_line_def client_inv_def flight_def)

lemma with_client_locked:
  assumes "locked ws s" "msg \<in> set named_msg_ids"
  shows "\<exists>ws'. locked ws' (snd (with_client (client_request app_side (sb_now_ms (sys_board s)) msg payload len) s))"
proof -
  let ?r = "client_request app_side (sb_now_ms (sys_board s)) msg payload len (client_of s)"
  obtain ws' where w: "flight (sb_now_ms (sys_board s)) ws' (snd ?r)" "client_line ws' (snd ?r)"
    using flight_request[OF _ _ assms(2), of "sb_now_ms (sys_board s)" ws "client_of s" payload len] assms(1) by (auto simp: locked_def)
  have "system_inv (snd (with_client (client_request app_side (sb_now_ms (sys_board s)) msg payload len) s))"
    using with_client_inv assms(1) by (simp add: locked_def)
  moreover have "client_of (snd (with_client (client_request app_side (sb_now_ms (sys_board s)) msg payload len) s)) = snd ?r"
    by (simp add: with_client_def client_of_def case_prod_beta)
  ultimately show ?thesis using w assms(1) by (intro exI[of _ ws']) (simp add: locked_def with_client_def case_prod_beta)
qed

lemma locked_start: "locked [] (system_init scale_noise temp_noise)"
  using system_init_inv[of scale_noise temp_noise] link_inv_init client_inv_init transport_inv_init
  by (simp add: locked_def system_init_def app_runtime_init_def attach_ota_def session_init_def mcu_init_def client_of_def
      client_line_def flight_def heartbeats_def Let_def)
     (simp add: client_init_def client_inv_def quiet_def receiving_def link_init_def parser_init_def in_progress_def transport_init_def)

lemma reach_locked: "system_reach s \<Longrightarrow> \<exists>ws. locked ws s"
proof (induction rule: system_reach.induct)
  case (start scale_noise temp_noise)
  then show ?case using locked_start by blast
next
  case (step s s')
  then show ?case using locked_next[of _ s] by fastforce
next
  case (world s b)
  then have "system_inv (s\<lparr>sys_board := b\<rparr>)" using system_reach_inv system_reach.world by blast
  then show ?case using world by (auto simp: locked_def client_of_def clock_of_def sb_now_ms_def)
next
  case (recipes s lib)
  then show ?case by (auto simp: locked_def client_of_def system_inv_def)
next
  case (program s p)
  then obtain ws where "locked ws s" by blast
  then have "locked ws (snd (with_session (start_program p) s))"
    by (rule with_session_locked[OF _ system_reach_inv[OF system_reach.program[OF program.hyps]]]) (auto simp: start_program_def)
  then show ?case by blast
next
  case (stop s)
  then obtain ws where "locked ws s" by blast
  then have "locked ws (snd (with_session (\<lambda>k. ((), session_stop k)) s))"
    by (rule with_session_locked[OF _ system_reach_inv[OF system_reach.stop[OF stop.hyps]]]) (auto simp: session_stop_def)
  then show ?case by blast
next
  case (user_next s)
  then obtain ws where "locked ws s" by blast
  then have "locked ws (snd (with_session (\<lambda>k. ((), session_user_next k)) s))"
    by (rule with_session_locked[OF _ system_reach_inv[OF system_reach.user_next[OF user_next.hyps]]]) (auto simp: session_user_next_def)
  then show ?case by blast
next
  case (ota s ou)
  then obtain ws where "locked ws s" by blast
  then have "locked ws (snd (with_session (\<lambda>k. ((), k\<lparr>k_ota := ou\<rparr>)) s))"
    by (rule with_session_locked[OF _ system_reach_inv[OF system_reach.ota[OF ota.hyps]]]) auto
  then show ?case by blast
next
  case (request s now msg payload len)
  then show ?case using with_client_locked by blast
qed

section \<open>Property\<close>

text \<open>
  C14: in the lockstep of the simulated device every request is answered within a millisecond. In every
  reachable state no request has timed out and none is a repetition, and an open one was sent in the
  current millisecond.
\<close>

theorem requests_answered_at_once:
  assumes "system_reach s"
  defines "c \<equiv> k_client (ar_session (sys_app s))"
  shows "cl_last_command_status c \<noteq> Timeout \<and> \<not> cl_retried c \<and>
    (cl_waiting c \<longrightarrow> cl_request_started_ms c = sb_now_ms (sys_board s))"
proof -
  obtain ws where "locked ws s" using reach_locked assms(1) by blast
  then have "flight (sb_now_ms (sys_board s)) ws c" by (simp add: locked_def client_of_def c_def)
  then show ?thesis by (simp add: flight_def split: if_splits)
qed

theorem requests_answered_at_once_witness:
  "let s = snd (with_client (client_request app_side 0 HeaterOff None 0) (system_init (sconst 0) (sconst 0)))
   in \<not> cl_retried (k_client (ar_session (sys_app s))) \<and> cl_last_command_status (k_client (ar_session (sys_app s))) \<noteq> Timeout"
proof -
  have "sb_now_ms (sys_board (system_init (sconst 0) (sconst 0))) = 0"
    by (simp add: system_init_def Let_def sim_board_init_def sb_now_ms_def to_millis_def)
  then have "system_reach (snd (with_client (client_request app_side 0 HeaterOff None 0) (system_init (sconst 0) (sconst 0))))"
    by (intro system_reach.request system_reach.start) (simp_all add: named_msg_ids_def)
  from requests_answered_at_once[OF this] show ?thesis by (simp add: Let_def)
qed

end
