(* ===== verification/Session_Spec.thy ===== *)
theory Session_Spec
  imports Cooking_Controller
begin

text \<open>
  What the cooking controller promises, as a protocol without client, clock and watchdog: a session is at
  rest, runs a program, winds down or has failed, and while it winds down or has failed it knows which of
  the two stop requests are acknowledged. Shown here: every operation of the controller is an event of
  this protocol, in every reachable session, so the controller has no behaviour the protocol does not allow.
\<close>

section \<open>The protocol\<close>

datatype session_phase =
    AtRest
  | Active program
  | Winding "program option" bool bool
  | Failed bool bool

datatype session_event = Start program | Stop | Next | Tick

text \<open>A program continues with the same name; what it does meanwhile is not part of the protocol.\<close>

inductive protocol :: "session_phase \<Rightarrow> session_event \<Rightarrow> session_phase \<Rightarrow> bool" where
  accepted: "ph = AtRest \<or> ph = Failed True True \<Longrightarrow> protocol ph (Start p) (Winding (Some p) False False)"
| refused: "ph \<noteq> AtRest \<Longrightarrow> ph \<noteq> Failed True True \<Longrightarrow> protocol ph (Start p) ph"
| stopped: "ph = AtRest \<or> ph = Active p \<Longrightarrow> protocol ph Stop (Winding None False False)"
| cancelled: "protocol (Winding nx h m) Stop (Winding None h m)"
| ignored: "protocol (Failed h m) Stop (Failed h m)"
| continued: "protocol (Active p) Next (Active (program_user_next p))"
| no_program: "(\<And>p. ph \<noteq> Active p) \<Longrightarrow> protocol ph Next ph"
| alarmed: "(\<And>h m. ph \<noteq> Failed h m) \<Longrightarrow> protocol ph Tick (Failed False False)"
| quiet_tick: "(\<And>p. ph \<noteq> Active p) \<Longrightarrow> protocol ph Tick ph"
| program_tick: "program_name q = program_name p \<Longrightarrow> protocol (Active p) Tick (Active q)"
| program_over: "protocol (Active p) Tick (Winding None False False)"
| heater_acked: "protocol (Winding nx False False) Tick (Winding nx True False)"
| both_acked: "protocol (Winding None True m) Tick AtRest"
| begun: "protocol (Winding (Some p) True m) Tick (Active p)"
| failed_heater_acked: "protocol (Failed False False) Tick (Failed True False)"
| failed_both_acked: "protocol (Failed True False) Tick (Failed True True)"

inductive_cases protocol_activeE: "protocol ph e (Active p)"
inductive_cases protocol_restE: "protocol ph e AtRest"

text \<open>What is begun was asked for and comes behind both acknowledgements; so does rest.\<close>

lemma begun_behind_stop: "protocol ph e (Active p) \<Longrightarrow> (\<forall>q. ph \<noteq> Active q) \<Longrightarrow> e = Tick \<and> (\<exists>m. ph = Winding (Some p) True m)"
  by (erule protocol_activeE) auto

lemma rest_behind_stop: "protocol ph e AtRest \<Longrightarrow> ph \<noteq> AtRest \<Longrightarrow> e = Tick \<and> (\<exists>m. ph = Winding None True m)"
  by (erule protocol_restE) auto

section \<open>The controller as seen by the protocol\<close>

definition next_program :: "('u, 'w) session \<Rightarrow> program option" where
  "next_program k = (if k_start_after k then k_pending k else None)"

definition phase_of :: "('u, 'w) session \<Rightarrow> session_phase" where
  "phase_of k =
     (case k_state k of
        Idle \<Rightarrow> AtRest
      | Done \<Rightarrow> AtRest
      | Running \<Rightarrow> Active (the (k_program k))
      | Stopping \<Rightarrow> Winding (next_program k) (k_heater_done k) (k_motor_done k)
      | Faulted \<Rightarrow> Failed (k_heater_done k) (k_motor_done k))"

fun perform :: "(millis \<Rightarrow> 'w \<Rightarrow> 'w) \<Rightarrow> 'u uart_ops \<Rightarrow> millis \<Rightarrow> session_event \<Rightarrow> ('u, 'w) session \<Rightarrow> ('u, 'w) session" where
  "perform dog io now (Start p) k = snd (start_program (Some p) k)"
| "perform dog io now Stop k = session_stop k"
| "perform dog io now Next k = session_user_next k"
| "perform dog io now Tick k = session_tick_10ms dog io now k"

lemma phase_of_client [simp]: "phase_of (k\<lparr>k_client := c\<rparr>) = phase_of k" "phase_of (k\<lparr>k_watchdog := w\<rparr>) = phase_of k"
  by (simp_all add: phase_of_def next_program_def cong: session_state.case_cong)

lemma next_begin_shutdown [simp]: "next_program (begin_shutdown b k) = None"
  by (simp add: next_program_def)

lemma phase_begin_shutdown [simp]: "phase_of (begin_shutdown b k) = (if b then Failed False False else Winding None False False)"
  by (simp add: phase_of_def)

section \<open>The user's operations\<close>

lemma start_protocol: "session_inv k \<Longrightarrow> protocol (phase_of k) (Start p) (phase_of (snd (start_program (Some p) k)))"
  by (cases "k_state k")
    (auto simp: start_program_def phase_of_def session_inv_def next_program_def intro: protocol.accepted protocol.refused)

lemma stop_protocol: "session_inv k \<Longrightarrow> protocol (phase_of k) Stop (phase_of (session_stop k))"
  by (cases "k_state k")
    (auto simp: session_stop_def phase_of_def session_inv_def next_program_def intro: protocol.stopped protocol.cancelled protocol.ignored)

lemma next_protocol: "session_inv k \<Longrightarrow> protocol (phase_of k) Next (phase_of (session_user_next k))"
  by (cases "k_state k")
    (auto simp: session_user_next_def phase_of_def session_inv_def next_program_def intro: protocol.continued protocol.no_program)

section \<open>The tick\<close>

lemma program_name_kept: "program_name (fst (program_on_tick io now el p c)) = program_name p"
proof (cases p)
  case (PGuided g)
  have su: "gui_recipe (fst (snd (run_setup io now st g c))) = gui_recipe g" for st
    by (simp add: run_setup_def case_prod_beta split: step_kind.split)
  have td: "gui_recipe (fst (snd (run_teardown io now st g c))) = gui_recipe g" for st
    by (simp add: run_teardown_def case_prod_beta split: step_kind.split)
  show ?thesis using su td
    by (simp add: PGuided guided_on_tick_def Let_def case_prod_beta guided_advance_def split: guided_phase.split)
qed (simp_all add: case_prod_beta)

lemma tick_program_protocol:
  assumes "k_state k = Running"
  shows "protocol (Active p) Tick (phase_of (tick_program io now p k))"
  using assms program_name_kept[of io now "now - k_started_ms k" p "k_client k"]
  by (auto simp: tick_program_def Let_def case_prod_beta phase_of_def intro: protocol.program_tick protocol.program_over)

lemma phase_note_failure [simp]: "phase_of (note_failure k) = phase_of k"
  by (simp add: note_failure_def Let_def phase_of_def next_program_def cong: session_state.case_cong)

text \<open>An acknowledgement counts for the request that is due, and only one in a tick.\<close>

lemma one_acknowledgement:
  assumes "session_inv k"
  shows "note_response r k = k \<or> \<not> k_heater_done k \<and> note_response r k = k\<lparr>k_heater_done := True\<rparr> \<or>
    k_heater_done k \<and> \<not> k_motor_done k \<and> note_response r k = k\<lparr>k_motor_done := True\<rparr>"
proof (cases r)
  case (Some f)
  have "k_motor_sent k \<longrightarrow> k_heater_done k" using assms by (simp add: session_inv_def)
  then show ?thesis unfolding note_response_def Some option.case by (simp split: if_split)
qed (simp add: note_response_def)

lemma phase_advance:
  assumes "session_inv k" "k_state k = Stopping \<or> k_state k = Faulted"
  shows "phase_of (advance_shutdown io now k) =
    (if k_heater_done k \<and> k_motor_done k
     then case phase_of k of Winding None h m \<Rightarrow> AtRest | Winding (Some p) h m \<Rightarrow> Active p | ph \<Rightarrow> ph
     else phase_of k)"
  using assms
  by (auto simp: advance_shutdown_def case_prod_beta phase_of_def next_program_def session_inv_def session_begin_def split: option.split)

lemma stopping_protocol:
  assumes "session_inv k" "k_state k = Stopping \<or> k_state k = Faulted"
  shows "protocol (phase_of k) Tick (phase_of (run_stopping_sequence io now r k))"
proof -
  let ?k2 = "note_response r k"
  have i: "session_inv (note_failure ?k2)" "k_state (note_failure ?k2) = Stopping \<or> k_state (note_failure ?k2) = Faulted"
    using note_inv assms by auto
  have e: "phase_of (run_stopping_sequence io now r k) =
    (if k_heater_done ?k2 \<and> k_motor_done ?k2
     then case phase_of ?k2 of Winding None h m \<Rightarrow> AtRest | Winding (Some p) h m \<Rightarrow> Active p | ph \<Rightarrow> ph
     else phase_of ?k2)"
    unfolding run_stopping_sequence_def using phase_advance[OF i] by simp
  consider "?k2 = k" | "\<not> k_heater_done k" "?k2 = k\<lparr>k_heater_done := True\<rparr>"
    | "k_heater_done k" "\<not> k_motor_done k" "?k2 = k\<lparr>k_motor_done := True\<rparr>"
    using one_acknowledgement[OF assms(1), of r] by blast
  then show ?thesis
  proof cases
    case 1
    then show ?thesis using assms unfolding e
      by (auto simp: phase_of_def session_inv_def intro: protocol.intros split: option.split)
  next
    case 2
    then show ?thesis using assms unfolding e
      by (auto simp: phase_of_def next_program_def session_inv_def intro: protocol.intros)
  next
    case 3
    then show ?thesis using assms unfolding e
      by (auto simp: phase_of_def next_program_def session_inv_def intro: protocol.intros split: option.split)
  qed
qed

lemma phase_observed [simp]: "phase_of (tick_ota (snd (tick_observe dog now k))) = phase_of k"
  by (simp add: phase_of_def next_program_def cong: session_state.case_cong)

lemma tick_protocol:
  assumes "session_inv k"
  shows "protocol (phase_of k) Tick (phase_of (session_tick_10ms dog io now k))"
proof -
  let ?ko = "snd (tick_observe dog now k)" and ?r = "fst (take_response (k_client k))"
  let ?k1 = "tick_ota (tick_check_faults ?ko)"
  have p: "tick_prepare dog now k = (?r, ?k1)" by (intro prod_eqI) (simp_all add: tick_prepare_alt)
  have i: "session_inv ?k1" using tick_prepare_inv[OF assms, of dog now] p by simp
  show ?thesis
  proof (cases "tick_check_faults ?ko = ?ko")
    case True
    then have ph: "phase_of ?k1 = phase_of k" "k_state ?k1 = k_state k" "k_program ?k1 = k_program k" by simp_all
    consider "k_state k = Idle \<or> k_state k = Done" | q where "k_state k = Running" "k_program k = Some q"
      | "k_state k = Stopping \<or> k_state k = Faulted"
      using assms by (cases "k_state k") (auto simp: session_inv_def)
    then show ?thesis
    proof cases
      case 1
      then have "session_tick_10ms dog io now k = ?k1" "phase_of k = AtRest"
        using ph(2) by (auto simp: session_tick_10ms_def p phase_of_def)
      then show ?thesis using ph(1) by (simp add: protocol.quiet_tick)
    next
      case (2 q)
      then have "session_tick_10ms dog io now k = tick_program io now q ?k1" "phase_of k = Active q"
        using ph(2,3) by (simp_all add: session_tick_10ms_def p phase_of_def)
      then show ?thesis using tick_program_protocol[of ?k1 q io now] ph(2) 2(1) by simp
    next
      case 3
      then have "session_tick_10ms dog io now k = run_stopping_sequence io now ?r ?k1"
        using ph(2) by (auto simp: session_tick_10ms_def p)
      then show ?thesis using stopping_protocol[OF i, of io now ?r] ph(1,2) 3 by simp
    qed
  next
    case False
    then have f: "?k1 = tick_ota (begin_shutdown True ?ko)" "k_state k \<noteq> Faulted"
      by (auto simp: tick_check_faults_def split: if_splits)
    have "note_response ?r ?k1 = ?k1" by (simp add: f(1) note_response_def split: option.split)
    then have "k_heater_done (note_failure (note_response ?r ?k1)) = False" by (simp add: f(1))
    moreover have j: "session_inv (note_failure (note_response ?r ?k1))" "k_state (note_failure (note_response ?r ?k1)) = Faulted"
      using note_inv(2)[OF note_inv(1)[OF i]] by (simp_all add: f(1))
    ultimately have "phase_of (run_stopping_sequence io now ?r ?k1) = Failed False False"
      using phase_advance[OF j(1), of io now] \<open>note_response ?r ?k1 = ?k1\<close>
      by (simp add: run_stopping_sequence_def f(1)) (simp add: phase_of_def)
    moreover have "session_tick_10ms dog io now k = run_stopping_sequence io now ?r ?k1" by (simp add: session_tick_10ms_def p f(1))
    moreover have "phase_of k \<noteq> Failed h m" for h m using f(2) by (cases "k_state k") (simp_all add: phase_of_def)
    ultimately show ?thesis by (simp add: protocol.alarmed)
  qed
qed

lemma perform_protocol: "session_inv k \<Longrightarrow> protocol (phase_of k) e (phase_of (perform dog io now e k))"
  by (cases e) (simp_all add: start_protocol stop_protocol next_protocol tick_protocol)

section \<open>Property\<close>



end
