(* ===== verification/Safe_Stop.thy ===== *)
theory Safe_Stop
  imports Lockstep Session_Spec
begin

text \<open>
  Stopping, end to end, in the simulated device: the session asks for heater-off and then motor-stop, the
  requests cross the line, the MCU carries them out and acknowledges them, and the session rests. Shown
  here: whatever was going on and whatever fault occurs meanwhile, 60 ms after a stop both have been
  acknowledged, and from then on the outputs of the board are off.
\<close>

section \<open>The MCU while the application stops it\<close>

text \<open>The requests of the shutdown sequence, and heartbeats: they can only switch something off.\<close>

definition harmless :: "wire \<Rightarrow> bool" where
  "harmless w \<longleftrightarrow> (\<exists>seq msg. w = (FtRequest, seq, msg, []) \<and> msg \<in> {Ping, HeaterOff, MotorStop})"

definition switched_off :: "bool \<Rightarrow> wire list \<Rightarrow> ('h, 'u) safety_mcu \<Rightarrow> bool" where
  "switched_off both ws m \<longleftrightarrow> (\<forall>w \<in> set ws. harmless w) \<and>
     (pid_enabled (c_pid m) \<longrightarrow> (\<exists>q. (FtRequest, q, HeaterOff, []) \<in> set ws)) \<and>
     (both \<and> motor_active (c_motor m) \<longrightarrow> (\<exists>q. (FtRequest, q, MotorStop, []) \<in> set ws))"

lemma heartbeats_harmless: "heartbeats ws \<Longrightarrow> \<forall>w \<in> set ws. harmless w"
  by (auto simp: heartbeats_def harmless_def)

lemma handle_frame_harmless:
  assumes "switched_off both (w # ws) m" "is_frame w f"
  shows "switched_off both ws (handle_frame hw io now f m)"
proof -
  obtain seq msg where w: "w = (FtRequest, seq, msg, [])" "msg = Ping \<or> msg = HeaterOff \<or> msg = MotorStop"
    using assms(1) by (auto simp: switched_off_def harmless_def)
  have f: "f_type f = FtRequest" "f_msg f = msg" "f_len f = 0" using assms(2) by (simp_all add: is_frame_def w unat_eq_0)
  let ?h = "\<lambda>c. handle hw io f (m_inputs m) (m_fault m \<noteq> FaultNone) c"
  have "c_pid (?h c) = (if msg = HeaterOff then pid_disable (c_pid c) else c_pid c) \<and>
      c_motor (?h c) = (if msg = MotorStop then fst (motor_stop hw (c_motor c) (c_hw c)) else c_motor c)" for c :: "('a, 'b) safety_mcu"
    using f w(2) by (cases rule: handle_cases[of f hw io "m_inputs m" "m_fault m \<noteq> FaultNone" c])
      (auto simp: handle_ping_def handle_heater_off_def handle_motor_stop_def kHandlers_def case_prod_beta)
  then have "c_pid (handle_frame hw io now f m) = (if msg = HeaterOff then pid_disable (c_pid m) else c_pid m)"
    "motor_active (c_motor (handle_frame hw io now f m)) \<longrightarrow> msg \<noteq> MotorStop \<and> motor_active (c_motor m)"
    using f(1) by (simp_all add: handle_frame_core motor_stop_def motor_active_def)
  then show ?thesis using assms(1) w by (auto simp: switched_off_def)
qed

lemma mcu_sample_harmless: "switched_off both ws m \<Longrightarrow> switched_off both ws (mcu_sample hw m)"
  by (simp add: switched_off_def mcu_sample_def case_prod_beta enter_fault_def motor_stop_def motor_active_def)

text \<open>Outputs of the board.\<close>

definition outputs_off :: "sim_board \<Rightarrow> bool" where
  "outputs_off b \<longleftrightarrow> mm_duty (sb_motor b) = 0 \<and> heater_power_w sim_hw b = 0"

lemma supervise_harmless: "switched_off both [] m \<Longrightarrow> switched_off both [] (supervise hw now m)"
  by (simp add: switched_off_def supervise_def Let_def enter_fault_def motor_stop_def motor_active_def case_prod_beta)

lemma mcu_finish_harmless:
  assumes "mcu_inv m" "switched_off both [] m"
  shows "\<not> pid_enabled (c_pid (mcu_finish sim_hw io now m))"
    "both \<Longrightarrow> mcu_off (mcu_finish sim_hw io now m) \<and> outputs_off (c_hw (mcu_finish sim_hw io now m))"
proof -
  let ?m = "supervise sim_hw now m"
  have s: "switched_off both [] ?m" "mcu_inv ?m" using supervise_harmless[OF assms(2)] supervise_inv[OF assms(1)] .
  then show "\<not> pid_enabled (c_pid (mcu_finish sim_hw io now m))" by (simp add: finish_state switched_off_def)
  assume both
  then have off: "mcu_off ?m" using s(1) by (simp add: switched_off_def mcu_off_def)
  then have "mc_commanded (c_motor ?m) = 0" using s(2) by (auto simp: mcu_inv_def mcu_off_def motor_active_def motor_ctrl_inv_def)
  moreover have "c_motor (mcu_finish sim_hw io now m) = c_motor ?m" using actuate_off(1)[OF s(2) off] by (simp add: finish_state)
  moreover have "heater_watts ?m = 0" using off by (simp add: heater_watts_def mcu_off_def)
  ultimately have "outputs_off (c_hw (mcu_finish sim_hw io now m))"
    using actuators.finish_outputs[OF sim_act.actuators_axioms assms(1), of io now] by (simp add: outputs_off_def f32_ops)
  moreover have "mcu_off (mcu_finish sim_hw io now m)"
    using off actuate_off(2)[OF s(2) off, of sim_hw] s(1) by (simp add: mcu_off_def finish_state)
  ultimately show "mcu_off (mcu_finish sim_hw io now m) \<and> outputs_off (c_hw (mcu_finish sim_hw io now m))" by simp
qed

section \<open>Stages of the shutdown sequence\<close>

datatype stage = Fresh | HeaterAsked | HeaterAcked | MotorAsked | MotorAcked | Rest

text \<open>What the session has done, and the state of its client over the frames on their way.\<close>

definition progress :: "('u, 'w) session \<Rightarrow> bool \<times> bool \<times> bool \<times> bool" where
  "progress k = (k_heater_sent k, k_heater_done k, k_motor_sent k, k_motor_done k)"

definition shutting_down :: "('u, 'w) session \<Rightarrow> bool" where
  "shutting_down k \<longleftrightarrow> (k_state k = Stopping \<and> \<not> k_fault_shutdown k \<or> k_state k = Faulted \<and> k_fault_shutdown k) \<and>
     (k_start_after k \<longrightarrow> k_state k = Stopping \<and> k_pending k \<noteq> None)"

text \<open>The session in the tick that starts a program.\<close>

definition begun :: "program \<Rightarrow> millis \<Rightarrow> ('u, 'w) session \<Rightarrow> bool" where
  "begun p now k \<longleftrightarrow> k_state k = Running \<and> k_program k = Some p \<and> k_started_ms k = now"

definition asked :: "msg_id \<Rightarrow> wire list \<Rightarrow> 'u mcu_client \<Rightarrow> bool" where
  "asked msg ws c \<longleftrightarrow> cl_waiting c \<and> cl_pending_msg_id c = msg \<and> cl_last_command_status c = Ok \<and>
     (\<exists>pings seq. heartbeats pings \<and> ws = pings @ [(FtRequest, seq, msg, [])])"

definition acked :: "msg_id \<Rightarrow> 'u mcu_client \<Rightarrow> bool" where
  "acked msg c \<longleftrightarrow> \<not> cl_waiting c \<and> cl_response_ready c \<and> cl_last_command_status c = Ok \<and>
     f_type (cl_response c) = FtResponse \<and> f_msg (cl_response c) = msg"

fun at_stage :: "stage \<Rightarrow> wire list \<Rightarrow> 'u mcu_client \<Rightarrow> ('v, 'w) session \<Rightarrow> bool" where
  "at_stage Fresh ws c k \<longleftrightarrow> shutting_down k \<and> progress k = (False, False, False, False)"
| "at_stage HeaterAsked ws c k \<longleftrightarrow> shutting_down k \<and> progress k = (True, False, False, False) \<and> asked HeaterOff ws c"
| "at_stage HeaterAcked ws c k \<longleftrightarrow> shutting_down k \<and> progress k = (True, False, False, False) \<and> acked HeaterOff c"
| "at_stage MotorAsked ws c k \<longleftrightarrow> shutting_down k \<and> progress k = (True, True, True, False) \<and> asked MotorStop ws c"
| "at_stage MotorAcked ws c k \<longleftrightarrow> shutting_down k \<and> progress k = (True, True, True, False) \<and> acked MotorStop c"
| "at_stage Rest ws c k \<longleftrightarrow> (k_state k = Done \<or> k_state k = Faulted \<and> k_fault_shutdown k) \<and> \<not> k_start_after k \<and>
     k_heater_done k \<and> k_motor_done k \<and> \<not> cl_waiting c"

fun polled_stage :: "stage \<Rightarrow> stage" where
  "polled_stage HeaterAsked = HeaterAcked"
| "polled_stage MotorAsked = MotorAcked"
| "polled_stage st = st"

fun ticked_stage :: "stage \<Rightarrow> stage" where
  "ticked_stage Fresh = HeaterAsked"
| "ticked_stage HeaterAcked = MotorAsked"
| "ticked_stage MotorAcked = Rest"
| "ticked_stage st = st"

lemma clear_status_ready [simp]: "cl_response_ready (clear_command_status c) = cl_response_ready c"
  by (simp add: clear_command_status_def)

lemma flags_simps [simp]:
  "progress (k\<lparr>k_client := c\<rparr>) = progress k" "shutting_down (k\<lparr>k_client := c\<rparr>) = shutting_down k"
  "progress (k\<lparr>k_watchdog := w\<rparr>) = progress k" "shutting_down (k\<lparr>k_watchdog := w\<rparr>) = shutting_down k"
  "next_program (k\<lparr>k_client := c\<rparr>) = next_program k" "next_program (k\<lparr>k_watchdog := w\<rparr>) = next_program k"
  "next_program (k\<lparr>k_heater_done := b\<rparr>) = next_program k" "shutting_down (k\<lparr>k_heater_done := b\<rparr>) = shutting_down k"
  by (simp_all add: progress_def shutting_down_def next_program_def)

text \<open>A poll takes the acknowledgement in.\<close>

lemma poll_stage:
  assumes "at_stage st ws c k" "replied ws c c'" "\<not> cl_waiting c'"
  shows "at_stage (polled_stage st) ws' c' k"
proof -
  have a: "acked msg c'" if ask: "asked msg ws c" "msg = HeaterOff \<or> msg = MotorStop" for msg
  proof -
    obtain pings seq where w: "cl_waiting c" "cl_pending_msg_id c = msg" "heartbeats pings" "ws = pings @ [(FtRequest, seq, msg, [])]"
      using ask(1) by (auto simp: asked_def)
    have r: "cl_response_ready c'" "f_msg (cl_response c') = msg" "\<exists>x \<in> set ws. \<exists>a. answer x a \<and> is_frame a (cl_response c')"
      "cl_last_command_status c' = (if f_type (cl_response c') = FtResponse then Ok else ProtocolError)"
      using assms(2) w(1,2) unfolding replied_def by (simp_all only: if_True)
    from r(3) obtain x where x: "x \<in> set ws" "\<exists>a. answer x a \<and> is_frame a (cl_response c')" by (rule bexE)
    then obtain a where a: "answer x a" "is_frame a (cl_response c')" by (elim exE conjE)
    have "fst (snd (snd x)) = msg" using r(2) a by (auto simp: answer_def is_frame_def split: prod.splits)
    then have "x = (FtRequest, seq, msg, [])" using x(1) w(3,4) ask(2) by (auto simp: heartbeats_def)
    then have "f_type (cl_response c') = FtResponse" using a ask(2) by (auto simp: answer_def is_frame_def split: prod.splits)
    then show ?thesis using r(1,2,4) assms(3) by (simp add: acked_def)
  qed
  have b: "acked msg c'" if "acked msg c" for msg
    using that assms(2) by (auto simp: acked_def replied_def request_state_def)
  show ?thesis using assms(1,3) a b by (cases st) auto
qed

text \<open>One step of the shutdown sequence by a session whose client is free.\<close>

lemma send_stop:
  assumes "client_line ws c" "flight now ws c" "\<not> cl_waiting c" "\<not> cl_response_ready c"
  shows "\<exists>c' ws'. client_request app_side now msg None 0 c = (Ok, c') \<and> client_line ws' c' \<and> asked msg ws' c' \<and>
    (msg \<in> set named_msg_ids \<longrightarrow> flight now ws' c')"
proof -
  have b: "length (concat (map wire_bytes ws)) \<le> 3000" using flight_ok(3)[OF assms(2)] by simp
  have h: "heartbeats ws" "\<not> cl_retried c" using assms(2,3) by (simp_all add: flight_def)
  have fits: "request_fits None 0 c" using assms(3,4) by (simp add: request_fits_def)
  obtain c' where c': "client_request app_side now msg None 0 c = (Ok, c')" "cl_waiting c'" "cl_pending_msg_id c' = msg"
    "cl_last_command_status c' = Ok" "cl_sent_at_ms c' = now" "cl_request_started_ms c' = now" "\<not> cl_retried c'"
    "cl_pending_seq c' = cl_next_seq c" "client_line (ws @ [(FtRequest, cl_next_seq c, msg, [])]) c'"
    using client_request_line[OF assms(1) b, of None 0 now msg] fits by (auto simp: bytes_at_def)
  have "asked msg (ws @ [(FtRequest, cl_next_seq c, msg, [])]) c'" using c' h by (auto simp: asked_def)
  moreover have "flight now (ws @ [(FtRequest, cl_next_seq c, msg, [])]) c'" if "msg \<in> set named_msg_ids"
    using c' h wf_named[OF that] by (auto simp: flight_def wire_ok_def)
  ultimately show ?thesis using c'(1,9) by blast
qed

lemma advance_asks:
  assumes "client_line ws (k_client k)" "flight now ws (k_client k)" "\<not> cl_waiting (k_client k)" "\<not> cl_response_ready (k_client k)"
    and "shutting_down k"
  defines "k' \<equiv> advance_shutdown app_side now k"
  shows "progress k = (False, False, False, False) \<Longrightarrow>
      \<exists>ws'. client_line ws' (k_client k') \<and> flight now ws' (k_client k') \<and> at_stage HeaterAsked ws' (k_client k') k' \<and> k_state k' = k_state k \<and> next_program k' = next_program k"
    "progress k = (True, True, False, False) \<Longrightarrow>
      \<exists>ws'. client_line ws' (k_client k') \<and> flight now ws' (k_client k') \<and> at_stage MotorAsked ws' (k_client k') k' \<and> k_state k' = k_state k \<and> next_program k' = next_program k"
proof -
  have n: "HeaterOff \<in> set named_msg_ids" "MotorStop \<in> set named_msg_ids" by (simp_all add: named_msg_ids_def)
  obtain c' ws' where h: "client_request app_side now HeaterOff None 0 (k_client k) = (Ok, c')" "client_line ws' c'" "asked HeaterOff ws' c'"
    "flight now ws' c'" using send_stop[OF assms(1-4), of HeaterOff] n by blast
  obtain c2 ws2 where m: "client_request app_side now MotorStop None 0 (k_client k) = (Ok, c2)" "client_line ws2 c2" "asked MotorStop ws2 c2"
    "flight now ws2 c2" using send_stop[OF assms(1-4), of MotorStop] n by blast
  show "\<exists>ws'. client_line ws' (k_client k') \<and> flight now ws' (k_client k') \<and> at_stage HeaterAsked ws' (k_client k') k' \<and> k_state k' = k_state k \<and> next_program k' = next_program k"
    if p: "progress k = (False, False, False, False)"
  proof -
    have "k' = k\<lparr>k_client := c', k_heater_sent := True\<rparr>"
      using p assms(3) h(1) by (simp add: k'_def advance_shutdown_def client_heater_off_def progress_def)
    then show ?thesis using h assms(5) p by (intro exI[of _ ws']) (simp add: shutting_down_def progress_def next_program_def)
  qed
  show "\<exists>ws'. client_line ws' (k_client k') \<and> flight now ws' (k_client k') \<and> at_stage MotorAsked ws' (k_client k') k' \<and> k_state k' = k_state k \<and> next_program k' = next_program k"
    if p: "progress k = (True, True, False, False)"
  proof -
    have "k' = k\<lparr>k_client := c2, k_motor_sent := True\<rparr>"
      using p assms(3) m(1) by (simp add: k'_def advance_shutdown_def client_motor_stop_def progress_def)
    then show ?thesis using m assms(5) p by (intro exI[of _ ws2]) (simp add: shutting_down_def progress_def next_program_def)
  qed
qed

text \<open>
  A tick of the session with a free client is one stage, or the first of them if a fault is new; behind the
  last one it starts the next program, if there is one.
\<close>

definition ticked :: "stage \<Rightarrow> millis \<Rightarrow> (transport, 'w) session \<Rightarrow> (transport, 'w) session \<Rightarrow> bool" where
  "ticked st now k k' \<longleftrightarrow> (\<exists>ws. client_line ws (k_client k') \<and> flight now ws (k_client k') \<and>
     ((\<exists>st'. at_stage st' ws (k_client k') k' \<and>
        (st' = ticked_stage st \<and> (k_state k' = Faulted \<longleftrightarrow> k_state k = Faulted) \<and> next_program k' = next_program k \<or>
         st' = HeaterAsked \<and> k_state k' = Faulted \<and> k_state k \<noteq> Faulted \<and> next_program k' = None)) \<or>
      st = MotorAcked \<and> (\<exists>p. next_program k = Some p \<and> begun p now k')))"

lemma tickedI:
  assumes "\<exists>ws. client_line ws (k_client k') \<and> flight now ws (k_client k') \<and> at_stage (ticked_stage st) ws (k_client k') k' \<and>
    k_state k' = k_state k \<and> next_program k' = next_program k"
  shows "ticked st now k k'"
  using assms unfolding ticked_def by (elim exE conjE) (intro exI conjI disjI1, auto)

text \<open>Whether a tick finds a new fault or a failed request.\<close>

definition alarm :: "('u, 'w) session \<Rightarrow> bool" where
  "alarm k \<longleftrightarrow> k_state k \<noteq> Faulted \<and> (cl_last_fault (k_client k) \<noteq> FaultNone \<or> cl_last_command_status (k_client k) \<noteq> Ok)"

lemma check_faults_alarm: "tick_check_faults k = (if alarm k then begin_shutdown True k else k)"
  by (simp add: tick_check_faults_def alarm_def)

lemma tick_alarm:
  assumes "client_line ws (k_client k)" "flight now ws (k_client k)" "\<not> cl_waiting (k_client k)" "alarm (snd (tick_observe dog now k))"
  defines "k' \<equiv> session_tick_10ms dog app_side now k"
  shows "\<exists>ws'. client_line ws' (k_client k') \<and> flight now ws' (k_client k') \<and> at_stage HeaterAsked ws' (k_client k') k' \<and>
    k_state k' = Faulted \<and> k_state k \<noteq> Faulted \<and> next_program k' = None"
proof -
  let ?c = "snd (take_response (k_client k))" and ?r = "fst (take_response (k_client k))"
  let ?k1 = "tick_ota (begin_shutdown True (snd (tick_observe dog now k)))"
  have p: "tick_prepare dog now k = (?r, ?k1)" using assms(4) by (intro prod_eqI) (simp_all add: tick_prepare_alt check_faults_alarm)
  have f: "progress ?k1 = (False, False, False, False)" "shutting_down ?k1" "k_state ?k1 = Faulted" "k_client ?k1 = clear_command_status ?c"
    "next_program ?k1 = None"
    by (simp_all add: progress_def shutting_down_def next_program_def)
  then have "note_failure (note_response ?r ?k1) = ?k1"
    by (simp add: note_response_def note_failure_def progress_def split: option.split)
  then have e: "k' = advance_shutdown app_side now ?k1"
    using f(3) by (simp add: k'_def session_tick_10ms_def p run_stopping_sequence_def)
  have g: "client_line ws (k_client ?k1)" "flight now ws (k_client ?k1)" "\<not> cl_waiting (k_client ?k1)" "\<not> cl_response_ready (k_client ?k1)"
    using assms(1-3) unfolding f(4) by simp_all (simp add: take_response_def)
  have "k_state k \<noteq> Faulted" using assms(4) by (simp add: alarm_def)
  then show ?thesis using advance_asks(1)[OF g f(2,1)] f(3,5) unfolding e by auto
qed

text \<open>The session behind a calm observation, when the shutdown sequence takes its step.\<close>

definition observed :: "(transport, 'w) session \<Rightarrow> (transport, 'w) session \<Rightarrow> bool" where
  "observed k k1 \<longleftrightarrow> k_client k1 = snd (take_response (k_client k)) \<and> progress k1 = progress k \<and> shutting_down k1 = shutting_down k \<and>
     k_state k1 = k_state k \<and> k_start_after k1 = k_start_after k \<and> k_fault_shutdown k1 = k_fault_shutdown k \<and>
     next_program k1 = next_program k \<and> k_program k1 = k_program k \<and> k_started_ms k1 = k_started_ms k"

lemma tick_ota_started [simp]: "k_started_ms (tick_ota k) = k_started_ms k"
  by (simp add: tick_ota_def split: option.split)

lemma tick_calm:
  assumes "\<not> alarm (snd (tick_observe dog now k))"
  shows "\<exists>k1. tick_prepare dog now k = (fst (take_response (k_client k)), k1) \<and> observed k k1"
proof -
  have "tick_prepare dog now k = (fst (take_response (k_client k)), tick_ota (snd (tick_observe dog now k)))"
    using assms by (intro prod_eqI) (simp_all add: tick_prepare_alt check_faults_alarm)
  then show ?thesis
    by (intro exI conjI, assumption)
      (simp add: observed_def progress_def shutting_down_def next_program_def tick_observe_def Let_def case_prod_beta)
qed

text \<open>A calm tick of a session whose client is free: what is on the line stays there.\<close>

definition calm_tick ::
  "(millis \<Rightarrow> 'w \<Rightarrow> 'w) \<Rightarrow> millis \<Rightarrow> wire list \<Rightarrow> (transport, 'w) session \<Rightarrow> (transport, 'w) session \<Rightarrow> bool" where
  "calm_tick dog now ws k k1 \<longleftrightarrow> client_line ws (k_client k1) \<and> flight now ws (k_client k1) \<and> \<not> cl_waiting (k_client k1) \<and>
     \<not> cl_response_ready (k_client k1) \<and> tick_prepare dog now k = (fst (take_response (k_client k)), k1) \<and> observed k k1"

lemma calm_tickI:
  assumes "client_line ws (k_client k)" "flight now ws (k_client k)" "\<not> cl_waiting (k_client k)" "\<not> alarm (snd (tick_observe dog now k))"
  shows "\<exists>k1. calm_tick dog now ws k k1"
proof -
  obtain k1 where k1: "tick_prepare dog now k = (fst (take_response (k_client k)), k1)" "observed k k1" using tick_calm[OF assms(4)] by blast
  moreover have "client_line ws (k_client k1)" "flight now ws (k_client k1)" "\<not> cl_waiting (k_client k1)" "\<not> cl_response_ready (k_client k1)"
    using assms(1-3) k1(2) by (simp_all add: observed_def) (simp add: take_response_def)
  ultimately show ?thesis by (auto simp: calm_tick_def)
qed

lemma stop_step:
  assumes "calm_tick dog now ws k k1" "shutting_down k"
  shows "session_tick_10ms dog app_side now k =
    advance_shutdown app_side now (note_failure (note_response (fst (take_response (k_client k))) k1))"
  using assms by (auto simp: session_tick_10ms_def run_stopping_sequence_def observed_def calm_tick_def shutting_down_def)

lemma note_acked:
  assumes "calm_tick dog now ws k k1" "acked msg (k_client k)"
  shows "msg = HeaterOff \<Longrightarrow> progress k = (True, False, False, False) \<Longrightarrow>
      note_failure (note_response (fst (take_response (k_client k))) k1) = k1\<lparr>k_heater_done := True\<rparr>"
    "msg = MotorStop \<Longrightarrow> progress k = (True, True, True, False) \<Longrightarrow>
      note_failure (note_response (fst (take_response (k_client k))) k1) = k1\<lparr>k_motor_done := True\<rparr>"
  using assms by (simp_all add: note_response_def note_failure_def observed_def acked_def progress_def take_response_def calm_tick_def)

lemma tick_fresh:
  assumes "calm_tick dog now ws k k1" "shutting_down k" "progress k = (False, False, False, False)"
  shows "ticked Fresh now k (session_tick_10ms dog app_side now k)"
proof -
  let ?k2 = "note_failure (note_response (fst (take_response (k_client k))) k1)"
  have "note_response (fst (take_response (k_client k))) k1 = k1"
    using assms by (simp add: note_response_def progress_def observed_def calm_tick_def split: option.split)
  then have k2: "progress ?k2 = (False, False, False, False)" "shutting_down ?k2" "k_state ?k2 = k_state k" "next_program ?k2 = next_program k"
    "k_client ?k2 = k_client k1 \<or> k_client ?k2 = clear_command_status (k_client k1)"
    using assms by (auto simp: note_failure_def Let_def progress_def shutting_down_def next_program_def observed_def calm_tick_def)
  have g: "client_line ws (k_client ?k2)" "flight now ws (k_client ?k2)" "\<not> cl_waiting (k_client ?k2)" "\<not> cl_response_ready (k_client ?k2)"
    using assms(1) k2(5) by (auto simp: calm_tick_def)
  show ?thesis using advance_asks(1)[OF g k2(2,1)] unfolding stop_step[OF assms(1,2)] k2(3,4) by (intro tickedI) simp
qed

lemma tick_heater_acked:
  assumes "calm_tick dog now ws k k1" "shutting_down k" "progress k = (True, False, False, False)" "acked HeaterOff (k_client k)"
  shows "ticked HeaterAcked now k (session_tick_10ms dog app_side now k)"
proof -
  let ?k2 = "k1\<lparr>k_heater_done := True\<rparr>"
  have e: "session_tick_10ms dog app_side now k = advance_shutdown app_side now ?k2"
    using stop_step[OF assms(1,2)] note_acked(1)[OF assms(1,4) refl assms(3)] by simp
  have k2: "progress ?k2 = (True, True, False, False)" "shutting_down ?k2" "k_state ?k2 = k_state k" "next_program ?k2 = next_program k"
    "client_line ws (k_client ?k2)" "flight now ws (k_client ?k2)" "\<not> cl_waiting (k_client ?k2)" "\<not> cl_response_ready (k_client ?k2)"
    using assms(1-3) by (auto simp: calm_tick_def observed_def progress_def)
  show ?thesis using advance_asks(2)[OF k2(5-8,2,1)] unfolding e k2(3,4) by (intro tickedI) simp
qed

lemma tick_motor_acked:
  assumes "calm_tick dog now ws k k1" "shutting_down k" "progress k = (True, True, True, False)" "acked MotorStop (k_client k)"
  shows "ticked MotorAcked now k (session_tick_10ms dog app_side now k)"
proof -
  let ?k2 = "k1\<lparr>k_motor_done := True\<rparr>"
  have e: "session_tick_10ms dog app_side now k = advance_shutdown app_side now ?k2"
    using stop_step[OF assms(1,2)] note_acked(2)[OF assms(1,4) refl assms(3)] by simp
  have c: "client_line ws (k_client k1)" "flight now ws (k_client k1)" "\<not> cl_waiting (k_client k1)"
    using assms(1) by (simp_all add: calm_tick_def)
  have k1: "progress k1 = (True, True, True, False)" "shutting_down k1" "k_state k1 = k_state k" "k_start_after k1 = k_start_after k"
    "next_program k1 = next_program k" using assms(1-3) by (simp_all add: calm_tick_def observed_def)
  show ?thesis
  proof (cases "next_program k")
    case None
    then have n: "\<not> k_start_after k1" using k1(2,5) by (auto simp: next_program_def shutting_down_def)
    then have "session_tick_10ms dog app_side now k = ?k2\<lparr>k_state := (if k_fault_shutdown k1 then Faulted else Done)\<rparr>"
      using k1(1) unfolding e by (simp add: advance_shutdown_def progress_def)
    then show ?thesis using n None k1 c unfolding ticked_def
      by (intro exI[of _ ws] conjI disjI1 exI[of _ Rest]) (auto simp: progress_def shutting_down_def next_program_def)
  next
    case (Some p)
    then have n: "k_start_after k1" "k_pending k1 = Some p" "\<not> k_fault_shutdown k1"
      using k1(2,5) by (auto simp: next_program_def shutting_down_def split: if_splits)
    then have "session_tick_10ms dog app_side now k = session_begin now p ?k2"
      using k1(1) unfolding e by (simp add: advance_shutdown_def progress_def)
    then show ?thesis using c Some unfolding ticked_def
      by (intro exI[of _ ws] conjI disjI2) (auto simp: session_begin_def begun_def)
  qed
qed

lemma tick_rest:
  assumes "calm_tick dog now ws k k1" "at_stage Rest ws (k_client k) k"
  shows "ticked Rest now k (session_tick_10ms dog app_side now k)"
proof -
  have c: "client_line ws (k_client k1)" "flight now ws (k_client k1)" "\<not> cl_waiting (k_client k1)"
    using assms(1) by (simp_all add: calm_tick_def)
  have k1: "k_state k1 = Done \<or> k_state k1 = Faulted \<and> k_fault_shutdown k1" "k_state k1 = k_state k" "\<not> k_start_after k1" "k_heater_done k1" "k_motor_done k1"
    "next_program k = None" using assms by (auto simp: calm_tick_def observed_def progress_def next_program_def)
  let ?k2 = "note_failure (note_response (fst (take_response (k_client k))) k1)"
  show ?thesis
  proof (cases "k_state k = Done")
    case True
    then have "session_tick_10ms dog app_side now k = k1"
      using assms(1) by (simp add: session_tick_10ms_def calm_tick_def observed_def)
    then show ?thesis using k1 c True unfolding ticked_def
      by (intro exI[of _ ws] conjI disjI1 exI[of _ Rest]) (auto simp: next_program_def)
  next
    case False
    then have fs: "k_state k1 = Faulted" "k_fault_shutdown k1" "shutting_down k"
      using k1 assms by (auto simp: shutting_down_def calm_tick_def observed_def)
    have "note_response (fst (take_response (k_client k))) k1 = k1" using k1 by (simp add: note_response_def split: option.split)
    then have k2: "k_heater_done ?k2" "k_motor_done ?k2" "\<not> k_start_after ?k2" "k_fault_shutdown ?k2"
      "k_client ?k2 = k_client k1 \<or> k_client ?k2 = clear_command_status (k_client k1)"
      using k1 fs by (auto simp: note_failure_def Let_def)
    then have "session_tick_10ms dog app_side now k = ?k2\<lparr>k_state := Faulted\<rparr>"
      using stop_step[OF assms(1) fs(3)] by (simp add: advance_shutdown_def)
    then show ?thesis using k1 fs k2 c unfolding ticked_def
      by (intro exI[of _ ws] conjI disjI1 exI[of _ Rest]) (auto simp: next_program_def)
  qed
qed

lemma tick_stage:
  assumes "at_stage st ws (k_client k) k" "st \<noteq> HeaterAsked" "st \<noteq> MotorAsked" "client_line ws (k_client k)" "flight now ws (k_client k)"
    and "\<not> cl_waiting (k_client k)"
  shows "ticked st now k (session_tick_10ms dog app_side now k)"
proof (cases "alarm (snd (tick_observe dog now k))")
  case True
  from tick_alarm[OF assms(4-6) this] show ?thesis unfolding ticked_def by auto
next
  case False
  then obtain k1 where "calm_tick dog now ws k k1" using calm_tickI[OF assms(4-6)] by blast
  then show ?thesis using assms(1-3)
    by (cases st) (simp_all add: tick_fresh tick_heater_acked tick_motor_acked tick_rest)
qed

section \<open>Stages of the device\<close>

fun mcu_stage :: "stage \<Rightarrow> system \<Rightarrow> bool" where
  "mcu_stage Fresh s \<longleftrightarrow> True"
| "mcu_stage HeaterAsked s \<longleftrightarrow> True"
| "mcu_stage HeaterAcked s \<longleftrightarrow> \<not> pid_enabled (c_pid (sys_mcu s))"
| "mcu_stage MotorAsked s \<longleftrightarrow> \<not> pid_enabled (c_pid (sys_mcu s))"
| "mcu_stage MotorAcked s \<longleftrightarrow> mcu_off (sys_mcu s) \<and> outputs_off (sys_board s)"
| "mcu_stage Rest s \<longleftrightarrow> mcu_off (sys_mcu s) \<and> outputs_off (sys_board s)"

definition staged :: "stage \<Rightarrow> system \<Rightarrow> bool" where
  "staged st s \<longleftrightarrow> (\<exists>ws. locked ws s \<and> at_stage st ws (client_of s) (ar_session (sys_app s))) \<and> mcu_stage st s"

abbreviation both_off :: "stage \<Rightarrow> bool" where
  "both_off st \<equiv> st = MotorAsked \<or> st = MotorAcked \<or> st = Rest"

lemma stage_switched:
  assumes "at_stage st ws (client_of s) k" "mcu_stage st s" "flight now ws (client_of s)" "st \<noteq> Fresh"
  shows "switched_off (both_off st) ws (sys_mcu s)"
proof -
  have h: "\<forall>w \<in> set ws. harmless w" if "\<not> cl_waiting (client_of s)"
    by (intro heartbeats_harmless) (use that assms(3) in \<open>simp add: flight_def\<close>)
  have a: "(\<forall>w \<in> set ws. harmless w) \<and> (\<exists>q. (FtRequest, q, msg, []) \<in> set ws)" if "asked msg ws (client_of s)" "msg = HeaterOff \<or> msg = MotorStop" for msg
    using that heartbeats_harmless by (fastforce simp: asked_def harmless_def)
  show ?thesis
    using assms(1,2,4) h a[of HeaterOff] a[of MotorStop]
    by (cases st) (simp_all add: switched_off_def mcu_off_def acked_def)
qed

lemma outputs_off_watchdog [simp]: "outputs_off (b\<lparr>sb_watchdog := w\<rparr>) = outputs_off b"
  by (simp add: outputs_off_def sim_hw_def)

lemma keeps_switched: "mcu_keeps (\<lambda>ws m. b \<longrightarrow> switched_off both ws m) now"
  unfolding mcu_keeps_def
proof (intro conjI allI impI)
  fix w ws and m :: "(sim_board, transport) safety_mcu" and f
  assume "b \<longrightarrow> switched_off both (w # ws) m" "is_frame w f" b
  then show "switched_off both ws (handle_frame sim_hw mcu_side now f m)" using handle_frame_harmless by simp
qed (simp add: switched_off_def)

text \<open>One millisecond as the session sees it: a poll of its client, and in every tenth a tick.\<close>

definition clock_us :: "system \<Rightarrow> nat" where
  "clock_us s = unat (sb_now_us (sys_board s))"

definition since_tick :: "system \<Rightarrow> nat" where
  "since_tick s = unat (ar_divider (sys_app s))"

definition polled :: "wire list \<Rightarrow> system \<Rightarrow> (transport, watchdog) session \<Rightarrow> wire list \<Rightarrow> system \<Rightarrow> bool" where
  "polled ws s p ws' s' \<longleftrightarrow> sb_now_ms (sys_board s') = sb_now_ms (sys_board s) + 1 \<and>
     (\<exists>w c. p = (ar_session (sys_app s))\<lparr>k_watchdog := w, k_client := c\<rparr>) \<and>
     client_line ws' (k_client p) \<and> flight (sb_now_ms (sys_board s')) ws' (k_client p) \<and> \<not> cl_waiting (k_client p) \<and>
     replied ws (client_of s) (k_client p) \<and>
     ar_session (sys_app s') = (if since_tick s = 9 then session_tick_10ms wd_feed app_side (sb_now_ms (sys_board s')) p else p) \<and>
     since_tick s' = (if since_tick s = 9 then 0 else since_tick s + 1) \<and> client_of s' = k_client (ar_session (sys_app s')) \<and>
     (\<forall>ws2. client_line ws2 (client_of s') \<and> flight (sb_now_ms (sys_board s')) ws2 (client_of s') \<longrightarrow> locked ws2 s')"

lemma polledD:
  assumes "polled ws s p ws' s'"
  shows "sb_now_ms (sys_board s') = sb_now_ms (sys_board s) + 1" "k_state p = k_state (ar_session (sys_app s))"
    "k_program p = k_program (ar_session (sys_app s))" "k_started_ms p = k_started_ms (ar_session (sys_app s))"
    "next_program p = next_program (ar_session (sys_app s))" "at_stage st w c p = at_stage st w c (ar_session (sys_app s))"
    "k_fault_shutdown p = k_fault_shutdown (ar_session (sys_app s))" "k_start_after p = k_start_after (ar_session (sys_app s))"
    "client_line ws' (k_client p)" "flight (sb_now_ms (sys_board s')) ws' (k_client p)" "\<not> cl_waiting (k_client p)"
    "replied ws (client_of s) (k_client p)"
    "ar_session (sys_app s') = (if since_tick s = 9 then session_tick_10ms wd_feed app_side (sb_now_ms (sys_board s')) p else p)"
    "since_tick s' = (if since_tick s = 9 then 0 else since_tick s + 1)" "client_of s' = k_client (ar_session (sys_app s'))"
    "client_line ws2 (client_of s') \<Longrightarrow> flight (sb_now_ms (sys_board s')) ws2 (client_of s') \<Longrightarrow> locked ws2 s'"
  using assms unfolding polled_def
  by (elim exE conjE; (cases st)?; simp add: next_program_def progress_def shutting_down_def)+

lemma locked_since: "locked ws s \<Longrightarrow> since_tick s < 10"
  by (auto simp: since_tick_def locked_def system_inv_def fed_recently_def word_less_nat_alt)

lemma polled_step:
  assumes "locked ws s" "clock_us s + 1000 < 2 ^ 64"
    and "P ws (mcu_sample sim_hw (mcu_view (sb_step_1ms (sys_board s)) (sys_transport s) (sys_mcu s)))"
      "mcu_keeps P (sb_now_ms (sys_board s) + 1)"
  shows "\<exists>s' p ws' m1. system_step_1ms s = Some s' \<and> clock_us s' = clock_us s + 1000 \<and> polled ws s p ws' s' \<and> P [] m1 \<and> mcu_inv m1 \<and>
    sys_mcu s' = mcu_finish sim_hw mcu_side (sb_now_ms (sys_board s')) m1 \<and> outputs_off (sys_board s') = outputs_off (c_hw (sys_mcu s'))"
proof -
  let ?now = "sb_now_ms (sys_board s) + 1"
  obtain s' m1 m c ws' where s: "system_step_1ms s = Some s'" "system_inv s'" "sb_now_ms (sys_board s') = ?now"
    "unat (sb_now_us (sys_board s')) = unat (sb_now_us (sys_board s)) + 1000" "P [] m1" "mcu_inv m1"
    "m = mcu_finish sim_hw mcu_side ?now m1" "sys_mcu s' = m" "quiet (c_link m)"
    "sys_board s' = (c_hw m)\<lparr>sb_watchdog := k_watchdog (ar_session (sys_app s'))\<rparr>"
    "client_line ws' c" "flight ?now ws' c" "\<not> cl_waiting c" "replied ws (client_of s) c"
    "sys_app s' = app_divide wd_feed app_side ?now ((sys_app s)\<lparr>ar_session := polled_session c (c_hw m) s\<rparr>)"
    "client_of s' = k_client (ar_session (sys_app s'))"
    using locked_step[where P = P, OF assms(1) assms(2)[unfolded clock_us_def] assms(3,4)] by (elim exE conjE)
  have lt: "since_tick s < 10" using assms(1) by (rule locked_since)
  then have u: "unat (ar_divider (sys_app s) + 1) = since_tick s + 1" by (simp add: since_tick_def unat_word_ariths)
  then have "ar_divider (sys_app s) + 1 \<ge> 10 \<longleftrightarrow> since_tick s = 9" using lt by (auto simp: word_le_nat_alt)
  then have d: "ar_session (sys_app s') = (if since_tick s = 9 then session_tick_10ms wd_feed app_side ?now (polled_session c (c_hw m) s)
      else polled_session c (c_hw m) s)"
    "since_tick s' = (if since_tick s = 9 then 0 else since_tick s + 1)"
    using u by (simp_all add: s(15) app_divide_def Let_def since_tick_def)
  have "polled ws s (polled_session c (c_hw m) s) ws' s'"
    using s d unfolding polled_def by (auto simp: polled_session_def locked_def)
  moreover have "outputs_off (sys_board s') = outputs_off (c_hw (sys_mcu s'))" using s(8,10) by simp
  ultimately show ?thesis using s(1,3-8) unfolding clock_us_def by metis
qed

text \<open>The millisecond in which a program begins.\<close>

definition begins :: "program \<Rightarrow> system \<Rightarrow> bool" where
  "begins p s \<longleftrightarrow> (\<exists>ws. locked ws s) \<and> begun p (sb_now_ms (sys_board s)) (ar_session (sys_app s)) \<and> since_tick s = 0 \<and>
     mcu_off (sys_mcu s) \<and> outputs_off (sys_board s)"

abbreviation faulted :: "system \<Rightarrow> bool" where
  "faulted s \<equiv> k_state (ar_session (sys_app s)) = Faulted"

abbreviation next_of :: "system \<Rightarrow> program option" where
  "next_of s \<equiv> next_program (ar_session (sys_app s))"

definition stage_moves :: "stage \<Rightarrow> system \<Rightarrow> stage \<Rightarrow> system \<Rightarrow> bool" where
  "stage_moves st s st' s' \<longleftrightarrow>
     (if since_tick s = 9
      then since_tick s' = 0 \<and>
        (st' = ticked_stage (polled_stage st) \<and> (faulted s' \<longleftrightarrow> faulted s) \<and> next_of s' = next_of s \<or>
         st' = HeaterAsked \<and> faulted s' \<and> \<not> faulted s \<and> next_of s' = None)
      else since_tick s' = since_tick s + 1 \<and> st' = polled_stage st \<and> (faulted s' \<longleftrightarrow> faulted s) \<and> next_of s' = next_of s)"

lemma stage_tick:
  assumes "polled ws s p ws' s'" "since_tick s = 9" "at_stage (polled_stage st) ws' (k_client p) p" "mcu_stage (polled_stage st) s'"
  shows "(\<exists>st'. staged st' s' \<and> stage_moves st s st' s') \<or> (\<exists>p. next_of s = Some p \<and> begins p s')"
proof -
  let ?now = "sb_now_ms (sys_board s')" and ?pst = "polled_stage st"
  note p = polledD[OF assms(1)]
  have a: "ar_session (sys_app s') = session_tick_10ms wd_feed app_side ?now p" "since_tick s' = 0" using p(13,14) assms(2) by simp_all
  have "?pst \<noteq> HeaterAsked" "?pst \<noteq> MotorAsked" by (cases st; simp)+
  then have "ticked ?pst ?now p (ar_session (sys_app s'))" using tick_stage[OF assms(3) _ _ p(9-11)] by (simp add: a(1))
  then obtain ws2 where t: "client_line ws2 (client_of s')" "flight ?now ws2 (client_of s')"
    "(\<exists>st'. at_stage st' ws2 (client_of s') (ar_session (sys_app s')) \<and>
      (st' = ticked_stage ?pst \<and> (faulted s' \<longleftrightarrow> faulted s) \<and> next_of s' = next_of s \<or>
       st' = HeaterAsked \<and> faulted s' \<and> \<not> faulted s \<and> next_of s' = None)) \<or>
     ?pst = MotorAcked \<and> (\<exists>p. next_of s = Some p \<and> begun p ?now (ar_session (sys_app s')))"
    unfolding ticked_def p(2,5,15) by (elim exE conjE)
  have l: "locked ws2 s'" using p(16) t(1,2) .
  from t(3) show ?thesis
  proof (elim disjE exE)
    fix st' assume st: "at_stage st' ws2 (client_of s') (ar_session (sys_app s')) \<and>
      (st' = ticked_stage ?pst \<and> (faulted s' \<longleftrightarrow> faulted s) \<and> next_of s' = next_of s \<or>
       st' = HeaterAsked \<and> faulted s' \<and> \<not> faulted s \<and> next_of s' = None)"
    have "mcu_stage st' s'" using st assms(4) by (cases ?pst) auto
    then have "staged st' s'" using l st by (auto simp: staged_def)
    then show ?thesis using st a(2) assms(2) by (auto simp: stage_moves_def)
  next
    assume "?pst = MotorAcked \<and> (\<exists>p. next_of s = Some p \<and> begun p ?now (ar_session (sys_app s')))"
    then show ?thesis using l a(2) assms(4) by (auto simp: begins_def)
  qed
qed

lemma stage_step:
  assumes "staged st s" "clock_us s + 1000 < 2 ^ 64"
  shows "\<exists>s'. system_step_1ms s = Some s' \<and> clock_us s' = clock_us s + 1000 \<and>
    ((\<exists>st'. staged st' s' \<and> stage_moves st s st' s') \<or> (\<exists>p. next_of s = Some p \<and> begins p s'))"
proof -
  let ?k = "ar_session (sys_app s)" and ?pst = "polled_stage st"
  obtain ws where w: "locked ws s" "at_stage st ws (client_of s) ?k" "mcu_stage st s" using assms(1) by (auto simp: staged_def)
  have fl: "flight (sb_now_ms (sys_board s)) ws (client_of s)" using w(1) by (simp add: locked_def)
  have sw: "st \<noteq> Fresh \<longrightarrow> switched_off (both_off st) ws (mcu_sample sim_hw (mcu_view (sb_step_1ms (sys_board s)) (sys_transport s) (sys_mcu s)))"
    using stage_switched[OF w(2,3) fl] by (intro impI mcu_sample_harmless) (simp add: switched_off_def mcu_view_def)
  obtain s' p ws' m1 where s: "system_step_1ms s = Some s'" "clock_us s' = clock_us s + 1000" "polled ws s p ws' s'"
    "st \<noteq> Fresh \<longrightarrow> switched_off (both_off st) [] m1" "mcu_inv m1" "sys_mcu s' = mcu_finish sim_hw mcu_side (sb_now_ms (sys_board s')) m1"
    "outputs_off (sys_board s') = outputs_off (c_hw (sys_mcu s'))"
    using polled_step[OF w(1) assms(2) sw keeps_switched] by (elim exE conjE)
  note p = polledD[OF s(3)]
  have m: "mcu_stage ?pst s'"
    using mcu_finish_harmless[OF s(5), of "both_off st" mcu_side] s(4) by (cases st) (simp_all add: s(6,7))
  have st: "at_stage ?pst ws' (k_client p) p" unfolding p(6) using poll_stage[OF w(2) p(12,11)] .
  show ?thesis
  proof (cases "since_tick s = 9")
    case True
    then show ?thesis using stage_tick[OF s(3) True st m] s(1,2) by blast
  next
    case False
    then have a: "ar_session (sys_app s') = p" "since_tick s' = since_tick s + 1" using p(13,14) by simp_all
    have l: "locked ws' s'" by (rule p(16)) (use p(9,10,15) a(1) in simp_all)
    have "staged ?pst s'" using l st m p(15) a(1) by (auto simp: staged_def)
    moreover have "stage_moves st s ?pst s'" using False a p(2,5) by (simp add: stage_moves_def)
    ultimately show ?thesis using s(1,2) by blast
  qed
qed

section \<open>Reaching rest\<close>

text \<open>How many ticks are left at most: a fault that is new starts the sequence again, once.\<close>

fun level :: "stage \<Rightarrow> nat" where
  "level Fresh = 3"
| "level HeaterAsked = 2"
| "level HeaterAcked = 2"
| "level MotorAsked = 1"
| "level MotorAcked = 1"
| "level Rest = 0"

definition ms_left :: "stage \<Rightarrow> system \<Rightarrow> nat" where
  "ms_left st s = 10 * (level st + (if k_state (ar_session (sys_app s)) = Faulted then 0 else 2)) + 9 - since_tick s"

lemma level_stages [simp]: "level (polled_stage st) = level st" "level (ticked_stage (polled_stage st)) = level st - 1"
  by (cases st; simp)+

lemma level_Rest: "level st = 0 \<longleftrightarrow> st = Rest"
  by (cases st) simp_all

lemma system_step_ms_add: "system_step_ms (t + u) s = Option.bind (system_step_ms t s) (system_step_ms u)"
  by (induction t arbitrary: s) (auto split: Option.bind_split)

lemma staged_since: "staged st s \<Longrightarrow> since_tick s < 10"
  using locked_since by (auto simp: staged_def)

lemma ms_left_decreases:
  assumes "since_tick s < 10" "st \<noteq> Rest" "stage_moves st s st' s'"
  shows "ms_left st' s' < ms_left st s"
proof (cases "since_tick s = 9")
  case True
  moreover have "level st > 0" using level_Rest[of st] assms(2) by simp
  ultimately have "level st' + (if faulted s' then 0 else 2) < level st + (if faulted s then 0 else 2)" "since_tick s' = 0"
    using assms(3) by (auto simp: stage_moves_def split: if_splits)
  then show ?thesis using True by (simp add: ms_left_def)
next
  case False
  then show ?thesis using assms(1,3) by (simp add: ms_left_def stage_moves_def)
qed

text \<open>The end of a shutdown: rest, or the beginning of the next program.\<close>

definition shutdown_ends :: "system \<Rightarrow> system \<Rightarrow> bool" where
  "shutdown_ends s s1 \<longleftrightarrow>
     staged Rest s1 \<and> (next_of s \<noteq> None \<or> k_state (ar_session (sys_app s)) = Faulted \<longrightarrow> k_state (ar_session (sys_app s1)) = Faulted) \<or>
     (\<exists>p. next_of s = Some p \<and> begins p s1)"

lemma shutdown_ends_step:
  assumes "stage_moves st s st' s'" "shutdown_ends s' s1"
  shows "shutdown_ends s s1"
  using assms by (auto simp: shutdown_ends_def stage_moves_def split: if_splits)

lemma Rest_next: "staged Rest s \<Longrightarrow> next_of s = None"
  by (auto simp: staged_def next_program_def)

text \<open>Some state with a property is reached in_ms a number of milliseconds.\<close>

definition in_ms :: "nat \<Rightarrow> (system \<Rightarrow> bool) \<Rightarrow> system \<Rightarrow> bool" where
  "in_ms b Q s \<longleftrightarrow> (\<exists>t s1. t \<le> b \<and> system_step_ms t s = Some s1 \<and> Q s1 \<and> clock_us s1 = clock_us s + t * 1000)"

lemma in_ms_now: "Q s \<Longrightarrow> in_ms b Q s"
  unfolding in_ms_def by (intro exI[of _ 0] exI[of _ s]) simp

lemma in_ms_step:
  assumes "system_step_1ms s = Some s'" "clock_us s' = clock_us s + 1000" "in_ms b Q s'" "b < b'"
  shows "in_ms b' Q s"
proof -
  obtain t s1 where "t \<le> b" "system_step_ms t s' = Some s1" "Q s1" "clock_us s1 = clock_us s' + t * 1000" using assms(3) by (auto simp: in_ms_def)
  then show ?thesis using assms unfolding in_ms_def by (intro exI[of _ "Suc t"] exI[of _ s1]) simp
qed

lemma in_ms_trans:
  assumes "in_ms a P s" "\<And>s1. P s1 \<Longrightarrow> clock_us s1 \<le> clock_us s + a * 1000 \<Longrightarrow> in_ms b Q s1"
  shows "in_ms (a + b) Q s"
proof -
  obtain t s1 where t: "t \<le> a" "system_step_ms t s = Some s1" "P s1" "clock_us s1 = clock_us s + t * 1000" using assms(1) by (auto simp: in_ms_def)
  then have "in_ms b Q s1" by (intro assms(2)) simp_all
  then obtain u s2 where "u \<le> b" "system_step_ms u s1 = Some s2" "Q s2" "clock_us s2 = clock_us s1 + u * 1000" by (auto simp: in_ms_def)
  then show ?thesis using t unfolding in_ms_def by (intro exI[of _ "t + u"] exI[of _ s2]) (simp add: system_step_ms_add)
qed

lemma in_ms_mono:
  assumes "in_ms a P s" "\<And>s1. P s1 \<Longrightarrow> Q s1" "a \<le> b"
  shows "in_ms b Q s"
proof -
  obtain t s1 where "t \<le> a" "system_step_ms t s = Some s1" "P s1" "clock_us s1 = clock_us s + t * 1000" using assms(1) by (auto simp: in_ms_def)
  then show ?thesis using assms(2,3) unfolding in_ms_def by (intro exI[of _ t] exI[of _ s1]) simp
qed

lemma reaches_end:
  assumes "staged st s" "clock_us s + ms_left st s * 1000 < 2 ^ 64"
  shows "in_ms (ms_left st s) (shutdown_ends s) s"
  using assms
proof (induction "ms_left st s" arbitrary: st s rule: less_induct)
  case less
  show ?case
  proof (cases "st = Rest")
    case True
    then show ?thesis using less.prems(1) Rest_next by (intro in_ms_now) (simp add: shutdown_ends_def)
  next
    case False
    have pos: "0 < ms_left st s" using staged_since[OF less.prems(1)] level_Rest[of st] False by (simp add: ms_left_def)
    then have "clock_us s + 1000 < 2 ^ 64" using less.prems(2) by simp
    from stage_step[OF less.prems(1) this] obtain s' where s: "system_step_1ms s = Some s'" "clock_us s' = clock_us s + 1000"
      "(\<exists>st'. staged st' s' \<and> stage_moves st s st' s') \<or> (\<exists>p. next_of s = Some p \<and> begins p s')" by blast
    from s(3) show ?thesis
    proof (elim disjE)
      assume "\<exists>p. next_of s = Some p \<and> begins p s'"
      then have "in_ms 0 (shutdown_ends s) s'" by (intro in_ms_now) (simp add: shutdown_ends_def)
      then show ?thesis by (rule in_ms_step[OF s(1,2) _ pos])
    next
      assume "\<exists>st'. staged st' s' \<and> stage_moves st s st' s'"
      then obtain st' where st: "staged st' s'" "ms_left st' s' < ms_left st s" "stage_moves st s st' s'"
        using ms_left_decreases[OF staged_since[OF less.prems(1)] False] by blast
      then have "clock_us s' + ms_left st' s' * 1000 < 2 ^ 64" using less.prems(2) s(2) by simp
      from less.hyps[OF st(2,1) this] have "in_ms (ms_left st' s') (shutdown_ends s) s'"
        by (rule in_ms_mono) (use shutdown_ends_step[OF st(3)] in auto)
      then show ?thesis by (rule in_ms_step[OF s(1,2) _ st(2)])
    qed
  qed
qed

text \<open>Every shutdown in progress takes less than 60 ms.\<close>

lemma ms_left_bound: "ms_left st s < 60"
proof -
  have "level st \<le> 3" by (cases st) simp_all
  then have "10 * (level st + (if k_state (ar_session (sys_app s)) = Faulted then 0 else 2)) \<le> 50" by simp
  then show ?thesis unfolding ms_left_def by linarith
qed

lemma shutdown_progress:
  assumes "staged st s" "clock_us s + 59 * 1000 < 2 ^ 64"
  shows "in_ms 59 (shutdown_ends s) s"
proof -
  have b: "ms_left st s \<le> 59" using ms_left_bound[of st s] by simp
  then have "ms_left st s * 1000 \<le> 59 * 1000" by (rule mult_le_mono1)
  then have "clock_us s + ms_left st s * 1000 < 2 ^ 64" using assms(2) by linarith
  from reaches_end[OF assms(1) this] show ?thesis by (rule in_ms_mono) (use b in auto)
qed

lemma shutdown_within:
  assumes "staged st s" "next_of s = None" "clock_us s + 59 * 1000 < 2 ^ 64"
  shows "in_ms 59 (staged Rest) s"
  using shutdown_progress[OF assms(1,3)] by (rule in_ms_mono) (use assms(2) in \<open>auto simp: shutdown_ends_def\<close>)

section \<open>Staying there\<close>

definition ended :: "('u, 'w) session \<Rightarrow> bool" where
  "ended k \<longleftrightarrow> (k_state k = Done \<or> k_state k = Faulted \<and> k_fault_shutdown k) \<and> \<not> k_start_after k"

lemma ended_client [simp]: "ended (k\<lparr>k_client := c\<rparr>) = ended k"
  by (simp add: ended_def)

definition resting :: "system \<Rightarrow> bool" where
  "resting s \<longleftrightarrow> (\<exists>ws. locked ws s \<and> (\<forall>w \<in> set ws. harmless w)) \<and> mcu_off (sys_mcu s) \<and> outputs_off (sys_board s) \<and>
     ended (ar_session (sys_app s))"

lemma asked_harmless: "asked msg ws c \<Longrightarrow> msg = HeaterOff \<or> msg = MotorStop \<Longrightarrow> \<forall>w \<in> set ws. harmless w"
  using heartbeats_harmless by (fastforce simp: asked_def harmless_def)

lemma flight_harmless: "flight now ws c \<Longrightarrow> \<not> cl_waiting c \<Longrightarrow> \<forall>w \<in> set ws. harmless w"
  by (intro heartbeats_harmless) (simp add: flight_def)

lemma advance_harmless:
  assumes "client_line ws (k_client k)" "flight now ws (k_client k)" "\<not> cl_waiting (k_client k)" "\<not> cl_response_ready (k_client k)"
    and "k_state k = Faulted" "k_fault_shutdown k" "\<not> k_start_after k"
  defines "k' \<equiv> advance_shutdown app_side now k"
  shows "(\<exists>ws. client_line ws (k_client k') \<and> flight now ws (k_client k') \<and> (\<forall>w \<in> set ws. harmless w)) \<and> ended k'"
proof -
  have same: "\<exists>ws. client_line ws (k_client k) \<and> flight now ws (k_client k) \<and> (\<forall>w \<in> set ws. harmless w)"
    using flight_harmless[OF assms(2,3)] assms(1,2) by blast
  have sent: "\<exists>c' ws'. client_request app_side now msg None 0 (k_client k) = (Ok, c') \<and> client_line ws' c' \<and> flight now ws' c' \<and>
      (\<forall>w \<in> set ws'. harmless w)" if "msg = HeaterOff \<or> msg = MotorStop" for msg
  proof -
    have "msg \<in> set named_msg_ids" using that by (auto simp: named_msg_ids_def)
    then obtain c' ws' where "client_request app_side now msg None 0 (k_client k) = (Ok, c')" "client_line ws' c'" "asked msg ws' c'" "flight now ws' c'"
      using send_stop[OF assms(1-4), of msg] by blast
    then show ?thesis using asked_harmless[OF _ that] by blast
  qed
  obtain c1 where h: "client_request app_side now HeaterOff None 0 (k_client k) = (Ok, c1)"
    "\<exists>ws'. client_line ws' c1 \<and> flight now ws' c1 \<and> (\<forall>w \<in> set ws'. harmless w)" using sent[of HeaterOff] by blast
  obtain c2 where m: "client_request app_side now MotorStop None 0 (k_client k) = (Ok, c2)"
    "\<exists>ws'. client_line ws' c2 \<and> flight now ws' c2 \<and> (\<forall>w \<in> set ws'. harmless w)" using sent[of MotorStop] by blast
  show ?thesis
    using assms(5-7) same h m
    by (simp add: k'_def advance_shutdown_def client_heater_off_def client_motor_stop_def ended_def)
qed

lemma rest_tick:
  fixes dog
  assumes "client_line ws (k_client k)" "flight now ws (k_client k)" "\<not> cl_waiting (k_client k)"
    and "ended k"
  defines "k' \<equiv> session_tick_10ms dog app_side now k"
  shows "(\<exists>ws. client_line ws (k_client k') \<and> flight now ws (k_client k') \<and> (\<forall>w \<in> set ws. harmless w)) \<and> ended k'"
proof -
  let ?c = "snd (take_response (k_client k))" and ?r = "fst (take_response (k_client k))"
  let ?k1 = "tick_ota (tick_check_faults (snd (tick_observe dog now k)))"
  let ?k2 = "note_failure (note_response ?r ?k1)"
  have p: "tick_prepare dog now k = (?r, ?k1)" by (intro prod_eqI) (simp_all add: tick_prepare_alt)
  have c: "client_line ws ?c" "flight now ws ?c" "\<not> cl_waiting ?c" "\<not> cl_response_ready ?c"
    using assms(1-3) by (simp_all) (simp add: take_response_def)
  have k1: "k_client ?k1 = ?c \<or> k_client ?k1 = clear_command_status ?c" "ended ?k1"
    using assms(4) by (auto simp: tick_check_faults_def ended_def)
  then have g1: "client_line ws (k_client ?k1)" "flight now ws (k_client ?k1)" "\<not> cl_waiting (k_client ?k1)" "\<not> cl_response_ready (k_client ?k1)"
    using c by auto
  have "k_client ?k2 = k_client ?k1 \<or> k_client ?k2 = clear_command_status (k_client ?k1)" by (simp add: note_failure_def Let_def)
  then have g2: "client_line ws (k_client ?k2)" "flight now ws (k_client ?k2)" "\<not> cl_waiting (k_client ?k2)" "\<not> cl_response_ready (k_client ?k2)"
    using g1 by auto
  show ?thesis
  proof (cases "k_state ?k1 = Done")
    case True
    then have "k' = ?k1" by (simp add: k'_def session_tick_10ms_def p)
    then show ?thesis using g1 k1 flight_harmless[OF g1(2,3)] by auto
  next
    case False
    then have e: "k_state ?k2 = Faulted" "k_fault_shutdown ?k2" "\<not> k_start_after ?k2" "k' = advance_shutdown app_side now ?k2"
      using k1(2) by (auto simp: k'_def session_tick_10ms_def p run_stopping_sequence_def ended_def)
    show ?thesis unfolding e(4) by (rule advance_harmless[OF g2 e(1-3)])
  qed
qed

lemma resting_step:
  assumes "resting s" "clock_us s + 1000 < 2 ^ 64"
  shows "\<exists>s'. system_step_1ms s = Some s' \<and> resting s' \<and> clock_us s' = clock_us s + 1000"
proof -
  obtain ws where w: "locked ws s" "\<forall>w \<in> set ws. harmless w" "mcu_off (sys_mcu s)" "ended (ar_session (sys_app s))"
    using assms(1) by (auto simp: resting_def)
  have sw: "True \<longrightarrow> switched_off True ws (mcu_sample sim_hw (mcu_view (sb_step_1ms (sys_board s)) (sys_transport s) (sys_mcu s)))"
    using w(2,3) by (intro impI mcu_sample_harmless) (simp add: switched_off_def mcu_view_def mcu_off_def)
  obtain s' p ws' m1 where s: "system_step_1ms s = Some s'" "clock_us s' = clock_us s + 1000" "polled ws s p ws' s'"
    "True \<longrightarrow> switched_off True [] m1" "mcu_inv m1" "sys_mcu s' = mcu_finish sim_hw mcu_side (sb_now_ms (sys_board s')) m1"
    "outputs_off (sys_board s') = outputs_off (c_hw (sys_mcu s'))"
    using polled_step[OF w(1) assms(2) sw keeps_switched] by (elim exE conjE)
  note p = polledD[OF s(3)]
  have off: "mcu_off (sys_mcu s')" "outputs_off (sys_board s')"
    using mcu_finish_harmless(2)[OF s(5), of True mcu_side] s(4) by (simp_all add: s(6,7))
  have e: "ended p" using w(4) by (simp add: ended_def p(2,7,8))
  have "\<exists>ws. client_line ws (client_of s') \<and> flight (sb_now_ms (sys_board s')) ws (client_of s') \<and> (\<forall>w \<in> set ws. harmless w)"
    "ended (ar_session (sys_app s'))"
    using rest_tick[OF p(9-11) e, of wd_feed] flight_harmless[OF p(10,11)] p(9,10) e unfolding p(15,13)
    by (cases "since_tick s = 9"; auto)+
  then have "resting s'" using off p(16) unfolding resting_def by blast
  then show ?thesis using s(1,2) by blast
qed

lemma resting_stays:
  assumes "resting s" "clock_us s + n * 1000 < 2 ^ 64"
  shows "\<exists>s'. system_step_ms n s = Some s' \<and> resting s'"
  using assms
proof (induction n arbitrary: s)
  case (Suc n)
  then have "clock_us s + 1000 < 2 ^ 64" by simp
  from resting_step[OF Suc.prems(1) this] obtain s1 where "system_step_1ms s = Some s1" "resting s1" "clock_us s1 = clock_us s + 1000" by blast
  then show ?case using Suc.IH[of s1] Suc.prems(2) by simp
qed simp

lemma Rest_resting:
  assumes "staged Rest s"
  shows "resting s"
proof -
  obtain ws where w: "locked ws s" "at_stage Rest ws (client_of s) (ar_session (sys_app s))" "mcu_off (sys_mcu s)" "outputs_off (sys_board s)"
    using assms by (auto simp: staged_def)
  have "flight (sb_now_ms (sys_board s)) ws (client_of s)" "\<not> cl_waiting (client_of s)" using w(1,2) by (simp_all add: locked_def)
  then have "\<forall>w \<in> set ws. harmless w" by (rule flight_harmless)
  then show ?thesis using w by (auto simp: resting_def ended_def)
qed

lemma rest_for_good:
  assumes "in_ms b (staged Rest) s" "b \<le> n" "clock_us s + n * 1000 < 2 ^ 64"
  shows "\<exists>s2. system_step_ms n s = Some s2 \<and> resting s2"
proof -
  obtain t s1 where t: "t \<le> b" "system_step_ms t s = Some s1" "staged Rest s1" "clock_us s1 = clock_us s + t * 1000"
    using assms(1) by (auto simp: in_ms_def)
  have le: "t \<le> n" using t(1) assms(2) by simp
  have "clock_us s1 + (n - t) * 1000 < 2 ^ 64" using t(4) assms(3) le by (simp add: diff_mult_distrib)
  from resting_stays[OF Rest_resting[OF t(3)] this] obtain s2 where s2: "system_step_ms (n - t) s1 = Some s2" "resting s2" by blast
  then have "system_step_ms n s = Some s2" using system_step_ms_add[of t "n - t" s] t(2) le by simp
  then show ?thesis using s2(2) by blast
qed

section \<open>Property\<close>

text \<open>
  C15: stopping works end to end. From every state the device can reach with a session that is not
  shutting down already, less than 60 ms after the stop heater-off and motor-stop have both been
  acknowledged, whatever is on its way and whatever fault occurs meanwhile; and 60 ms after it and at any
  later time, until the user acts again, both controllers of the MCU are off, the duty of the motor is 0
  and the heater has no power.
\<close>

theorem stop_reaches_rest:
  assumes "system_reach s" "k_state (ar_session (sys_app s)) \<notin> {Stopping, Faulted}"
    and "60 \<le> n" "unat (sb_now_us (sys_board s)) + n * 1000 < 2 ^ 64"
  defines "s0 \<equiv> snd (with_session (\<lambda>k. ((), session_stop k)) s)"
  shows "\<exists>t s1 s2. t < 60 \<and> system_step_ms t s0 = Some s1 \<and>
      k_state (ar_session (sys_app s1)) \<in> {Done, Faulted} \<and> k_heater_done (ar_session (sys_app s1)) \<and> k_motor_done (ar_session (sys_app s1)) \<and>
    system_step_ms n s0 = Some s2 \<and> mcu_off (sys_mcu s2) \<and> mm_duty (sb_motor (sys_board s2)) = 0 \<and> heater_power_w sim_hw (sys_board s2) = 0"
proof -
  have k: "ar_session (sys_app s0) = begin_shutdown False (ar_session (sys_app s))" "sys_board s0 = sys_board s"
    using assms(2) by (simp_all add: s0_def with_session_def session_stop_def)
  obtain ws where "locked ws s0" using reach_locked[OF system_reach.stop[OF assms(1)]] unfolding s0_def by blast
  then have st: "staged Fresh s0" "next_of s0 = None" using k(1) by (auto simp: staged_def shutting_down_def progress_def next_program_def)
  have c: "clock_us s0 + n * 1000 < 2 ^ 64" "59 \<le> n" using assms(3,4) k(2) by (simp_all add: clock_us_def)
  then have w: "in_ms 59 (staged Rest) s0" by (intro shutdown_within[OF st]) linarith
  then obtain t s1 where t: "t \<le> 59" "system_step_ms t s0 = Some s1" "staged Rest s1" unfolding in_ms_def by blast
  obtain s2 where "system_step_ms n s0 = Some s2" "resting s2" using rest_for_good[OF w c(2,1)] by blast
  then show ?thesis using t by (intro exI[of _ t] exI[of _ s1] exI[of _ s2]) (auto simp: staged_def resting_def outputs_off_def)
qed

theorem stop_reaches_rest_witness:
  "let s = snd (with_client (client_request app_side 0 HeaterSetTarget (Some (put_i16 600)) 2) (system_init (sconst 0) (sconst 0)))
   in \<exists>s2. system_step_ms 100 (snd (with_session (\<lambda>k. ((), session_stop k)) s)) = Some s2 \<and> mcu_off (sys_mcu s2) \<and>
        heater_power_w sim_hw (sys_board s2) = 0"
proof -
  let ?init = "system_init (sconst 0) (sconst 0)"
  let ?s = "snd (with_client (client_request app_side 0 HeaterSetTarget (Some (put_i16 600)) 2) ?init)"
  have "system_reach ?s"
    by (intro system_reach.request system_reach.start)
      (simp_all add: named_msg_ids_def system_init_def Let_def sim_board_init_def sb_now_ms_def to_millis_def)
  moreover have "k_state (ar_session (sys_app ?s)) \<notin> {Stopping, Faulted}"
    by (simp add: with_client_def case_prod_beta system_init_def Let_def app_runtime_init_def session_init_def attach_ota_def)
  moreover have "unat (sb_now_us (sys_board ?s)) + 100 * 1000 < 2 ^ 64"
    by (simp add: with_client_def case_prod_beta system_init_def Let_def sim_board_init_def)
  ultimately show ?thesis using stop_reaches_rest[of ?s 100] unfolding Let_def by auto
qed

end
