(* ===== verification/Timed_Program.thy ===== *)
theory Timed_Program
  imports Safe_Stop
begin

text \<open>
  Cooking for a time, end to end, in the simulated device: a started program waits for the stop of what was
  there, begins with the outputs off, runs until its time is over and is shut down. Shown here: a program or
  recipe that ends by time and is left alone has begun or failed 60 ms after the start, and 130 ms past its
  time the outputs of the board are off, whatever fault occurs meanwhile.
\<close>

section \<open>How long a program takes\<close>

text \<open>
  Four programs end by the clock, at the first tick past their duration. A recipe of mix and heat steps
  takes the duration of its steps and at most 50 ms for each to send its requests and to wait for ticks. A
  turbo pulse waits for the motor to slow down, and notes and weigh steps wait for the user.
\<close>

fun program_duration :: "program \<Rightarrow> millis option" where
  "program_duration (PManual p) = Some (man_duration_ms p)"
| "program_duration (PDough p) = Some (dou_duration_ms p)"
| "program_duration (PSteam p) = Some (ste_duration_ms p)"
| "program_duration (PSousVide p) = Some (sou_duration_ms p)"
| "program_duration (PTurbo p) = None"
| "program_duration (PGuided p) = None"

text \<open>Durations in the last ten milliseconds before the wrap-around of the clock may be missed by the ticks.\<close>

definition in_clock :: "millis \<Rightarrow> bool" where
  "in_clock d \<longleftrightarrow> unat d + 10 < 2 ^ 32"

definition step_length :: "recipe_step \<Rightarrow> millis" where
  "step_length st = st_duration_s st * 1000"

definition timed_recipe :: "recipe \<Rightarrow> bool" where
  "timed_recipe r \<longleftrightarrow> (\<forall>i < r_step_count r. st_kind (r_steps r ! i) \<in> {Mix, Heat} \<and> in_clock (step_length (r_steps r ! i)))"

definition recipe_ms :: "nat \<Rightarrow> recipe \<Rightarrow> nat" where
  "recipe_ms i r = (\<Sum>j = i..<r_step_count r. unat (step_length (r_steps r ! j)) + 50)"

fun program_time :: "program \<Rightarrow> nat option" where
  "program_time (PGuided g) =
     (if g = guided_recipe_new (gui_recipe g) \<and> timed_recipe (gui_recipe g) then Some (recipe_ms 0 (gui_recipe g)) else None)"
| "program_time p = (case program_duration p of Some d \<Rightarrow> if in_clock d then Some (unat d) else None | None \<Rightarrow> None)"

lemma recipe_ms_step: "i < r_step_count r \<Longrightarrow> recipe_ms i r = unat (step_length (r_steps r ! i)) + 50 + recipe_ms (Suc i) r"
  by (simp add: recipe_ms_def sum.atLeast_Suc_lessThan)

section \<open>A deadline\<close>

text \<open>
  The state of a countdown to a duration \<open>d\<close>: the time that has passed, and the milliseconds since the last
  tick. What is left of it goes down with every millisecond until a tick finds it over.
\<close>

definition counting :: "millis \<Rightarrow> millis \<Rightarrow> nat \<Rightarrow> bool" where
  "counting d e u \<longleftrightarrow> in_clock d \<and> unat e \<le> unat d + u"

definition count_left :: "millis \<Rightarrow> millis \<Rightarrow> nat \<Rightarrow> nat" where
  "count_left d e u = (if unat e < unat d then unat d - unat e + 10 else 10 - u)"

lemma counting_next: "counting d e u \<Longrightarrow> u < 10 \<Longrightarrow> unat (e + 1) = unat e + 1"
  by (simp add: counting_def in_clock_def unat_word_ariths)

lemma count_wait:
  assumes "counting d e u" "u + 1 < 10"
  shows "counting d (e + 1) (u + 1)" "count_left d (e + 1) (u + 1) < count_left d e u"
proof -
  have e: "unat (e + 1) = unat e + 1" using counting_next[OF assms(1)] assms(2) by simp
  show "counting d (e + 1) (u + 1)" using assms(1) e by (simp add: counting_def)
  show "count_left d (e + 1) (u + 1) < count_left d e u"
    using assms(2) e unfolding count_left_def by (cases "unat e + 1 < unat d"; cases "unat e < unat d") auto
qed

lemma count_tick:
  assumes "counting d e 9" "\<not> d \<le> e + 1"
  shows "counting d (e + 1) 0" "count_left d (e + 1) 0 < count_left d e 9"
proof -
  have e: "unat (e + 1) = unat e + 1" "unat e + 1 < unat d" using counting_next[OF assms(1)] assms(2) by (simp_all add: word_le_nat_alt)
  then show "counting d (e + 1) 0" "count_left d (e + 1) 0 < count_left d e 9"
    using assms(1) by (simp_all add: counting_def count_left_def)
qed

lemma count_start: "in_clock d \<Longrightarrow> counting d 0 0" "count_left d 0 0 \<le> unat d + 10" "count_left d e u \<ge> 10 - u"
  by (simp_all add: counting_def count_left_def) linarith

section \<open>Programs on time\<close>

abbreviation current_step :: "guided_recipe \<Rightarrow> recipe_step" where
  "current_step g \<equiv> r_steps (gui_recipe g) ! gui_step_index g"

text \<open>A heat step has two requests to send before and after it, one for each tick.\<close>

definition extra_tick :: "guided_recipe \<Rightarrow> nat" where
  "extra_tick g = (if st_kind (current_step g) = Heat \<and> gui_command_index g = 0 then 10 else 0)"

definition recipe_on_time :: "guided_recipe \<Rightarrow> millis \<Rightarrow> nat \<Rightarrow> bool" where
  "recipe_on_time g e u \<longleftrightarrow> timed_recipe (gui_recipe g) \<and>
     (gui_phase g = Run \<and> gui_step_index g < r_step_count (gui_recipe g) \<longrightarrow>
      counting (step_length (current_step g)) (e - gui_step_started_ms g) u)"

definition recipe_left :: "guided_recipe \<Rightarrow> millis \<Rightarrow> nat \<Rightarrow> nat" where
  "recipe_left g e u =
     (if gui_step_index g \<ge> r_step_count (gui_recipe g) then 10 - u
      else recipe_ms (Suc (gui_step_index g)) (gui_recipe g) +
        (case gui_phase g of
           Setup \<Rightarrow> (10 - u) + extra_tick g + unat (step_length (current_step g)) + 30
         | Run \<Rightarrow> count_left (step_length (current_step g)) (e - gui_step_started_ms g) u + 20
         | Teardown \<Rightarrow> (10 - u) + extra_tick g))"

fun on_time :: "program \<Rightarrow> millis \<Rightarrow> nat \<Rightarrow> bool" where
  "on_time (PGuided g) e u = recipe_on_time g e u"
| "on_time p e u = (case program_duration p of Some d \<Rightarrow> counting d e u | None \<Rightarrow> False)"

fun time_left :: "program \<Rightarrow> millis \<Rightarrow> nat \<Rightarrow> nat" where
  "time_left (PGuided g) e u = recipe_left g e u"
| "time_left p e u = (case program_duration p of Some d \<Rightarrow> count_left d e u | None \<Rightarrow> 0)"

lemma by_duration:
  assumes "program_duration p = Some d"
  shows "on_time p e u = counting d e u" "time_left p e u = count_left d e u" "program_finished e p \<longleftrightarrow> d \<le> e"
  using assms by (cases p; auto)+

lemma duration_kept: "program_duration (fst (program_on_tick io now e p c)) = program_duration p"
  by (cases p) (simp_all add: manual_on_tick_def dough_on_tick_def steam_on_tick_def sous_vide_on_tick_def Let_def case_prod_beta)

lemma on_time_kinds:
  assumes "on_time p e u"
  obtains d where "program_duration p = Some d" | g where "p = PGuided g"
  using assms by (cases p) auto

lemma time_left_pos: "on_time p e u \<Longrightarrow> u < 10 \<Longrightarrow> 0 < time_left p e u"
proof (erule on_time_kinds)
  fix d assume "program_duration p = Some d" "u < 10"
  then show ?thesis using count_start(3)[of u d e] by (simp add: by_duration)
next
  fix g assume "p = PGuided g" "u < 10"
  then show ?thesis by (simp add: recipe_left_def split: guided_phase.split)
qed

lemma time_wait:
  assumes "on_time p e u" "u + 1 < 10"
  shows "on_time p (e + 1) (u + 1) \<and> time_left p (e + 1) (u + 1) < time_left p e u"
  using assms(1)
proof (rule on_time_kinds)
  fix d assume "program_duration p = Some d"
  then show ?thesis using assms count_wait by (simp add: by_duration)
next
  fix g assume g: "p = PGuided g"
  have e: "e + 1 - gui_step_started_ms g = e - gui_step_started_ms g + 1" by simp
  then show ?thesis
    using assms count_wait[of "step_length (current_step g)" "e - gui_step_started_ms g" u]
    by (cases "gui_phase g"; cases "gui_step_index g < r_step_count (gui_recipe g)") (auto simp: g e recipe_on_time_def recipe_left_def)
qed

lemma time_start:
  assumes "program_time p = Some b"
  shows "on_time p 0 0 \<and> time_left p 0 0 \<le> b + 10"
proof (cases "program_duration p")
  case (Some d)
  then have "in_clock d" "b = unat d" using assms by (cases p; auto split: if_splits)+
  then show ?thesis using Some count_start by (simp add: by_duration)
next
  case None
  then obtain g where g: "p = PGuided g" using assms by (cases p) auto
  then have n: "gui_phase g = Setup" "gui_step_index g = 0" "timed_recipe (gui_recipe g)" "b = recipe_ms 0 (gui_recipe g)"
    using assms by (auto simp: guided_recipe_new_def split: if_splits) (metis guided_recipe.select_convs)+
  then show ?thesis
    using recipe_ms_step[of 0 "gui_recipe g"] by (simp add: g recipe_on_time_def recipe_left_def extra_tick_def)
qed

section \<open>A tick of a program on time\<close>

text \<open>A free client accepts every request that fits into a frame.\<close>

definition ready :: "wire list \<Rightarrow> transport mcu_client \<Rightarrow> millis \<Rightarrow> bool" where
  "ready ws c now \<longleftrightarrow> client_line ws c \<and> flight now ws c \<and> \<not> cl_waiting c \<and> \<not> cl_response_ready c"

lemma request_accepted:
  assumes "ready ws c now" "unat len \<le> kMaxPayload" "payload = None \<longrightarrow> len = 0"
  shows "fst (client_request app_side now msg payload len c) = Ok"
proof -
  have "client_line ws c" "length (concat (map wire_bytes ws)) \<le> 3000" "request_fits payload len c"
    using assms flight_ok(3)[of now ws c] by (auto simp: ready_def request_fits_def)
  then show ?thesis using client_request_line[of ws c payload len now msg] by auto
qed

lemma requests_accepted:
  assumes "ready ws c now"
  shows "fst (client_set_motor app_side now r q c) = Ok" "fst (client_motor_stop app_side now c) = Ok"
    "fst (client_set_heater app_side now t c) = Ok" "fst (client_heater_off app_side now c) = Ok"
  using request_accepted[OF assms]
  by (simp_all add: client_set_motor_def client_motor_stop_def client_set_heater_def client_heater_off_def limit_defs)

lemma timed_step: "timed_recipe r \<Longrightarrow> i < r_step_count r \<Longrightarrow> st_kind (r_steps r ! i) = Mix \<or> st_kind (r_steps r ! i) = Heat"
  by (auto simp: timed_recipe_def)

text \<open>What a tick makes of a recipe of timed steps, phase by phase.\<close>

lemma recipe_tick:
  assumes "ready ws c now" "timed_recipe (gui_recipe g)" "gui_step_index g < r_step_count (gui_recipe g)"
  shows "fst (guided_on_tick app_side now e g c) =
    (case gui_phase g of
       Setup \<Rightarrow> if extra_tick g > 0 then g\<lparr>gui_command_index := 1\<rparr>
         else g\<lparr>gui_step_started_ms := e, gui_command_index := 0, gui_phase := Run\<rparr>
     | Run \<Rightarrow> if step_length (current_step g) \<le> e - gui_step_started_ms g then g\<lparr>gui_command_index := 0, gui_phase := Teardown\<rparr> else g
     | Teardown \<Rightarrow> if extra_tick g > 0 then g\<lparr>gui_command_index := 1\<rparr> else guided_advance g)"
  using timed_step[OF assms(2,3)] requests_accepted[OF assms(1)] assms(3)
  by (cases "gui_phase g"; elim disjE; cases "gui_command_index g = 0")
    (simp_all add: guided_on_tick_def run_setup_def run_teardown_def step_done_def case_prod_beta Let_def extra_tick_def step_length_def)

lemma recipe_time_tick:
  assumes "ready ws c now" "recipe_on_time g e 9"
  defines "g' \<equiv> fst (guided_on_tick app_side now (e + 1) g c)"
  assumes "\<not> guided_finished g'"
  shows "recipe_on_time g' (e + 1) 0 \<and> recipe_left g' (e + 1) 0 < recipe_left g e 9"
proof -
  have r: "timed_recipe (gui_recipe g)" using assms(2) by (simp add: recipe_on_time_def)
  have idx: "gui_step_index g < r_step_count (gui_recipe g)"
  proof (rule ccontr)
    assume "\<not> gui_step_index g < r_step_count (gui_recipe g)"
    then show False using assms(4) by (simp add: g'_def guided_on_tick_def)
  qed
  note tick = recipe_tick[OF assms(1) r idx, of "e + 1", folded g'_def]
  have e: "e + 1 - gui_step_started_ms g = e - gui_step_started_ms g + 1" by simp
  have d: "in_clock (step_length (current_step g))" using r idx by (simp add: timed_recipe_def)
  have x: "extra_tick (g\<lparr>gui_command_index := 1\<rparr>) = 0" "extra_tick g \<le> 10" by (simp_all add: extra_tick_def)
  show ?thesis
  proof (cases "gui_phase g")
    case Setup
    then show ?thesis using tick r idx d x count_start(1,2)[of "step_length (current_step g)"]
      by (auto simp: recipe_on_time_def recipe_left_def extra_tick_def)
  next
    case Run
    then show ?thesis using tick r idx assms(2) count_tick[of "step_length (current_step g)" "e - gui_step_started_ms g"]
        count_start(3)[of 9 "step_length (current_step g)" "e - gui_step_started_ms g"]
      by (auto simp: e recipe_on_time_def recipe_left_def extra_tick_def)
  next
    case Teardown
    show ?thesis
    proof (cases "extra_tick g > 0")
      case True
      then show ?thesis using tick r idx Teardown by (auto simp: recipe_on_time_def recipe_left_def extra_tick_def split: if_splits)
    next
      case False
      then have g': "g' = guided_advance g" using tick Teardown by simp
      then have "Suc (gui_step_index g) < r_step_count (gui_recipe g)" using assms(4) by (simp add: guided_advance_def not_le)
      then show ?thesis using g' r idx Teardown False recipe_ms_step[of "Suc (gui_step_index g)" "gui_recipe g"]
        by (simp add: recipe_on_time_def recipe_left_def guided_advance_def extra_tick_def)
    qed
  qed
qed

lemma time_tick:
  assumes "ready ws c now" "on_time p e 9"
  defines "p' \<equiv> fst (program_on_tick app_side now (e + 1) p c)"
  assumes "\<not> program_finished (e + 1) p'"
  shows "on_time p' (e + 1) 0 \<and> time_left p' (e + 1) 0 < time_left p e 9"
  using assms(2)
proof (rule on_time_kinds)
  fix d assume d: "program_duration p = Some d"
  then have "program_duration p' = Some d" by (simp add: p'_def duration_kept)
  then show ?thesis using assms(2,4) d count_tick[of d e] by (simp add: by_duration)
next
  fix g assume g: "p = PGuided g"
  then have "p' = PGuided (fst (guided_on_tick app_side now (e + 1) g c))" by (simp add: p'_def case_prod_beta)
  then show ?thesis using recipe_time_tick[OF assms(1), of g e] assms(2,4) g by simp
qed

lemma running_tick:
  assumes "calm_tick dog now ws k k1" "k_state k = Running" "k_program k = Some p"
  defines "k' \<equiv> session_tick_10ms dog app_side now k" and "p' \<equiv> fst (program_on_tick app_side now (now - k_started_ms k) p (k_client k1))"
  shows "if program_finished (now - k_started_ms k) p'
    then k_state k' = Stopping \<and> shutting_down k' \<and> progress k' = (False, False, False, False) \<and> next_program k' = None
    else k_state k' = Running \<and> k_started_ms k' = k_started_ms k \<and> k_program k' = Some p'"
proof -
  have k': "k' = tick_program app_side now p k1"
    using assms(1-3) by (simp add: k'_def session_tick_10ms_def calm_tick_def observed_def)
  have k1: "k_state k1 = Running" "k_started_ms k1 = k_started_ms k" using assms(1,2) by (simp_all add: calm_tick_def observed_def)
  show ?thesis
    using k1 by (simp add: k' p'_def tick_program_def Let_def case_prod_beta shutting_down_def progress_def next_program_def)
qed

lemma calm_ready: "calm_tick dog now ws k k1 \<Longrightarrow> ready ws (k_client k1) now"
  by (simp add: calm_tick_def ready_def)

section \<open>The device while a program runs\<close>

definition elapsed_ms :: "system \<Rightarrow> millis" where
  "elapsed_ms s = sb_now_ms (sys_board s) - k_started_ms (ar_session (sys_app s))"

text \<open>A program is running and on time, with at most \<open>b\<close> milliseconds left.\<close>

definition running :: "nat \<Rightarrow> system \<Rightarrow> bool" where
  "running b s \<longleftrightarrow> (\<exists>ws. locked ws s) \<and> k_state (ar_session (sys_app s)) = Running \<and>
     (\<exists>p. k_program (ar_session (sys_app s)) = Some p \<and> on_time p (elapsed_ms s) (since_tick s) \<and> time_left p (elapsed_ms s) (since_tick s) \<le> b)"

definition winding_down :: "system \<Rightarrow> bool" where
  "winding_down s \<longleftrightarrow> (\<exists>st. staged st s) \<and> next_of s = None"

lemma begins_running: "begins p s \<Longrightarrow> program_time p = Some b \<Longrightarrow> running (b + 10) s"
  using time_start[of p b] by (auto simp: begins_def begun_def running_def elapsed_ms_def)

lemma calm_running_tick:
  assumes "polled ws s p ws' s'" "since_tick s = 9" "locked ws2 s'" "running b s" "calm_tick wd_feed (sb_now_ms (sys_board s')) ws' p k1"
  shows "(\<exists>b' < b. running b' s') \<or> winding_down s'"
proof -
  note p = polledD[OF assms(1)]
  obtain q where q: "k_state p = Running" "k_program p = Some q" "on_time q (elapsed_ms s) 9" "time_left q (elapsed_ms s) 9 \<le> b"
    using assms(2,4) by (auto simp: running_def p(2,3))
  have e: "sb_now_ms (sys_board s') - k_started_ms p = elapsed_ms s + 1" by (simp add: elapsed_ms_def p(1,4))
  let ?q = "fst (program_on_tick app_side (sb_now_ms (sys_board s')) (elapsed_ms s + 1) q (k_client k1))"
  have a: "ar_session (sys_app s') = session_tick_10ms wd_feed app_side (sb_now_ms (sys_board s')) p" "since_tick s' = 0"
    using p(13,14) assms(2) by simp_all
  note t = running_tick[OF assms(5) q(1,2), folded a(1), unfolded e]
  show ?thesis
  proof (cases "program_finished (elapsed_ms s + 1) ?q")
    case True
    then have "staged Fresh s'" "next_of s' = None" using t assms(3) by (auto simp: staged_def)
    then show ?thesis by (auto simp: winding_down_def)
  next
    case False
    then have r: "k_state (ar_session (sys_app s')) = Running" "k_program (ar_session (sys_app s')) = Some ?q" "elapsed_ms s' = elapsed_ms s + 1"
      using t e by (simp_all add: elapsed_ms_def)
    have "on_time ?q (elapsed_ms s') 0 \<and> time_left ?q (elapsed_ms s') 0 < b"
      using time_tick[OF calm_ready[OF assms(5)] q(3) False] q(4) r(3) by simp
    then have "running (time_left ?q (elapsed_ms s') 0) s'" "time_left ?q (elapsed_ms s') 0 < b"
      using r assms(3) a(2) by (auto simp: running_def)
    then show ?thesis by blast
  qed
qed

lemma running_step:
  assumes "running b s" "clock_us s + 1000 < 2 ^ 64"
  shows "\<exists>s'. system_step_1ms s = Some s' \<and> clock_us s' = clock_us s + 1000 \<and> ((\<exists>b' < b. running b' s') \<or> winding_down s')"
proof -
  obtain ws q where w: "locked ws s" "k_state (ar_session (sys_app s)) = Running" "k_program (ar_session (sys_app s)) = Some q"
    "on_time q (elapsed_ms s) (since_tick s)" "time_left q (elapsed_ms s) (since_tick s) \<le> b" using assms(1) by (auto simp: running_def)
  have k: "mcu_keeps (\<lambda>_ _. True) (sb_now_ms (sys_board s) + 1)" by (simp add: mcu_keeps_def)
  obtain s' p ws' where s: "system_step_1ms s = Some s'" "clock_us s' = clock_us s + 1000" "polled ws s p ws' s'"
    using polled_step[OF w(1) assms(2) TrueI k] by (elim exE conjE)
  note p = polledD[OF s(3)]
  obtain ws2 where l: "locked ws2 s'" using locked_next[OF w(1) assms(2)[unfolded clock_us_def]] s(1) by auto
  have "(\<exists>b' < b. running b' s') \<or> winding_down s'"
  proof (cases "since_tick s = 9")
    case False
    then have a: "ar_session (sys_app s') = p" "since_tick s' = since_tick s + 1" using p(13,14) by simp_all
    have e: "elapsed_ms s' = elapsed_ms s + 1" using p(1,4) a(1) by (simp add: elapsed_ms_def)
    have "since_tick s + 1 < 10" using locked_since[OF w(1)] False by simp
    then have "on_time q (elapsed_ms s') (since_tick s') \<and> time_left q (elapsed_ms s') (since_tick s') < b"
      using time_wait[OF w(4)] w(5) unfolding e a(2) by fastforce
    then have "running (time_left q (elapsed_ms s') (since_tick s')) s'" using l w(2,3) a(1) p(2,3) by (auto simp: running_def)
    then show ?thesis using \<open>on_time q _ _ \<and> _\<close> by blast
  next
    case True
    show ?thesis
    proof (cases "alarm (snd (tick_observe wd_feed (sb_now_ms (sys_board s')) p))")
      case False
      then obtain k1 where "calm_tick wd_feed (sb_now_ms (sys_board s')) ws' p k1" using calm_tickI[OF p(9-11)] by blast
      then show ?thesis by (rule calm_running_tick[OF s(3) True l assms(1)])
    next
      case alarm: True
      have a: "ar_session (sys_app s') = session_tick_10ms wd_feed app_side (sb_now_ms (sys_board s')) p" using p(13) True by simp
      from tick_alarm[OF p(9-11) alarm] have "staged HeaterAsked s' \<and> next_of s' = None"
        unfolding a[symmetric] using p(15,16) by (fastforce simp: staged_def)
      then show ?thesis by (auto simp: winding_down_def)
    qed
  qed
  then show ?thesis using s(1,2) by blast
qed

lemma run_ends:
  assumes "running b s" "clock_us s + b * 1000 < 2 ^ 64"
  shows "in_ms b winding_down s"
  using assms
proof (induction b arbitrary: s rule: less_induct)
  case (less b)
  have pos: "0 < b" using less.prems(1) time_left_pos locked_since by (fastforce simp: running_def)
  then have "clock_us s + 1000 < 2 ^ 64" using less.prems(2) by simp
  from running_step[OF less.prems(1) this] obtain s' where s: "system_step_1ms s = Some s'" "clock_us s' = clock_us s + 1000"
    "(\<exists>b' < b. running b' s') \<or> winding_down s'" by blast
  from s(3) show ?case
  proof (elim disjE exE conjE)
    fix b' assume b: "b' < b" "running b' s'"
    then have "clock_us s' + b' * 1000 < 2 ^ 64" using less.prems(2) s(2) by simp
    from less.IH[OF b this] show ?thesis by (rule in_ms_step[OF s(1,2) _ b(1)])
  next
    assume "winding_down s'"
    then have "in_ms 0 winding_down s'" by (rule in_ms_now)
    then show ?thesis by (rule in_ms_step[OF s(1,2) _ pos])
  qed
qed

lemma wound_down: "winding_down s \<Longrightarrow> clock_us s + 59 * 1000 < 2 ^ 64 \<Longrightarrow> in_ms 59 (staged Rest) s"
  by (auto simp: winding_down_def intro: shutdown_within)

text \<open>From the end of the shutdown before it to the rest behind it.\<close>

lemma started_ends:
  assumes "staged Rest s \<or> begins p s" "program_time p = Some b" "clock_us s + (b + 10 + 59) * 1000 < 2 ^ 64"
  shows "in_ms (b + 10 + 59) (staged Rest) s"
proof (cases "staged Rest s")
  case True
  then show ?thesis by (rule in_ms_now)
next
  case False
  then have "running (b + 10) s" using assms(1,2) begins_running by blast
  then have "in_ms (b + 10) winding_down s" by (rule run_ends) (use assms(3) in simp)
  then show ?thesis by (rule in_ms_trans) (use wound_down assms(3) in \<open>auto simp: algebra_simps\<close>)
qed

section \<open>Property\<close>

text \<open>
  C16: cooking works end to end. From every reachable state in which the start of a manual, dough, steam or
  sous-vide program or of a recipe of mix and heat steps is accepted, less than 60 ms later the program has
  begun, with the outputs of the board off, or the session has failed; and if the user does nothing else,
  130 ms past the time the program takes (its duration, or that of the steps and 50 ms for each of them)
  and at any later time the session has ended, both controllers of the MCU are off, the duty of the motor is
  0 and the heater has no power, whatever is on its way at the start and whatever fault occurs meanwhile.
  (Durations in the last ten milliseconds before the wrap-around of the clock are left out.)
\<close>

theorem timed_program_ends:
  assumes "system_reach s" "fst (start_program (Some p) (ar_session (sys_app s))) = Ok" "program_time p = Some b"
    and "b + 130 \<le> n" "unat (sb_now_us (sys_board s)) + n * 1000 < 2 ^ 64"
  defines "s0 \<equiv> snd (with_session (start_program (Some p)) s)"
  shows "\<exists>t s1 s2. t < 60 \<and> system_step_ms t s0 = Some s1 \<and>
      (k_state (ar_session (sys_app s1)) = Running \<and> k_program (ar_session (sys_app s1)) = Some p \<or> k_state (ar_session (sys_app s1)) = Faulted) \<and>
      mcu_off (sys_mcu s1) \<and> mm_duty (sb_motor (sys_board s1)) = 0 \<and> heater_power_w sim_hw (sys_board s1) = 0 \<and>
    system_step_ms n s0 = Some s2 \<and> k_state (ar_session (sys_app s2)) \<in> {Done, Faulted} \<and>
      mcu_off (sys_mcu s2) \<and> mm_duty (sb_motor (sys_board s2)) = 0 \<and> heater_power_w sim_hw (sys_board s2) = 0"
proof -
  have k: "ar_session (sys_app s0) = (begin_shutdown False (ar_session (sys_app s)))\<lparr>k_pending := Some p, k_start_after := True\<rparr>"
    "clock_us s0 = unat (sb_now_us (sys_board s))"
    using assms(2) by (auto simp: s0_def with_session_def start_program_def clock_us_def split: if_splits)
  obtain ws where "locked ws s0" using reach_locked[OF system_reach.program[OF assms(1)]] unfolding s0_def by blast
  then have st: "staged Fresh s0" "next_of s0 = Some p"
    using k(1) by (auto simp: staged_def shutting_down_def progress_def next_program_def)
  have c: "clock_us s0 + n * 1000 < 2 ^ 64" "b + 130 \<le> n" using assms(4,5) k(2) by simp_all
  have "in_ms 59 (shutdown_ends s0) s0" using shutdown_progress[OF st(1)] c by linarith
  then have w1: "in_ms 59 (\<lambda>s1. staged Rest s1 \<and> k_state (ar_session (sys_app s1)) = Faulted \<or> begins p s1) s0"
    by (rule in_ms_mono) (use st(2) in \<open>auto simp: shutdown_ends_def\<close>)
  then obtain t s1 where t: "t < 60" "system_step_ms t s0 = Some s1" "staged Rest s1 \<and> k_state (ar_session (sys_app s1)) = Faulted \<or> begins p s1"
    unfolding in_ms_def by (elim exE conjE) (rule that, simp_all)
  have "in_ms (59 + (b + 10 + 59)) (staged Rest) s0"
    by (rule in_ms_trans[OF w1]) (use started_ends[OF _ assms(3)] c in fastforce)
  from rest_for_good[OF this _ c(1)] c(2) obtain s2 where "system_step_ms n s0 = Some s2" "resting s2" by auto
  then show ?thesis using t
    by (intro exI[of _ t] exI[of _ s1] exI[of _ s2]) (auto simp: begins_def begun_def staged_def resting_def outputs_off_def ended_def)
qed

definition demo_soup :: recipe where
  "demo_soup = \<lparr>r_name = ''soup'', r_steps = [
     \<lparr>st_kind = Heat, st_text = ''simmer'', st_target_temp = 900, st_dial_speed = 1, st_duration_s = 600, st_target_weight = 0\<rparr>,
     \<lparr>st_kind = Mix, st_text = ''blend'', st_target_temp = 0, st_dial_speed = 8, st_duration_s = 30, st_target_weight = 0\<rparr>], r_step_count = 2\<rparr>"

lemma demo_soup_time: "program_time (PGuided (guided_recipe_new demo_soup)) = Some 630100"
proof -
  have t: "timed_recipe demo_soup"
    unfolding timed_recipe_def by (auto simp: demo_soup_def step_length_def in_clock_def less_2_cases_iff)
  have m: "recipe_ms 0 demo_soup = 630100"
    using recipe_ms_step[of 0 demo_soup] recipe_ms_step[of 1 demo_soup]
    by (simp add: demo_soup_def step_length_def) (simp add: recipe_ms_def)
  have "gui_recipe (guided_recipe_new demo_soup) = demo_soup" by (simp add: guided_recipe_new_def)
  then show ?thesis using t m by simp
qed

theorem timed_program_ends_witness:
  "let s = snd (with_session (start_program (Some (PGuided (guided_recipe_new demo_soup)))) (system_init (sconst 0) (sconst 0)))
   in \<exists>s2. system_step_ms 630230 s = Some s2 \<and> k_state (ar_session (sys_app s2)) \<in> {Done, Faulted} \<and> mcu_off (sys_mcu s2)"
proof -
  let ?init = "system_init (sconst 0) (sconst 0)" and ?p = "PGuided (guided_recipe_new demo_soup)"
  have "fst (start_program (Some ?p) (ar_session (sys_app ?init))) = Ok"
    by (simp add: start_program_def system_init_def Let_def app_runtime_init_def session_init_def attach_ota_def)
  moreover have "unat (sb_now_us (sys_board ?init)) + 630230 * 1000 < 2 ^ 64"
    by (simp add: system_init_def Let_def sim_board_init_def)
  ultimately show ?thesis
    using timed_program_ends[OF system_reach.start _ demo_soup_time, of "sconst 0" "sconst 0" 630230] unfolding Let_def by auto
qed

end
