(* ===== verification/Parse_Number.thy ===== *)
theory Parse_Number
  imports C_Text
begin

text \<open>
  The checked number parsers around the C library: \<open>src/common/parse_number.h\<close>, used by the processes of
  \<open>src/apps/\<close>, and the ones of \<open>src/cli/commands.cpp\<close>, which use \<open>std::stof\<close> and \<open>std::stoull\<close>. A
  \<open>std::string\<close> may hold zero bytes, at which the conversion stops; the out parameter is the result.
  Shown here: the ranges are respected and printed numbers are read back exactly; one negative number
  passes the check of the first of them.
\<close>

section \<open>parse_number.h\<close>

definition app_parse_float :: "string option \<Rightarrow> f32 \<Rightarrow> f32 \<Rightarrow> f32 option" where
  "app_parse_float txt lo hi =
     (case txt of
        None \<Rightarrow> None
      | Some s \<Rightarrow>
          (case c_strtof s of
             Some (Finite v, ok, rest) \<Rightarrow> if \<not> ok \<or> rest \<noteq> [] \<or> v < lo \<or> v > hi then None else Some v
           | _ \<Rightarrow> None))"

definition app_parse_u32 :: "string option \<Rightarrow> u32 \<Rightarrow> u32 option" where
  "app_parse_u32 txt hi =
     (case txt of
        None \<Rightarrow> None
      | Some s \<Rightarrow>
          if s = [] \<or> hd s = CHR ''-'' then None
          else (case c_strtoul s of
                  None \<Rightarrow> None
                | Some (v, ok, rest) \<Rightarrow>
                    if \<not> ok \<or> rest \<noteq> [] \<or> v > unat hi \<or> v > 2 ^ 32 - 1 then None else Some (of_nat v)))"

section \<open>The command line\<close>

text \<open>\<open>std::stof\<close> and \<open>std::stoull\<close>: an exception, or the value and the number of characters consumed.\<close>

definition std_stof :: "string \<Rightarrow> (float_value \<times> nat) option" where
  "std_stof s =
     (case c_strtof (c_str s) of
        Some (v, True, rest) \<Rightarrow> Some (v, length (c_str s) - length rest)
      | _ \<Rightarrow> None)"

definition std_stoull :: "string \<Rightarrow> (nat \<times> nat) option" where
  "std_stoull s =
     (case c_strtoul (c_str s) of
        Some (v, True, rest) \<Rightarrow> Some (v, length (c_str s) - length rest)
      | _ \<Rightarrow> None)"

definition parse_float :: "string \<Rightarrow> f32 \<Rightarrow> f32 \<Rightarrow> f32 option" where
  "parse_float txt lo hi =
     (case std_stof txt of
        Some (Finite v, consumed) \<Rightarrow> if consumed \<noteq> length txt \<or> v < lo \<or> v > hi then None else Some v
      | _ \<Rightarrow> None)"

definition parse_unsigned :: "string \<Rightarrow> nat \<Rightarrow> nat option" where
  "parse_unsigned txt hi =
     (if txt = [] \<or> hd txt = CHR ''-'' then None
      else case std_stoull txt of
             Some (v, consumed) \<Rightarrow> if consumed \<noteq> length txt \<or> v > hi then None else Some v
           | None \<Rightarrow> None)"

definition parse_duration_ms :: "string \<Rightarrow> u32 option" where
  "parse_duration_ms txt =
     (let number = takeWhile is_digit txt; unit = dropWhile is_digit txt;
          multiplier = (if unit = ''s'' then 1000 else if unit = ''m'' then 60000 else 1)
      in if unit \<noteq> [] \<and> unit \<noteq> ''s'' \<and> unit \<noteq> ''m'' \<and> unit \<noteq> ''ms'' then None
         else map_option (\<lambda>v. of_nat (v * multiplier)) (parse_unsigned number ((2 ^ 32 - 1) div multiplier)))"

section \<open>Ranges\<close>

lemma parse_float_range: "parse_float txt lo hi = Some v \<Longrightarrow> lo \<le> v \<and> v \<le> hi"
  by (auto simp: parse_float_def split: option.splits prod.splits float_value.splits if_splits)

lemma parse_unsigned_range: "parse_unsigned txt hi = Some n \<Longrightarrow> n \<le> hi"
  by (auto simp: parse_unsigned_def split: option.splits prod.splits if_splits)

lemma c_str_digits: "\<forall>c \<in> set ds. is_digit c \<Longrightarrow> c_str ds = ds"
  by (induction ds) (auto simp: c_str_def digit_not_special)

lemma parse_unsigned_show:
  assumes "n < 2 ^ 64"
  shows "parse_unsigned (show_nat n) hi = (if n \<le> hi then Some n else None)"
proof -
  have hd: "is_digit (hd (show_nat n))" using show_nat_digits[of n] show_nat_nonempty[of n] by (simp add: hd_in_set)
  have "c_strtoul (show_nat n @ []) = Some (n, True, [])" using assms by (intro c_strtoul_show) (simp_all add: no_digit_def)
  then have "std_stoull (show_nat n) = Some (n, length (show_nat n))" by (simp add: std_stoull_def c_str_digits show_nat_digits)
  then show ?thesis using digit_not_special(2)[OF hd] by (simp add: parse_unsigned_def)
qed

section \<open>Properties\<close>

text \<open>
  Durations of scripts are exact and cannot wrap around. A number with the unit ms, s or m, or none,
  is accepted exactly if its value in milliseconds fits 32 bits, and then gives that value; the checked
  limit leaves no room for the multiplication to overflow.
\<close>

theorem duration_exact:
  assumes "(unit, factor) \<in> {('''', 1), (''ms'', 1), (''s'', 1000), (''m'', 60000)}" "n < 2 ^ 64"
  shows "parse_duration_ms (show_nat n @ unit) = (if n * factor < 2 ^ 32 then Some (of_nat (n * factor)) else None) \<and>
    (n * factor < 2 ^ 32 \<longrightarrow> unat (the (parse_duration_ms (show_nat n @ unit))) = n * factor)"
proof -
  have "no_digit unit" using assms(1) by (auto simp: no_digit_def is_digit_def)
  then have w: "takeWhile is_digit (show_nat n @ unit) = show_nat n" "dropWhile is_digit (show_nat n @ unit) = unit"
    using while_digits[OF show_nat_digits] by simp_all
  have "(n \<le> (2 ^ 32 - 1) div factor) = (n * factor < 2 ^ 32)" using assms(1) by auto
  then have e: "parse_duration_ms (show_nat n @ unit) = (if n * factor < 2 ^ 32 then Some (of_nat (n * factor)) else None)"
    using assms(1) unfolding parse_duration_ms_def w Let_def parse_unsigned_show[OF assms(2)] by auto
  moreover have "unat (of_nat (n * factor) :: u32) = n * factor" if "n * factor < 2 ^ 32"
    using that by (simp only: unat_of_nat) simp
  ultimately show ?thesis by simp
qed

theorem duration_exact_witness:
  "parse_duration_ms (show_nat 71582 @ ''m'') = Some (of_nat (71582 * 60000)) \<and> parse_duration_ms (show_nat 71583 @ ''m'') = None"
  using duration_exact[of "''m''" 60000 71582] duration_exact[of "''m''" 60000 71583] by simp

text \<open>
  The check for a minus sign in \<open>parse_number.h\<close> looks at the first character only, while
  \<open>strtoul\<close> skips white space and negates modulo \<open>2 ^ 64\<close>: behind a blank, one negative number is read as
  the dial value 1 instead of being refused.
\<close>

theorem negative_dial_accepted:
  "app_parse_u32 (Some ''-18446744073709551615'') 10 = None \<and> app_parse_u32 (Some '' -18446744073709551615'') 10 = Some 1"
proof -
  have s: "split_sign (dropWhile is_space '' -18446744073709551615'') = (True, ''18446744073709551615'')"
    by (simp add: is_space_def split_sign_def)
  have d: "takeWhile is_digit ''18446744073709551615'' = ''18446744073709551615''" "dropWhile is_digit ''18446744073709551615'' = []"
    by (simp_all add: is_digit_def)
  have "digits_value 10 ''18446744073709551615'' = 18446744073709551615" by (simp add: digits_value_def digit_value_def is_digit_def)
  then have "c_strtoul '' -18446744073709551615'' = Some (1, True, [])"
    unfolding c_strtoul_def s Let_def prod.case d by simp
  then show ?thesis by (simp add: app_parse_u32_def)
qed

end
