(* ===== verification/Commands.thy ===== *)
theory Commands
  imports System_Sim Parse_Number
begin

text \<open>
  \<open>src/cli/commands.cpp\<close> and \<open>script_runner.cpp\<close>: the commands of the simulator's console and of scenario
  scripts, over the whole device. What is printed is not modelled; the result of a command is its return
  value and the new environment. A command that waits runs the device, which could fail to return, so
  results are options. Shown here: a refused command changes nothing, and every script runs to its end and
  never lets the watchdog trip.
\<close>

section \<open>Environment\<close>

record command_env =
  env_sys :: system
  env_expect_failures :: nat
  env_quit_requested :: bool

definition env_init :: "system \<Rightarrow> command_env" where
  "env_init s = \<lparr>env_sys = s, env_expect_failures = 0, env_quit_requested = False\<rparr>"

definition env_store :: "command_env \<Rightarrow> telemetry_store" where
  "env_store env = cl_store (k_client (ar_session (sys_app (env_sys env))))"

definition env_session :: "command_env \<Rightarrow> (transport, watchdog) session" where
  "env_session env = ar_session (sys_app (env_sys env))"

definition env_now :: "command_env \<Rightarrow> millis" where
  "env_now env = sb_now_ms (sys_board (env_sys env))"

lemma dropWhile_token_shorter:
  "dropWhile is_space s \<noteq> [] \<Longrightarrow> length (dropWhile (\<lambda>c. \<not> is_space c) (dropWhile is_space s)) < length s"
proof -
  assume ne: "dropWhile is_space s \<noteq> []"
  have "dropWhile (\<lambda>c. \<not> is_space c) (dropWhile is_space s) \<noteq> dropWhile is_space s"
    using hd_dropWhile[OF ne] ne by (cases "dropWhile is_space s") (auto dest: dropWhile_eq_Cons_conv[THEN iffD1])
  moreover have "length (dropWhile (\<lambda>c. \<not> is_space c) (dropWhile is_space s)) \<le> length (dropWhile is_space s)"
    by (rule length_dropWhile_le)
  ultimately have "length (dropWhile (\<lambda>c. \<not> is_space c) (dropWhile is_space s)) < length (dropWhile is_space s)"
    using hd_dropWhile[OF ne] by (cases "dropWhile is_space s") (auto simp: less_Suc_eq_le length_dropWhile_le)
  then show ?thesis using length_dropWhile_le[of is_space s] by linarith
qed

text \<open>Words separated by white space, as \<open>operator>>\<close> reads them.\<close>

function tokenize :: "string \<Rightarrow> string list" where
  "tokenize s =
     (let t = dropWhile is_space s
      in if t = [] then []
         else takeWhile (\<lambda>c. \<not> is_space c) t # tokenize (dropWhile (\<lambda>c. \<not> is_space c) t))"
  by pat_completeness auto

termination
  by (relation "measure length") (simp_all add: dropWhile_token_shorter del: dropWhile_eq_Nil_conv)

declare tokenize.simps [simp del]

section \<open>Handlers\<close>

definition on_board :: "(sim_board \<Rightarrow> sim_board) \<Rightarrow> command_env \<Rightarrow> command_env" where
  "on_board f env = env\<lparr>env_sys := (env_sys env)\<lparr>sys_board := f (sys_board (env_sys env))\<rparr>\<rparr>"

definition on_session :: "((transport, watchdog) session \<Rightarrow> 'r \<times> (transport, watchdog) session) \<Rightarrow> command_env \<Rightarrow> command_env" where
  "on_session f env = env\<lparr>env_sys := snd (with_session f (env_sys env))\<rparr>"

definition on_client :: "(transport mcu_client \<Rightarrow> 'r \<times> transport mcu_client) \<Rightarrow> command_env \<Rightarrow> command_env" where
  "on_client f env = env\<lparr>env_sys := snd (with_client f (env_sys env))\<rparr>"

definition handle_add :: "string list \<Rightarrow> command_env \<Rightarrow> bool \<times> command_env" where
  "handle_add args env =
     (if length args \<noteq> 3 then (False, env)
      else case parse_float (args ! 2) (rnd (1 / 10)) (fsub 2200 (sc_true_mass_g (sb_scale (sys_board (env_sys env))))) of
             None \<Rightarrow> (False, env)
           | Some g \<Rightarrow>
               (True, on_board (\<lambda>b. sb_set_viscosity
                   (if args ! 1 = ''water'' then 1
                    else if args ! 1 = ''oil'' then rnd (18 / 10)
                    else if args ! 1 = ''flour'' \<or> args ! 1 = ''dough'' then rnd (65 / 10)
                    else 2) (sb_add_mass g b)) env))"

text \<open>The metric an expectation is about: a number, a text, or none of this name.\<close>

datatype metric = NumberMetric f32 | TextMetric string

definition lid_text :: "u8 \<Rightarrow> string" where
  "lid_text flags =
     (if flags AND kFlagLidLocked \<noteq> 0 then ''locked''
      else if flags AND kFlagLidClosed \<noteq> 0 then ''closed'' else ''open'')"

definition expect_metric :: "string \<Rightarrow> command_env \<Rightarrow> metric option" where
  "expect_metric name env =
     (let sample = store_latest (env_store env)
      in if name = ''temp'' then Some (NumberMetric (to_celsius (s_deci_celsius sample)))
         else if name = ''avg-temp'' then Some (NumberMetric (average_temp_c 2000 (env_store env)))
         else if name = ''rpm'' then Some (NumberMetric (float_of (uint (s_rpm sample))))
         else if name = ''weight'' then Some (NumberMetric (float_of (sint (s_grams sample))))
         else if name = ''state'' then Some (TextMetric (session_state_name (k_state (env_session env))))
         else if name = ''program'' then Some (TextMetric (session_program_name (env_session env)))
         else if name = ''lid'' then Some (TextMetric (lid_text (s_flags sample)))
         else None)"

definition compare_numbers :: "string \<Rightarrow> f32 \<Rightarrow> f32 \<Rightarrow> bool option" where
  "compare_numbers operator actual want =
     (if operator = ''>='' then Some (actual \<ge> want)
      else if operator = ''<='' then Some (actual \<le> want)
      else if operator = ''>'' then Some (actual > want)
      else if operator = ''<'' then Some (actual < want)
      else if operator = ''=='' then Some (actual = want)
      else if operator = ''!='' then Some (actual \<noteq> want)
      else None)"

definition compare_texts :: "string \<Rightarrow> string \<Rightarrow> string \<Rightarrow> bool option" where
  "compare_texts operator actual expected =
     (if operator = ''=='' then Some (actual = expected)
      else if operator = ''!='' then Some (actual \<noteq> expected)
      else None)"

definition handle_expect :: "string list \<Rightarrow> command_env \<Rightarrow> bool \<times> command_env" where
  "handle_expect args env =
     (if length args \<noteq> 4 then (False, env)
      else case (case expect_metric (args ! 1) env of
                   None \<Rightarrow> None
                 | Some (NumberMetric actual) \<Rightarrow>
                     Option.bind (parse_float (args ! 3) (- 1000000) 1000000) (compare_numbers (args ! 2) actual)
                 | Some (TextMetric actual) \<Rightarrow> compare_texts (args ! 2) actual (args ! 3)) of
             None \<Rightarrow> (False, env)
           | Some pass \<Rightarrow> (True, if pass then env else env\<lparr>env_expect_failures := env_expect_failures env + 1\<rparr>))"

definition ota_image :: "nat \<Rightarrow> bool \<Rightarrow> u8 list" where
  "ota_image len corrupt =
     (let image = map (\<lambda>i. of_nat (i * 13 + 5)) [0..<len]
      in if corrupt then image[len div 2 := image ! (len div 2) XOR 0xFF] else image)"

definition handle_ota :: "string list \<Rightarrow> command_env \<Rightarrow> bool \<times> command_env" where
  "handle_ota args env =
     (case k_ota (env_session env) of
        None \<Rightarrow> (False, env)
      | Some ou \<Rightarrow>
          if (k_state (env_session env) \<noteq> Idle \<and> k_state (env_session env) \<noteq> Done) \<or> ota_busy ou \<or> length args > 3
          then (False, env)
          else case (if length args \<ge> 2 then parse_unsigned (args ! 1) 65536 else Some 512) of
                 None \<Rightarrow> (False, env)
               | Some kib \<Rightarrow>
                   if kib = 0 \<or> (length args = 3 \<and> args ! 2 \<noteq> ''corrupt'') then (False, env)
                   else (True, on_session (\<lambda>k. ((), k\<lparr>k_ota := Some (snd (ota_begin
                            (Some (ota_image (kib * 1024) (length args = 3))) (kib * 1024)
                            (crc16_ccitt (ota_image (kib * 1024) False) 0xFFFF) ou))\<rparr>)) env))"

text \<open>The temperature argument of the commands: zero or from 37 degrees on.\<close>

definition parse_target :: "string \<Rightarrow> f32 option" where
  "parse_target txt =
     (case parse_float txt 0 160 of
        Some celsius \<Rightarrow> if celsius > 0 \<and> celsius < 37 then None else Some celsius
      | None \<Rightarrow> None)"

text \<open>A duration in minutes, from one minute to a day, in seconds.\<close>

definition parse_minutes :: "string \<Rightarrow> u32 option" where
  "parse_minutes txt =
     (case parse_unsigned txt 1440 of
        Some minutes \<Rightarrow> if minutes = 0 then None else Some (of_nat (minutes * 60))
      | None \<Rightarrow> None)"

section \<open>Commands\<close>

text \<open>Commands that start a program with arguments of their own.\<close>

definition start_command :: "program option \<Rightarrow> command_env \<Rightarrow> bool \<times> command_env" where
  "start_command p env =
     (case p of
        None \<Rightarrow> (False, env)
      | Some _ \<Rightarrow> (True, on_session (start_program p) env))"

fun manual_program :: "string list \<Rightarrow> program option" where
  "manual_program [_, temp, dial, minutes] =
     (case (parse_target temp, parse_unsigned dial 10, parse_minutes minutes) of
        (Some celsius, Some d, Some seconds) \<Rightarrow> Some (PManual (manual_mode_new (from_celsius celsius) (of_nat d) seconds))
      | _ \<Rightarrow> None)"
| "manual_program _ = None"

definition sous_vide_program :: "string \<Rightarrow> string \<Rightarrow> program option" where
  "sous_vide_program temp minutes =
     (case (parse_float temp 37 90, parse_minutes minutes) of
        (Some celsius, Some seconds) \<Rightarrow> Some (PSousVide (sous_vide_mode_new (from_celsius celsius) seconds))
      | _ \<Rightarrow> None)"

definition turbo_program :: "string \<Rightarrow> program option" where
  "turbo_program pulse =
     (case parse_unsigned pulse 2000 of
        Some ms \<Rightarrow> if ms = 0 then None else Some (PTurbo (turbo_pulse_new (of_nat ms)))
      | None \<Rightarrow> None)"

fun join_words :: "string list \<Rightarrow> string" where
  "join_words [] = []"
| "join_words [w] = w"
| "join_words (w # ws) = w @ CHR '' '' # join_words ws"

definition load_command :: "string list \<Rightarrow> command_env \<Rightarrow> bool \<times> command_env" where
  "load_command args env =
     (case library_find (join_words (tl args)) (ar_recipes (sys_app (env_sys env))) of
        None \<Rightarrow> (True, env)
      | Some r \<Rightarrow> (True, on_session (start_recipe (Some r)) env))"

definition set_temp_command :: "string \<Rightarrow> command_env \<Rightarrow> bool \<times> command_env" where
  "set_temp_command temp env =
     (case parse_target temp of
        None \<Rightarrow> (False, env)
      | Some celsius \<Rightarrow>
          (True, on_client (if celsius \<le> 0 then client_heater_off app_side (env_now env)
                            else client_set_heater app_side (env_now env) (from_celsius celsius)) env))"

definition set_speed_command :: "string \<Rightarrow> command_env \<Rightarrow> bool \<times> command_env" where
  "set_speed_command dial env =
     (case parse_unsigned dial 10 of
        None \<Rightarrow> (False, env)
      | Some d \<Rightarrow> (True, on_client (client_set_motor app_side (env_now env) (dial_to_rpm (of_nat d)) kRampNormal) env))"

definition lid_command :: "string \<Rightarrow> command_env \<Rightarrow> bool \<times> command_env" where
  "lid_command action env =
     (if action = ''open'' then (True, on_board sb_open_lid env)
      else if action = ''close'' then (True, on_board sb_close_lid env)
      else if action = ''lock'' then (True, on_client (client_lock_lid app_side (env_now env) True) env)
      else if action = ''unlock'' then (True, on_client (client_lock_lid app_side (env_now env) False) env)
      else (False, env))"

text \<open>All commands but the one that waits, on the words of a line that has some.\<close>

definition instant_command :: "string list \<Rightarrow> command_env \<Rightarrow> bool \<times> command_env" where
  "instant_command args env =
     (let cmd = args ! 0; n = length args
      in if cmd = ''help'' \<or> cmd = ''status'' \<or> cmd = ''weigh'' then (True, env)
         else if cmd = ''add'' then handle_add args env
         else if cmd = ''set-temp'' \<and> n = 2 then set_temp_command (args ! 1) env
         else if cmd = ''set-speed'' \<and> n = 2 then set_speed_command (args ! 1) env
         else if cmd = ''manual'' \<and> n = 4 then start_command (manual_program args) env
         else if cmd = ''dough'' \<and> n = 2
         then start_command (map_option (\<lambda>s. PDough (dough_mode_new s)) (parse_minutes (args ! 1))) env
         else if cmd = ''steam'' \<and> n = 2
         then start_command (map_option (\<lambda>s. PSteam (steam_mode_new s)) (parse_minutes (args ! 1))) env
         else if cmd = ''sous-vide'' \<and> n = 3 then start_command (sous_vide_program (args ! 1) (args ! 2)) env
         else if cmd = ''turbo'' \<and> n = 2 then start_command (turbo_program (args ! 1)) env
         else if cmd = ''load'' \<and> n \<ge> 2 then load_command args env
         else if cmd = ''next'' then (True, on_session (\<lambda>k. ((), session_user_next k)) env)
         else if cmd = ''stop'' then (True, on_session (\<lambda>k. ((), session_stop k)) env)
         else if cmd = ''tare'' then (True, on_client (client_tare app_side (env_now env)) env)
         else if cmd = ''lid'' \<and> n = 2 then lid_command (args ! 1) env
         else if cmd = ''ota-verify'' then handle_ota args env
         else if cmd = ''expect'' then handle_expect args env
         else if cmd = ''quit'' \<or> cmd = ''exit'' then (True, env\<lparr>env_quit_requested := True\<rparr>)
         else (False, env))"

definition wait_command :: "string \<Rightarrow> command_env \<Rightarrow> (bool \<times> command_env) option" where
  "wait_command duration env =
     (case parse_duration_ms duration of
        None \<Rightarrow> Some (False, env)
      | Some ms \<Rightarrow> map_option (\<lambda>s. (True, env\<lparr>env_sys := s\<rparr>)) (system_step_ms (unat ms) (env_sys env)))"

definition execute_command :: "command_env \<Rightarrow> string \<Rightarrow> (bool \<times> command_env) option" where
  "execute_command env line =
     (let args = tokenize line
      in if args = [] \<or> hd (args ! 0) = CHR ''#'' then Some (True, env)
         else if args ! 0 = ''wait'' \<and> length args = 2 then wait_command (args ! 1) env
         else Some (instant_command args env))"

section \<open>Scripts\<close>

text \<open>The loop over the lines, with the flag for refused ones; a quit request ends it.\<close>

fun run_lines :: "string list \<Rightarrow> bool \<Rightarrow> command_env \<Rightarrow> (bool \<times> command_env) option" where
  "run_lines [] parse_error env = Some (parse_error, env)"
| "run_lines (l # ls) parse_error env =
     (case execute_command env l of
        None \<Rightarrow> None
      | Some (ok, env') \<Rightarrow>
          if env_quit_requested env' then Some (parse_error \<or> \<not> ok, env') else run_lines ls (parse_error \<or> \<not> ok) env')"

definition run_script :: "(string \<Rightarrow> string option) \<Rightarrow> string \<Rightarrow> system \<Rightarrow> (status \<times> system) option" where
  "run_script read_text path s =
     (case read_text path of
        None \<Rightarrow> Some (InvalidArgument, s)
      | Some txt \<Rightarrow>
          map_option (\<lambda>(parse_error, env).
              (if parse_error then InvalidArgument else if env_expect_failures env = 0 then Ok else ProtocolError, env_sys env))
            (run_lines (lines_of txt) False (env_init s)))"

section \<open>Refused commands\<close>

definition refuses_cleanly :: "command_env \<Rightarrow> bool \<times> command_env \<Rightarrow> bool" where
  "refuses_cleanly env r \<longleftrightarrow> fst r \<or> snd r = env"

lemma refuses_simps [simp]: "refuses_cleanly env (True, e)" "refuses_cleanly env (False, env)"
  by (simp_all add: refuses_cleanly_def)

lemma refuses_if: "refuses_cleanly env a \<Longrightarrow> refuses_cleanly env b \<Longrightarrow> refuses_cleanly env (if c then a else b)"
  by simp

lemma handlers_refuse:
  "refuses_cleanly env (handle_add args env)" "refuses_cleanly env (set_temp_command t env)"
  "refuses_cleanly env (set_speed_command d env)" "refuses_cleanly env (start_command p env)"
  "refuses_cleanly env (load_command args env)" "refuses_cleanly env (lid_command a env)"
  by (simp_all add: handle_add_def set_temp_command_def set_speed_command_def start_command_def load_command_def
      lid_command_def split: option.split)

lemma handle_ota_refuses: "refuses_cleanly env (handle_ota args env)"
  by (simp add: handle_ota_def split: option.split)

lemma handle_expect_refuses: "refuses_cleanly env (handle_expect args env)"
  by (simp add: handle_expect_def split: option.split)

lemma instant_command_refuses: "refuses_cleanly env (instant_command args env)"
  unfolding instant_command_def Let_def
  by (intro refuses_if handlers_refuse handle_ota_refuses handle_expect_refuses refuses_simps)

section \<open>Commands and the device\<close>

text \<open>The device is in a reachable state and its clock has not passed the given microsecond.\<close>

definition runs :: "nat \<Rightarrow> command_env \<Rightarrow> bool" where
  "runs us env \<longleftrightarrow> system_reach (env_sys env) \<and> unat (sb_now_us (sys_board (env_sys env))) \<le> us"

lemma runs_board: "runs us env \<Longrightarrow> (\<And>b. clock_of (f b) = clock_of b) \<Longrightarrow> runs us (on_board f env)"
  by (auto simp: runs_def on_board_def clock_of_def intro!: system_reach.world)

lemma runs_session:
  assumes "runs us env" "\<And>s. system_reach s \<Longrightarrow> system_reach (snd (with_session f s))"
  shows "runs us (on_session f env)"
  using assms by (auto simp: runs_def on_session_def with_session_def case_prod_beta)

lemma runs_client:
  assumes "runs us env" "system_reach (env_sys env) \<Longrightarrow> system_reach (snd (with_client f (env_sys env)))"
  shows "runs us (on_client f env)"
  using assms by (auto simp: runs_def on_client_def with_client_def case_prod_beta)

lemma client_commands_reach:
  assumes "system_reach s"
  defines "now \<equiv> sb_now_ms (sys_board s)"
  shows "system_reach (snd (with_client (client_heater_off app_side now) s))"
    "system_reach (snd (with_client (client_set_heater app_side now t) s))"
    "system_reach (snd (with_client (client_set_motor app_side now r p) s))"
    "system_reach (snd (with_client (client_tare app_side now) s))"
    "system_reach (snd (with_client (client_lock_lid app_side now b) s))"
  using system_reach.request[OF assms(1) refl]
  by (simp_all add: named_msg_ids_def now_def with_client_def client_heater_off_def client_set_heater_def client_set_motor_def client_tare_def client_lock_lid_def)

lemma client_commands_run:
  assumes "runs us env"
  shows "runs us (on_client (client_heater_off app_side (env_now env)) env)"
    "runs us (on_client (client_set_heater app_side (env_now env) t) env)"
    "runs us (on_client (client_set_motor app_side (env_now env) r p) env)"
    "runs us (on_client (client_tare app_side (env_now env)) env)"
    "runs us (on_client (client_lock_lid app_side (env_now env) b) env)"
  unfolding env_now_def by (intro runs_client[OF assms] client_commands_reach; assumption)+

lemma start_recipe_reach: "system_reach s \<Longrightarrow> system_reach (snd (with_session (start_recipe (Some r)) s))"
  using system_reach.program[of s "Some (PGuided (guided_recipe_new r))"]
  by (simp add: with_session_def start_recipe_def)

lemma runs_simps [simp]:
  "runs us (env\<lparr>env_expect_failures := n\<rparr>) = runs us env" "runs us (env\<lparr>env_quit_requested := q\<rparr>) = runs us env"
  by (simp_all add: runs_def)

lemma runs_if: "runs us (snd a) \<Longrightarrow> runs us (snd b) \<Longrightarrow> runs us (snd (if c then a else b))"
  by simp

lemma user_actions_clock [simp]:
  "clock_of (sb_open_lid b) = clock_of b" "clock_of (sb_close_lid b) = clock_of b"
  "clock_of (sb_set_viscosity v b) = clock_of b" "clock_of (sb_add_mass g b) = clock_of b"
  by (simp_all add: clock_of_def sb_open_lid_def sb_close_lid_def sb_set_viscosity_def sb_add_mass_def)

lemma handlers_run:
  assumes "runs us env"
  shows "runs us (snd (handle_add args env))" "runs us (snd (set_temp_command t env))"
    "runs us (snd (set_speed_command d env))" "runs us (snd (start_command p env))"
    "runs us (snd (load_command args env))" "runs us (snd (lid_command a env))"
    "runs us (snd (handle_ota args env))" "runs us (snd (handle_expect args env))"
    "runs us (on_session (\<lambda>k. ((), session_user_next k)) env)" "runs us (on_session (\<lambda>k. ((), session_stop k)) env)"
    "runs us (on_client (client_tare app_side (env_now env)) env)"
  using assms
  by (simp_all add: handle_add_def set_temp_command_def set_speed_command_def start_command_def load_command_def
      lid_command_def handle_ota_def handle_expect_def runs_board runs_session client_commands_run
      start_recipe_reach system_reach.program system_reach.stop system_reach.user_next system_reach.ota split: option.split)

lemma instant_command_runs:
  assumes "runs us env" shows "runs us (snd (instant_command args env))"
  unfolding instant_command_def Let_def
  by (intro runs_if handlers_run[OF assms] handlers_run(9-11)[OF assms, unfolded snd_conv[symmetric, of _ True]])
     (simp_all add: assms handlers_run[OF assms])

lemma execute_command_runs:
  assumes "runs us env" "us + 2 ^ 32 * 1000 < 2 ^ 64"
  shows "\<exists>ok env'. execute_command env line = Some (ok, env') \<and> runs (us + 2 ^ 32 * 1000) env'"
proof -
  have mono: "runs (us + 2 ^ 32 * 1000) e" if "runs us e" for e using that by (simp add: runs_def)
  have w: "\<exists>ok env'. wait_command d env = Some (ok, env') \<and> runs (us + 2 ^ 32 * 1000) env'" for d
  proof (cases "parse_duration_ms d")
    case None
    then show ?thesis using mono[OF assms(1)] by (auto simp: wait_command_def)
  next
    case (Some ms)
    have n: "unat ms * 1000 \<le> 2 ^ 32 * 1000" using unsigned_less[of ms, where ?'a = nat] by simp
    then have "unat (sb_now_us (sys_board (env_sys env))) + unat ms * 1000 < 2 ^ 64" using assms by (simp add: runs_def)
    then obtain s' where "system_step_ms (unat ms) (env_sys env) = Some s'" "system_reach s'"
      "unat (sb_now_us (sys_board s')) = unat (sb_now_us (sys_board (env_sys env))) + unat ms * 1000"
      using system_steps_reach assms(1) by (auto simp: runs_def)
    then show ?thesis using Some n assms(1) by (auto simp: wait_command_def runs_def)
  qed
  show ?thesis
    using w mono[OF assms(1)] mono[OF instant_command_runs[OF assms(1)], of "tokenize line"]
    by (cases "instant_command (tokenize line) env") (auto simp: execute_command_def Let_def)
qed

lemma run_lines_runs:
  assumes "runs us env" "us + length ls * (2 ^ 32 * 1000) < 2 ^ 64"
  shows "\<exists>e env'. run_lines ls e0 env = Some (e, env') \<and> system_reach (env_sys env')"
  using assms
proof (induction ls arbitrary: us e0 env)
  case Nil
  then show ?case by (simp add: runs_def)
next
  case (Cons l ls)
  then have "us + 2 ^ 32 * 1000 < 2 ^ 64" by simp
  then obtain ok env1 where x: "execute_command env l = Some (ok, env1)" "runs (us + 2 ^ 32 * 1000) env1"
    using execute_command_runs[OF Cons.prems(1)] by blast
  then show ?case using Cons.IH[OF x(2)] Cons.prems(2) by (auto simp: runs_def)
qed

section \<open>Properties\<close>

text \<open>A device without sensor noise, for the examples.\<close>

definition demo_device :: system where
  "demo_device = system_init (sconst 0) (sconst 0)"

text \<open>
  C21: a refused command changes nothing. If a line is refused (an unknown command, a wrong number of
  arguments, a number that does not parse or is out of range, an unknown metric, operator or ingredient
  mass beyond the bowl), the environment and with it the whole device is exactly what it was.
\<close>

theorem refused_command_changes_nothing:
  assumes "execute_command env line = Some (False, env')"
  shows "env' = env"
  using assms instant_command_refuses[of env "tokenize line"]
  by (auto simp: execute_command_def wait_command_def refuses_cleanly_def Let_def split: if_splits option.splits)

theorem refused_command_changes_nothing_witness:
  "\<exists>env'. execute_command (env_init demo_device) ''dance'' = Some (False, env') \<and> env' = env_init demo_device"
proof -
  have t: "tokenize ''dance'' = [''dance'']" by (simp add: tokenize.simps is_space_def)
  have e: "execute_command (env_init demo_device) ''dance'' = Some (False, env_init demo_device)"
    by (simp add: execute_command_def t instant_command_def)
  show ?thesis using refused_command_changes_nothing[OF e] e by blast
qed

text \<open>
  Every script runs to its end and keeps the device alive. From any reachable device, whatever the
  lines of a script are, provided their waits cannot overflow the 64-bit microsecond clock, the run
  returns one of the three statuses, the device it leaves behind is reachable again, and the watchdog of
  the application has never tripped.
\<close>

theorem script_keeps_device_alive:
  assumes "system_reach s" "read_text path = Some txt"
    "unat (sb_now_us (sys_board s)) + length (lines_of txt) * (2 ^ 32 * 1000) < 2 ^ 64"
  shows "\<exists>st s'. run_script read_text path s = Some (st, s') \<and> (st = Ok \<or> st = InvalidArgument \<or> st = ProtocolError) \<and>
    system_reach s' \<and> \<not> wd_tripped (sb_watchdog (sys_board s'))"
proof -
  have "runs (unat (sb_now_us (sys_board s))) (env_init s)" using assms(1) by (simp add: runs_def env_init_def)
  from run_lines_runs[OF this assms(3)] obtain e env where r: "run_lines (lines_of txt) False (env_init s) = Some (e, env)"
    "system_reach (env_sys env)" by blast
  then have "\<not> wd_tripped (sb_watchdog (sys_board (env_sys env)))"
    using system_reach_inv by (auto simp: system_inv_def fed_recently_def)
  then show ?thesis using r assms(2) by (simp add: run_script_def)
qed

theorem script_keeps_device_alive_witness:
  "\<exists>st s'. run_script (\<lambda>_. Some (''turbo 500'' @ CHR 0x0A # ''wait 2s'')) ''demo.scn'' (system_init (sconst 0) (sconst 0)) = Some (st, s') \<and>
     \<not> wd_tripped (sb_watchdog (sys_board s'))"
proof -
  let ?s = "system_init (sconst 0) (sconst 0)" and ?t = "''turbo 500'' @ CHR 0x0A # ''wait 2s''"
  have "sb_now_us (sys_board ?s) = 0" by (simp add: system_init_def Let_def sim_board_init_def)
  then have b: "unat (sb_now_us (sys_board ?s)) + length (lines_of ?t) * (2 ^ 32 * 1000) < 2 ^ 64" by simp
  show ?thesis
    using script_keeps_device_alive[OF system_reach.start, of "\<lambda>_. Some ?t" "''demo.scn''" ?t "sconst 0" "sconst 0", OF refl b]
    by blast
qed

end
