(* ===== verification/Sim_Process.thy ===== *)
theory Sim_Process
  imports Commands
begin

text \<open>
  \<open>src/apps/culina_sim_main.cpp\<close>, \<open>src/cli/repl.cpp\<close> and the status line of \<open>src/cli/commands.cpp\<close>: the
  simulator as a process, which runs a script or reads commands from its standard input. The pseudo-random
  numbers of a seed, the file system and what is typed are arguments; printing is left out. Shown here:
  every call ends with one of three statuses, and never lets the watchdog of the simulated device trip.
\<close>

section \<open>Status line\<close>

text \<open>
  The conversions of \<open>printf\<close> with a fixed number of decimals and with two digits. The value is exact, and
  halves are rounded to even; the division of a speed by 1070 in double precision is never close enough to
  a half for its rounding to matter.
\<close>

definition printf_fixed :: "nat \<Rightarrow> rat \<Rightarrow> string" where
  "printf_fixed decimals q =
     (let n = nat (round_even (\<bar>q\<bar> * 10 ^ decimals)); frac = show_nat (n mod 10 ^ decimals)
      in (if q < 0 then ''-'' else []) @ show_nat (n div 10 ^ decimals) @
         (if decimals = 0 then [] else ''.'' @ replicate (decimals - length frac) (CHR ''0'') @ frac))"

definition printf_two_digits :: "nat \<Rightarrow> string" where
  "printf_two_digits n = (if n < 10 then ''0'' else []) @ show_nat n"

definition printf_int :: "int \<Rightarrow> string" where
  "printf_int n = (if n < 0 then ''-'' else []) @ show_nat (nat \<bar>n\<bar>)"

definition status_line :: "system \<Rightarrow> string" where
  "status_line s =
     (let k = ar_session (sys_app s); sample = store_latest (cl_store (k_client k)); t = unat (sb_now_ms (sys_board s))
      in take 159
           (''['' @ session_state_name (k_state k) @ '':'' @ session_program_name k @ '' '' @ session_program_status k @ ''] '' @
            printf_fixed 1 (to_celsius (s_deci_celsius sample)) @ ''C spd'' @ printf_fixed 0 (of_int (uint (s_rpm sample)) / 1070) @ '' '' @
            printf_int (sint (s_grams sample)) @ ''g lid:'' @ lid_text (s_flags sample) @ '' t='' @
            printf_two_digits (t div 3600000) @ '':'' @ printf_two_digits (t div 60000 mod 60) @ '':'' @
            printf_two_digits (t div 1000 mod 60)))"

section \<open>Console\<close>

text \<open>
  The loop over the lines of the standard input, in pieces of at most 255 characters. A command that waits
  runs the device, so the result is an option.
\<close>

function repl_loop :: "c_file \<Rightarrow> command_env \<Rightarrow> command_env option" where
  "repl_loop stdin env =
     (if env_quit_requested env then Some env
      else case c_fgets 256 stdin of
             (None, _) \<Rightarrow> Some env
           | (Some line, stdin') \<Rightarrow>
               (case execute_command env (c_str line) of
                  None \<Rightarrow> None
                | Some (_, env') \<Rightarrow> repl_loop stdin' env'))"
  by pat_completeness auto

termination
  by (relation "measure (\<lambda>(f, _). length (fl_bytes f))") (auto dest!: c_fgets_shorter[OF sym])

declare repl_loop.simps [simp del]

definition run_repl :: "c_file \<Rightarrow> system \<Rightarrow> system option" where
  "run_repl stdin s = Option.bind (system_step_ms 50 s) (\<lambda>s1. map_option env_sys (repl_loop stdin (env_init s1)))"

section \<open>The process\<close>

record sim_options =
  so_script :: "string option"
  so_recipe_dir :: string
  so_seed :: u32

definition sim_options_init :: sim_options where
  "sim_options_init = \<lparr>so_script = None, so_recipe_dir = ''data/recipes'', so_seed = 42\<rparr>"

text \<open>The cast of what \<open>strtoul\<close> returns: the largest value on overflow, 0 for no number.\<close>

definition seed_of :: "string \<Rightarrow> u32" where
  "seed_of txt =
     (case c_strtoul txt of
        None \<Rightarrow> 0
      | Some (v, ok, _) \<Rightarrow> of_nat (if ok then v else 2 ^ 64 - 1))"

fun sim_arguments :: "string list \<Rightarrow> sim_options \<Rightarrow> sim_options option" where
  "sim_arguments [] opts = Some opts"
| "sim_arguments [arg] opts = None"
| "sim_arguments (arg # val # args) opts =
     (if arg = ''--script'' then sim_arguments args (opts\<lparr>so_script := Some val\<rparr>)
      else if arg = ''--recipes'' then sim_arguments args (opts\<lparr>so_recipe_dir := val\<rparr>)
      else if arg = ''--seed'' then sim_arguments args (opts\<lparr>so_seed := seed_of val\<rparr>)
      else None)"

definition load_recipes :: "(string \<Rightarrow> string list option) \<Rightarrow> (string \<Rightarrow> c_file option) \<Rightarrow> string \<Rightarrow> system \<Rightarrow> system" where
  "load_recipes opendir fopen dir s =
     s\<lparr>sys_app := (sys_app s)\<lparr>ar_recipes := snd (load_directory opendir fopen dir (ar_recipes (sys_app s)))\<rparr>\<rparr>"

text \<open>The exit status, and the device at the end if there was one.\<close>

definition sim_main ::
  "(u32 \<Rightarrow> f32 stream \<times> f32 stream) \<Rightarrow> (string \<Rightarrow> string list option) \<Rightarrow> (string \<Rightarrow> c_file option) \<Rightarrow>
   (string \<Rightarrow> string option) \<Rightarrow> c_file \<Rightarrow> string list \<Rightarrow> (int \<times> system option) option" where
  "sim_main noise opendir fopen read_text stdin args =
     (case sim_arguments args sim_options_init of
        None \<Rightarrow> Some (2, None)
      | Some opts \<Rightarrow>
          let s = load_recipes opendir fopen (so_recipe_dir opts)
                    (case noise (so_seed opts) of (scale_noise, temp_noise) \<Rightarrow> system_init scale_noise temp_noise)
          in case so_script opts of
               Some script \<Rightarrow> map_option (\<lambda>(st, s'). (if st = Ok then 0 else 1, Some s')) (run_script read_text script s)
             | None \<Rightarrow> map_option (\<lambda>s'. (0, Some s')) (run_repl stdin s))"

section \<open>Property\<close>

lemma repl_loop_runs:
  assumes "runs us env" "us + length (fl_bytes stdin) * (2 ^ 32 * 1000) < 2 ^ 64"
  shows "\<exists>env'. repl_loop stdin env = Some env' \<and> system_reach (env_sys env')"
  using assms
proof (induction "length (fl_bytes stdin)" arbitrary: stdin us env rule: less_induct)
  case less
  show ?case
  proof (cases "env_quit_requested env \<or> fst (c_fgets 256 stdin) = None")
    case True
    then show ?thesis using less.prems(1) by (auto simp: repl_loop.simps[of stdin env] runs_def split: prod.split)
  next
    case False
    then obtain line stdin' where g: "c_fgets 256 stdin = (Some line, stdin')" by (cases "c_fgets 256 stdin") auto
    then have "length (fl_bytes stdin') + 1 \<le> length (fl_bytes stdin)" using c_fgets_shorter[OF g] by (cases line) auto
    moreover from this have "us + 2 ^ 32 * 1000 + length (fl_bytes stdin') * (2 ^ 32 * 1000) \<le> us + length (fl_bytes stdin) * (2 ^ 32 * 1000)"
      using mult_le_mono1[of "length (fl_bytes stdin') + 1" "length (fl_bytes stdin)" "2 ^ 32 * 1000"] by simp
    moreover from this have "us + 2 ^ 32 * 1000 < 2 ^ 64" using less.prems(2) by simp
    then obtain ok env1 where x: "execute_command env (c_str line) = Some (ok, env1)" "runs (us + 2 ^ 32 * 1000) env1"
      using execute_command_runs[OF less.prems(1)] by blast
    ultimately obtain env' where "repl_loop stdin' env1 = Some env'" "system_reach (env_sys env')"
      using less.hyps[of stdin' "us + 2 ^ 32 * 1000" env1] less.prems(2) by auto
    then show ?thesis using False by (simp add: repl_loop.simps[of stdin env] g x(1))
  qed
qed

lemma reach_alive: "system_reach s \<Longrightarrow> \<not> wd_tripped (sb_watchdog (sys_board s))"
  using system_reach_inv by (auto simp: system_inv_def fed_recently_def)

lemma run_repl_runs:
  assumes "system_reach s" "unat (sb_now_us (sys_board s)) + 50000 + length (fl_bytes stdin) * (2 ^ 32 * 1000) < 2 ^ 64"
  shows "\<exists>s'. run_repl stdin s = Some s' \<and> system_reach s'"
proof -
  obtain s1 where s1: "system_step_ms 50 s = Some s1" "system_reach s1"
    "unat (sb_now_us (sys_board s1)) = unat (sb_now_us (sys_board s)) + 50 * 1000"
    using system_steps_reach[OF assms(1), of 50] assms(2) by auto
  then have "runs (unat (sb_now_us (sys_board s)) + 50000) (env_init s1)" by (simp add: runs_def env_init_def)
  from repl_loop_runs[OF this, of stdin] assms(2) show ?thesis using s1(1) by (auto simp: run_repl_def)
qed

lemma run_script_runs:
  assumes "system_reach s" "\<And>txt. read_text path = Some txt \<Longrightarrow> unat (sb_now_us (sys_board s)) + length (lines_of txt) * (2 ^ 32 * 1000) < 2 ^ 64"
  shows "\<exists>st s'. run_script read_text path s = Some (st, s') \<and> system_reach s'"
proof (cases "read_text path")
  case (Some content)
  have "runs (unat (sb_now_us (sys_board s))) (env_init s)" using assms(1) by (simp add: runs_def env_init_def)
  from run_lines_runs[OF this assms(2)[OF Some]] obtain e env where
    "run_lines (lines_of content) False (env_init s) = Some (e, env)" "system_reach (env_sys env)" by blast
  then show ?thesis using Some by (simp add: run_script_def)
qed (use assms(1) in \<open>simp add: run_script_def\<close>)

text \<open>
  C31: every run of the simulator ends, with status 0, 1 or 2, and its device stays alive. Whatever
  the arguments, the recipes, the script or the input are, the watchdog of the simulated device has not
  tripped at the end. Scripts and input are limited so that their waits cannot overflow the 64-bit clock.
\<close>

theorem simulator_ends_alive:
  assumes "\<And>path txt. read_text path = Some txt \<Longrightarrow> length (lines_of txt) * (2 ^ 32 * 1000) < 2 ^ 64"
    "50000 + length (fl_bytes stdin) * (2 ^ 32 * 1000) < 2 ^ 64"
  shows "\<exists>code final. sim_main noise opendir fopen read_text stdin args = Some (code, final) \<and> code \<in> {0, 1, 2} \<and>
    (code = 2) = (final = None) \<and> (\<forall>s. final = Some s \<longrightarrow> \<not> wd_tripped (sb_watchdog (sys_board s)))"
proof (cases "sim_arguments args sim_options_init")
  case None
  then show ?thesis by (simp add: sim_main_def)
next
  case (Some opts)
  define s where "s = load_recipes opendir fopen (so_recipe_dir opts)
      (case noise (so_seed opts) of (scale_noise, temp_noise) \<Rightarrow> system_init scale_noise temp_noise)"
  have "system_reach s" unfolding s_def load_recipes_def case_prod_beta by (intro system_reach.recipes system_reach.start)
  moreover have "sb_now_us (sys_board s) = 0"
    by (simp add: s_def load_recipes_def case_prod_beta system_init_def Let_def sim_board_init_def)
  ultimately have s: "system_reach s" "sb_now_us (sys_board s) = 0" .
  have m: "sim_main noise opendir fopen read_text stdin args = (case so_script opts of
      Some script \<Rightarrow> map_option (\<lambda>(st, s'). (if st = Ok then 0 else 1, Some s')) (run_script read_text script s)
    | None \<Rightarrow> map_option (\<lambda>s'. (0, Some s')) (run_repl stdin s))"
    unfolding sim_main_def Some option.case Let_def s_def[symmetric] ..
  show ?thesis
  proof (cases "so_script opts")
    case None
    then show ?thesis using run_repl_runs[of s stdin] s assms(2) reach_alive by (auto simp: m)
  next
    case (Some script)
    then show ?thesis using run_script_runs[of s read_text script] s assms(1) reach_alive by (fastforce simp: m)
  qed
qed

theorem simulator_ends_alive_witness:
  "\<exists>code final. sim_main (\<lambda>_. (sconst 0, sconst 0)) (\<lambda>_. None) (\<lambda>_. None) (\<lambda>_. Some (''wait 2s'' @ [CHR 0x0A]))
     (c_fopen (''turbo 500'' @ CHR 0x0A # ''wait 3s'') False) [''--seed'', ''7''] = Some (code, final) \<and> code \<in> {0, 1, 2}"
proof -
  have "length (lines_of (''wait 2s'' @ [CHR 0x0A])) * (2 ^ 32 * 1000) < 2 ^ 64" by simp
  then show ?thesis
    using simulator_ends_alive[of "\<lambda>_. Some (''wait 2s'' @ [CHR 0x0A])" "c_fopen (''turbo 500'' @ CHR 0x0A # ''wait 3s'') False"
        "\<lambda>_. (sconst 0, sconst 0)" "\<lambda>_. None" "\<lambda>_. None" "[''--seed'', ''7'']"]
    by (auto simp: c_fopen_def)
qed

end
