(* ===== verification/Logging.thy ===== *)
theory Logging
  imports C_Text
begin

text \<open>
  \<open>src/common/logging.cpp\<close>: the level filter, the replaceable sink and the buffer of 192 bytes a message is
  formatted into. A sink is a function on the state of whatever it writes to; the default one appends a line
  to the standard error stream. Shown here: exactly the messages at or above the level reach the sink, each
  once and in order, and a message is cut to 191 characters, never wrongly extended.
\<close>

section \<open>Levels and sinks\<close>

datatype log_level = Debug | Info | Warn | Error

fun level_number :: "log_level \<Rightarrow> nat" where
  "level_number Debug = 0"
| "level_number Info = 1"
| "level_number Warn = 2"
| "level_number Error = 3"

instantiation log_level :: linorder
begin

definition less_eq_log_level :: "log_level \<Rightarrow> log_level \<Rightarrow> bool" where
  "less_eq_log_level a b \<longleftrightarrow> level_number a \<le> level_number b"

definition less_log_level :: "log_level \<Rightarrow> log_level \<Rightarrow> bool" where
  "less_log_level a b \<longleftrightarrow> level_number a < level_number b"

instance
proof
  fix a b c :: log_level
  show "(a < b) = (a \<le> b \<and> \<not> b \<le> a)" "a \<le> a" "a \<le> b \<or> b \<le> a"
    by (auto simp: less_eq_log_level_def less_log_level_def)
  show "a \<le> b \<Longrightarrow> b \<le> c \<Longrightarrow> a \<le> c" by (simp add: less_eq_log_level_def)
  show "a \<le> b \<Longrightarrow> b \<le> a \<Longrightarrow> a = b" by (cases a; cases b) (simp_all add: less_eq_log_level_def)
qed

end

type_synonym 'w log_sink = "log_level \<Rightarrow> string \<Rightarrow> 'w \<Rightarrow> 'w"

definition level_name :: "log_level \<Rightarrow> string" where
  "level_name level = [''DEBUG'', ''INFO'', ''WARN'', ''ERROR''] ! level_number level"

definition default_sink :: "(string \<Rightarrow> 'w \<Rightarrow> 'w) \<Rightarrow> 'w log_sink" where
  "default_sink fputs level message = fputs (''['' @ level_name level @ ''] '' @ message @ [CHR 0x0A])"

record 'w logger =
  g_sink :: "'w log_sink"
  g_level :: log_level

definition logger_init :: "(string \<Rightarrow> 'w \<Rightarrow> 'w) \<Rightarrow> 'w logger" where
  "logger_init fputs = \<lparr>g_sink = default_sink fputs, g_level = Info\<rparr>"

text \<open>No sink stands for the null pointer.\<close>

definition set_log_sink :: "(string \<Rightarrow> 'w \<Rightarrow> 'w) \<Rightarrow> 'w log_sink option \<Rightarrow> 'w logger \<Rightarrow> 'w logger" where
  "set_log_sink fputs sink g = g\<lparr>g_sink := (case sink of Some f \<Rightarrow> f | None \<Rightarrow> default_sink fputs)\<rparr>"

definition set_log_level :: "log_level \<Rightarrow> 'w logger \<Rightarrow> 'w logger" where
  "set_log_level level g = g\<lparr>g_level := level\<rparr>"

section \<open>Formatting\<close>

text \<open>
  \<open>vsnprintf\<close> with the conversions the firmware logs with: \<open>%s\<close>, \<open>%zu\<close> and \<open>%02x\<close>. A conversion without an
  argument of its type is undefined in C and gives no value here.
\<close>

datatype log_arg = ArgText string | ArgNumber nat

fun hex_digits :: "nat \<Rightarrow> string" where
  "hex_digits n = (if n < 16 then [] else hex_digits (n div 16)) @ [''0123456789abcdef'' ! (n mod 16)]"

declare hex_digits.simps [simp del]

definition two_hex_digits :: "nat \<Rightarrow> string" where
  "two_hex_digits n = (if n < 16 then ''0'' else []) @ hex_digits n"

fun format_message :: "string \<Rightarrow> log_arg list \<Rightarrow> string option" where
  "format_message [] args = Some []"
| "format_message (c # fmt) args =
     (if c \<noteq> CHR ''%'' then map_option (Cons c) (format_message fmt args)
      else case (fmt, args) of
             (CHR ''s'' # fmt', ArgText s # args') \<Rightarrow> map_option ((@) s) (format_message fmt' args')
           | (CHR ''z'' # CHR ''u'' # fmt', ArgNumber n # args') \<Rightarrow> map_option ((@) (show_nat n)) (format_message fmt' args')
           | (CHR ''0'' # CHR ''2'' # CHR ''x'' # fmt', ArgNumber n # args') \<Rightarrow> map_option ((@) (two_hex_digits n)) (format_message fmt' args')
           | _ \<Rightarrow> None)"

section \<open>Logging a message\<close>

definition log_message :: "log_level \<Rightarrow> string \<Rightarrow> log_arg list \<Rightarrow> 'w logger \<Rightarrow> 'w \<Rightarrow> 'w option" where
  "log_message level fmt args g w =
     (if level < g_level g then Some w
      else map_option (\<lambda>buffer. g_sink g level (take 191 buffer) w) (format_message fmt args))"

section \<open>Results\<close>

lemma level_name_cases:
  "level_name Debug = ''DEBUG''" "level_name Info = ''INFO''" "level_name Warn = ''WARN''" "level_name Error = ''ERROR''"
  by (simp_all add: level_name_def)

lemma log_below_level: "level < g_level g \<Longrightarrow> log_message level fmt args g w = Some w"
  by (simp add: log_message_def)

lemma format_plain: "CHR ''%'' \<notin> set fmt \<Longrightarrow> format_message fmt args = Some fmt"
  by (induction fmt args rule: format_message.induct) auto

text \<open>Text around the three conversions.\<close>

lemma format_append: "CHR ''%'' \<notin> set s \<Longrightarrow> format_message (s @ fmt) args = map_option ((@) s) (format_message fmt args)"
  by (induction s) (auto simp: option.map_comp o_def option.map_ident append_Nil[abs_def] intro!: arg_cong[where f = "\<lambda>f. map_option f _"])

lemma format_conversions:
  "format_message (''%s'' @ fmt) (ArgText t # args) = map_option ((@) t) (format_message fmt args)"
  "format_message (''%zu'' @ fmt) (ArgNumber n # args) = map_option ((@) (show_nat n)) (format_message fmt args)"
  "format_message (''%02x'' @ fmt) (ArgNumber n # args) = map_option ((@) (two_hex_digits n)) (format_message fmt args)"
  by simp_all

lemma two_hex_digits_byte: "n < 256 \<Longrightarrow> length (two_hex_digits n) = 2"
  using less_mult_imp_div_less[of n 16 16] by (simp add: two_hex_digits_def hex_digits.simps[of n] hex_digits.simps[of "n div 16"])

text \<open>
  A sequence of messages through a sink that keeps them: the ones at or above the level arrive, each once,
  in order and with at most 191 characters.
\<close>

definition keeping_sink :: "(log_level \<times> string) list log_sink" where
  "keeping_sink level message w = w @ [(level, message)]"

fun log_messages :: "(log_level \<times> string \<times> log_arg list) list \<Rightarrow> 'w logger \<Rightarrow> 'w \<Rightarrow> 'w option" where
  "log_messages [] g w = Some w"
| "log_messages ((level, fmt, args) # ms) g w = Option.bind (log_message level fmt args g w) (log_messages ms g)"

lemma log_messages_filtered:
  assumes "\<And>level fmt args. (level, fmt, args) \<in> set ms \<Longrightarrow> format_message fmt args \<noteq> None"
  shows "log_messages ms (set_log_level min_level (set_log_sink fputs (Some keeping_sink) g)) w =
    Some (w @ map (\<lambda>(level, fmt, args). (level, take 191 (the (format_message fmt args)))) (filter (\<lambda>m. min_level \<le> fst m) ms))"
  using assms
proof (induction ms arbitrary: w)
  case (Cons m ms)
  obtain level fmt args where m: "m = (level, fmt, args)" by (cases m)
  obtain buf where f: "format_message fmt args = Some buf" using Cons.prems[of level fmt args] by (auto simp: m)
  have IH: "log_messages ms (set_log_level min_level (set_log_sink fputs (Some keeping_sink) g)) w' =
    Some (w' @ map (\<lambda>(level, fmt, args). (level, take 191 (the (format_message fmt args)))) (filter (\<lambda>m. min_level \<le> fst m) ms))" for w'
    using Cons.prems by (intro Cons.IH) (meson list.set_intros(2))
  show ?case
    by (simp add: m log_message_def f IH) (simp add: set_log_level_def set_log_sink_def keeping_sink_def not_less)
qed simp

text \<open>The null pointer restores the default sink, whose lines carry the name of the level.\<close>

lemma default_sink_line:
  assumes "g_level g \<le> level" "format_message fmt args = Some txt"
  shows "log_message level fmt args (set_log_sink fputs None g) w =
    Some (fputs (''['' @ level_name level @ ''] '' @ take 191 txt @ [CHR 0x0A]) w)"
  using assms by (simp add: log_message_def set_log_sink_def default_sink_def leD)

end
