(* ===== verification/Recipe_Format.thy ===== *)
theory Recipe_Format
  imports Recipe_Parser
begin

text \<open>
  The recipe file format of the comment in \<open>src/app/recipe/recipe_parser.h\<close>, as a printer, and the proof that
  the parser inverts it: every recipe with in-range, complete steps and printable texts, written in that
  format, is parsed to itself.
\<close>

section \<open>Printing\<close>

fun kind_name :: "step_kind \<Rightarrow> string" where
  "kind_name Note = ''note''"
| "kind_name Mix = ''mix''"
| "kind_name Heat = ''heat''"
| "kind_name Weigh = ''weigh''"

text \<open>The fields of a step as keys and values; fields that keep their initial value are left out.\<close>

definition step_fields :: "recipe_step \<Rightarrow> (string \<times> string) list" where
  "step_fields s =
     (if st_target_temp s = 0 then [] else [(''temp'', show_tenths (unat (st_target_temp s)))]) @
     [(''speed'', show_nat (unat (st_dial_speed s)))] @
     (if st_duration_s s = 0 then [] else [(''time'', show_nat (unat (st_duration_s s)))]) @
     (if st_target_weight s = 0 then [] else [(''weight'', show_nat (unat (st_target_weight s)))]) @
     [(''text'', st_text s)]"

definition field_token :: "string \<times> string \<Rightarrow> string" where
  "field_token kv = fst kv @ CHR ''='' # snd kv"

fun join_bar :: "string list \<Rightarrow> string" where
  "join_bar [] = []"
| "join_bar [t] = t"
| "join_bar (t # ts) = t @ '' | '' @ join_bar ts"

definition step_body :: "recipe_step \<Rightarrow> string" where
  "step_body s = join_bar (kind_name (st_kind s) # map field_token (step_fields s))"

definition print_recipe :: "recipe \<Rightarrow> string" where
  "print_recipe r =
     concat (map (\<lambda>l. l @ [CHR 0x0A])
       ((''name: '' @ r_name r) # map (\<lambda>s. ''step: '' @ step_body s) (take (r_step_count r) (r_steps r))))"

text \<open>Texts that survive: no separators of the format inside, no blanks at the ends.\<close>

definition clean :: "string \<Rightarrow> bool" where
  "clean t \<longleftrightarrow> t \<noteq> [] \<and> \<not> is_blank (hd t) \<and> \<not> is_trailing (last t)"

definition printable :: "string \<Rightarrow> bool" where
  "printable t \<longleftrightarrow> CHR 0x00 \<notin> set t \<and> CHR 0x0A \<notin> set t \<and> CHR ''|'' \<notin> set t \<and> (t = [] \<or> clean t)"

section \<open>Trimming and splitting\<close>

lemma skip_spaces_clean [simp]: "clean t \<Longrightarrow> skip_spaces t = t" "skip_spaces [] = []"
  by (cases t; simp add: clean_def skip_spaces_def)+

lemma skip_spaces_blank [simp]: "skip_spaces (CHR '' '' # t) = skip_spaces t"
  by (simp add: skip_spaces_def is_blank_def)

lemma trim_end_clean [simp]: "clean t \<Longrightarrow> trim_end t = t"
  by (cases t rule: rev_cases) (simp_all add: clean_def trim_end_def)

lemma trim_end_blank [simp]: "trim_end (t @ '' '') = trim_end t"
  by (simp add: trim_end_def is_trailing_def)

lemma split_at_first_none: "sep \<notin> set s \<Longrightarrow> split_at_first sep s = (s, None)"
  by (induction s) (auto simp: split_at_first_def)

lemma split_at_first_some: "sep \<notin> set a \<Longrightarrow> split_at_first sep (a @ sep # b) = (a, Some b)"
  by (induction a) (auto simp: split_at_first_def)

lemma clean_append: "clean a \<Longrightarrow> b = [] \<or> \<not> is_trailing (last b) \<Longrightarrow> clean (a @ b)"
  by (cases b) (auto simp: clean_def)

section \<open>One step\<close>

text \<open>Applying fields one after the other, as the loop over tokens does.\<close>

fun apply_fields :: "(string \<times> string) list \<Rightarrow> recipe_step \<Rightarrow> fields \<Rightarrow> bool \<times> recipe_step \<times> fields" where
  "apply_fields [] step fs = (True, step, fs)"
| "apply_fields ((k, v) # kvs) step fs =
     (case apply_field k v step fs of
        (ok, step', fs') \<Rightarrow> if ok then apply_fields kvs step' fs' else (False, step', fs'))"

definition good_field :: "string \<times> string \<Rightarrow> bool" where
  "good_field kv \<longleftrightarrow> clean (fst kv) \<and> CHR ''='' \<notin> set (fst kv) \<and> CHR ''|'' \<notin> set (fst kv) \<and>
     CHR ''|'' \<notin> set (snd kv) \<and> (snd kv = [] \<or> clean (snd kv))"

lemma good_field_token:
  assumes "good_field kv"
  shows "clean (field_token kv)" "CHR ''|'' \<notin> set (field_token kv)"
    "split_at_first CHR ''='' (field_token kv) = (fst kv, Some (snd kv))" "trim_end (fst kv) = fst kv" "skip_spaces (snd kv) = snd kv"
proof -
  show "clean (field_token kv)"
    unfolding field_token_def using assms by (intro clean_append) (auto simp: good_field_def clean_def is_trailing_def)
  show "split_at_first CHR ''='' (field_token kv) = (fst kv, Some (snd kv))"
    unfolding field_token_def using assms by (intro split_at_first_some) (simp add: good_field_def)
qed (use assms in \<open>auto simp: good_field_def field_token_def\<close>)

text \<open>The cursor on a joined list of tokens, with or without a leading blank.\<close>

lemma split_joined:
  assumes "clean t" "CHR ''|'' \<notin> set t" "pre = [] \<or> pre = '' ''"
  shows "\<exists>raw. split_at_first CHR ''|'' (pre @ join_bar (t # ts)) =
      (raw, if ts = [] then None else Some ('' '' @ join_bar ts)) \<and> trim_end (skip_spaces raw) = t"
proof (cases ts)
  case Nil
  then show ?thesis using assms by (auto simp: split_at_first_none)
next
  case (Cons u us)
  have "split_at_first CHR ''|'' ((pre @ t @ '' '') @ CHR ''|'' # '' '' @ join_bar ts) = (pre @ t @ '' '', Some ('' '' @ join_bar ts))"
    using assms by (intro split_at_first_some) auto
  moreover have "clean (t @ '' '') \<or> skip_spaces (t @ '' '') = t @ '' ''"
    using assms(1) by (cases t) (auto simp: clean_def skip_spaces_def)
  then have "trim_end (skip_spaces (pre @ t @ '' '')) = t"
    using assms(1,3) trim_end_clean[OF assms(1)] trim_end_blank[of t] by auto
  ultimately show ?thesis by (intro exI[of _ "pre @ t @ '' ''"]) (simp add: Cons)
qed

lemma step_loop_fields:
  assumes "\<forall>kv \<in> set kvs. good_field kv" "kvs \<noteq> []" "apply_fields kvs step fs = (True, step', fs')"
  shows "step_loop (Some ('' '' @ join_bar (map field_token kvs))) False step fs = (Ok, step', fs')"
  using assms
proof (induction kvs arbitrary: step fs)
  case (Cons kv kvs)
  obtain k v where kv: "kv = (k, v)" by fastforce
  have g: "good_field (k, v)" using Cons.prems(1) kv by simp
  obtain raw where raw: "split_at_first CHR ''|'' ('' '' @ join_bar (map field_token (kv # kvs))) =
      (raw, if kvs = [] then None else Some ('' '' @ join_bar (map field_token kvs)))" "trim_end (skip_spaces raw) = field_token (k, v)"
    using split_joined[OF good_field_token(1,2)[OF g], of "'' ''" "map field_token kvs"] kv by auto
  obtain s1 f1 where a: "apply_field k v step fs = (True, s1, f1)" "apply_fields kvs s1 f1 = (True, step', fs')"
    using Cons.prems(3) kv by (auto split: prod.splits if_splits)
  show ?case
    unfolding step_loop.simps(2) raw(1)
    using raw(2) good_field_token(3-5)[OF g] a Cons.IH[of s1 f1] Cons.prems(1)
    by (cases "kvs = []") simp_all
qed simp

lemma kind_name_clean: "clean (kind_name k)" "CHR ''|'' \<notin> set (kind_name k)" "parse_kind (kind_name k) = Some k"
  by (cases k; simp add: clean_def is_blank_def is_trailing_def parse_kind_def)+

lemma parse_step_printed:
  assumes "\<forall>kv \<in> set kvs. good_field kv" "kvs \<noteq> []" "apply_fields kvs (step_init\<lparr>st_kind := k\<rparr>) fields_init = (True, s, fs)"
    "step_valid s fs"
  shows "parse_step (join_bar (kind_name k # map field_token kvs)) step_init = (Ok, s)"
proof -
  obtain raw where raw: "split_at_first CHR ''|'' (join_bar (kind_name k # map field_token kvs)) =
      (raw, Some ('' '' @ join_bar (map field_token kvs)))" "trim_end (skip_spaces raw) = kind_name k"
    using split_joined[OF kind_name_clean(1,2), of "[]" k "map field_token kvs"] assms(2) by auto
  have "step_loop (Some (join_bar (kind_name k # map field_token kvs))) True step_init fields_init = (Ok, s, fs)"
    unfolding step_loop.simps(2) raw(1) using raw(2) step_loop_fields[OF assms(1-3)] by (simp add: kind_name_clean(3))
  then show ?thesis using assms(4) by (simp add: parse_step_def)
qed

section \<open>The fields of a step\<close>

lemma clean_digits:
  assumes "ds \<noteq> []" "\<forall>c \<in> set ds. is_digit c"
  shows "clean ds"
proof -
  have "is_digit (hd ds)" "is_digit (last ds)" using assms by simp_all
  then show ?thesis
    using digit_not_special[of "hd ds"] digit_not_special[of "last ds"] assms(1)
    by (simp add: clean_def is_blank_def is_trailing_def)
qed

lemma clean_show [simp]: "clean (show_nat n)" "clean (show_tenths n)"
proof -
  show "clean (show_nat n)" using clean_digits[OF show_nat_nonempty] show_nat_digits by blast
  have "clean (show_nat (n div 10))" using clean_digits[OF show_nat_nonempty] show_nat_digits by blast
  then show "clean (show_tenths n)"
    unfolding show_tenths_def using digit_not_special[of "char_of (48 + n mod 10)"]
    by (intro clean_append) (simp_all add: is_trailing_def)
qed

lemma show_no_char:
  "\<not> is_digit c \<Longrightarrow> c \<notin> set (show_nat n)" "\<not> is_digit c \<Longrightarrow> c \<noteq> CHR ''.'' \<Longrightarrow> c \<notin> set (show_tenths n)"
  using show_nat_digits is_digit_char(1)[of "n mod 10"] by (auto simp: show_tenths_def)

lemma not_digit [simp]: "\<not> is_digit CHR ''|''" "\<not> is_digit CHR 0x00" "\<not> is_digit CHR 0x0A"
  by (simp_all add: is_digit_def)

lemma parse_long_show: "lo \<le> int n \<Longrightarrow> int n \<le> hi \<Longrightarrow> n < 2 ^ 63 \<Longrightarrow> parse_long (show_nat n) lo hi = Some (int n)"
  using c_strtol_show[of "[]" n] by (simp add: parse_long_def no_digit_def)

lemma uint_sint_nonneg: "0 \<le> sint w \<Longrightarrow> uint w = sint w" for w :: "'a::len word"
proof -
  assume "0 \<le> sint w"
  moreover have "sint w < 2 ^ LENGTH('a)"
    using sint_lt[of w] power_increasing[of "LENGTH('a) - 1" "LENGTH('a)" "2 :: int"] by linarith
  ultimately have "take_bit LENGTH('a) (sint w) = sint w" by (simp add: take_bit_int_eq_self)
  then show ?thesis by (simp add: uint_sint)
qed

lemma unat_less_of_uint: "uint w < int n \<Longrightarrow> unat w < n"
  by (simp only: uint_nat of_nat_less_iff)

lemma parse_temperature_show:
  assumes "370 \<le> sint t" "sint t \<le> 1600"
  shows "parse_temperature (show_tenths (unat t)) = Some t"
proof -
  have n: "uint t = sint t" using assms(1) by (intro uint_sint_nonneg) simp
  then have "rnd (of_nat (unat t) / 10) = to_celsius t" unfolding to_celsius_alt by (metis of_int_of_nat_eq uint_nat)
  moreover have "unat t < 100000" using n assms(2) by (intro unat_less_of_uint) simp
  ultimately have "c_strtof (show_tenths (unat t) @ []) = Some (Finite (to_celsius t), True, [])"
    by (subst c_strtof_tenths) (simp_all add: no_digit_def)
  moreover have "\<not> to_celsius t < 37" "\<not> 160 < to_celsius t"
    using to_celsius_less[of 37 t] to_celsius_greater[of 160 t] assms by simp_all
  ultimately show ?thesis by (simp add: parse_temperature_def)
qed

definition all_fields :: "recipe_step \<Rightarrow> fields" where
  "all_fields s = \<lparr>fd_temp = (st_target_temp s \<noteq> 0), fd_speed = True, fd_time = (st_duration_s s \<noteq> 0),
     fd_weight = (st_target_weight s \<noteq> 0)\<rparr>"

lemma step_fields_good: "printable (st_text s) \<Longrightarrow> \<forall>kv \<in> set (step_fields s). good_field kv"
  by (auto simp: step_fields_def good_field_def printable_def show_no_char, simp_all add: clean_def is_blank_def is_trailing_def)

lemma parse_long_show_word:
  "lo \<le> uint w \<Longrightarrow> uint w \<le> hi \<Longrightarrow> hi < 2 ^ 32 \<Longrightarrow> parse_long (show_nat (unat w)) lo hi = Some (uint w)" for w :: "'a::len word"
  using parse_long_show[of lo "unat w" hi] unat_less_of_uint[of w "2 ^ 63"] by simp

lemma apply_step_fields:
  assumes "step_in_range s"
  shows "apply_fields (step_fields s) (step_init\<lparr>st_kind := st_kind s\<rparr>) fields_init = (True, s, all_fields s)"
proof -
  have sp: "parse_long (show_nat (unat (st_dial_speed s))) 0 10 = Some (uint (st_dial_speed s))"
    using assms by (intro parse_long_show_word) (simp_all add: step_in_range_def word_le_def)
  have pos: "w \<noteq> 0 \<Longrightarrow> 1 \<le> uint w" for w :: i32 using uint_nonnegative[of w] uint_0_iff[of w] by linarith
  have ti: "parse_long (show_nat (unat (st_duration_s s))) 1 86400 = Some (uint (st_duration_s s))" if "st_duration_s s \<noteq> 0"
    using assms pos[OF that] by (intro parse_long_show_word) (simp_all add: step_in_range_def word_le_def)
  have we: "parse_long (show_nat (unat (st_target_weight s))) 1 2200 = Some (uint (st_target_weight s))" if "st_target_weight s \<noteq> 0"
    using assms pos[OF that] uint_sint_nonneg[of "st_target_weight s"]
    by (intro parse_long_show_word) (simp_all add: step_in_range_def)
  have te: "parse_temperature (show_tenths (unat (st_target_temp s))) = Some (st_target_temp s)" if "st_target_temp s \<noteq> 0"
    using assms that by (intro parse_temperature_show) (auto simp: step_in_range_def)
  have tx: "take 95 (st_text s) = st_text s" using assms by (simp add: step_in_range_def)
  have "apply_fields (step_fields s) (step_init\<lparr>st_kind := st_kind s\<rparr>) fields_init =
    (True, \<lparr>st_kind = st_kind s, st_text = st_text s, st_target_temp = st_target_temp s,
      st_dial_speed = st_dial_speed s, st_duration_s = st_duration_s s, st_target_weight = st_target_weight s\<rparr>, all_fields s)"
    by (cases "st_target_temp s = 0"; cases "st_duration_s s = 0"; cases "st_target_weight s = 0")
       (simp_all add: step_fields_def apply_field_def sp ti we te tx all_fields_def fields_init_def step_init_def)
  then show ?thesis by simp
qed

lemma complete_valid: "step_complete s \<Longrightarrow> step_valid s (all_fields s)"
  by (cases "st_kind s") (auto simp: step_complete_def step_valid_def all_fields_def)

lemma parse_step_print:
  assumes "step_in_range s" "step_complete s" "printable (st_text s)"
  shows "parse_step (step_body s) step_init = (Ok, s)"
  unfolding step_body_def
  using assms by (intro parse_step_printed[OF step_fields_good _ apply_step_fields complete_valid]) (auto simp: step_fields_def)

section \<open>Lines\<close>

lemma show_nat_length: "0 < k \<Longrightarrow> n < 10 ^ k \<Longrightarrow> length (show_nat n) \<le> k"
proof (induction n arbitrary: k rule: show_nat.induct)
  case (1 n)
  show ?case
  proof (cases "n < 10")
    case True
    then show ?thesis using "1.prems"(1) by (subst show_nat.simps) simp
  next
    case False
    then obtain j where k: "k = Suc j" "0 < j" using "1.prems" by (cases k; cases "k - 1") auto
    then have "n div 10 < 10 ^ j" using "1.prems"(2) by (simp add: less_mult_imp_div_less mult.commute)
    then show ?thesis using "1.IH"[OF False k(2)] False k(1) by (subst show_nat.simps) simp
  qed
qed

lemma join_bar_length: "length (join_bar ts) \<le> sum_list (map (\<lambda>t. length t + 3) ts)"
  by (induction ts rule: join_bar.induct) auto

lemma join_bar_set: "set (join_bar ts) \<subseteq> {CHR '' '', CHR ''|''} \<union> (\<Union>t \<in> set ts. set t)"
  by (induction ts rule: join_bar.induct) auto

lemma step_body_length:
  assumes "step_in_range s"
  shows "length (step_body s) \<le> 248"
proof -
  have l: "length (show_nat n) \<le> 5" if "n < 100000" for n using show_nat_length[of 5 n] that by simp
  have u: "unat (st_target_temp s) < 100000" "unat (st_dial_speed s) < 100000" "unat (st_duration_s s) < 100000"
    "unat (st_target_weight s) < 100000"
    using assms uint_sint_nonneg[of "st_target_weight s"] uint_sint_nonneg[of "st_target_temp s"]
    by (auto simp: step_in_range_def word_le_def intro!: unat_less_of_uint)
  have t: "length (show_tenths (unat (st_target_temp s))) \<le> 7" using l[of "unat (st_target_temp s) div 10"] u(1) by (simp add: show_tenths_def)
  have k: "length (kind_name (st_kind s)) \<le> 5" by (cases "st_kind s") simp_all
  have "length (step_body s) \<le> sum_list (map (\<lambda>t. length t + 3) (kind_name (st_kind s) # map field_token (step_fields s)))"
    unfolding step_body_def by (rule join_bar_length)
  also have "\<dots> \<le> 248"
    using k t l[OF u(2)] l[OF u(3)] l[OF u(4)] assms by (simp add: step_fields_def field_token_def step_in_range_def)
  finally show ?thesis .
qed

lemma step_body_chars:
  assumes "printable (st_text s)" "c = CHR 0x00 \<or> c = CHR 0x0A"
  shows "c \<notin> set (step_body s)"
proof -
  have "c \<notin> set (kind_name (st_kind s))" using assms(2) by (cases "st_kind s") auto
  moreover have "c \<notin> set (field_token kv)" if "kv \<in> set (step_fields s)" for kv
    using that assms by (auto simp: step_fields_def field_token_def printable_def show_no_char split: if_splits)
  ultimately show ?thesis
    unfolding step_body_def using join_bar_set[of "kind_name (st_kind s) # map field_token (step_fields s)"] assms(2) by auto
qed

lemma clean_join: "ts \<noteq> [] \<Longrightarrow> \<forall>t \<in> set ts. clean t \<Longrightarrow> clean (join_bar ts)"
proof (induction ts rule: join_bar.induct)
  case (3 t u us)
  then have "clean (join_bar (u # us))" "clean t" by simp_all
  then show ?case by (simp add: clean_append) (simp add: clean_def)
qed simp_all

lemma step_body_clean: "printable (st_text s) \<Longrightarrow> clean (step_body s)"
  unfolding step_body_def using step_fields_good[of s] good_field_token(1) kind_name_clean(1)
  by (intro clean_join) auto

lemma parse_name_line: "clean n \<Longrightarrow> length n \<le> 31 \<Longrightarrow> parse_line (''name: '' @ n) r = (Ok, r\<lparr>r_name := n\<rparr>)"
proof -
  assume n: "clean n" "length n \<le> 31"
  then have "clean (''name: '' @ n)" by (auto simp: clean_def is_blank_def)
  from skip_spaces_clean(1)[OF this] trim_end_clean[OF this] n show ?thesis by (simp add: parse_line_def)
qed

definition printable_step :: "recipe_step \<Rightarrow> bool" where
  "printable_step s \<longleftrightarrow> step_in_range s \<and> step_complete s \<and> printable (st_text s)"

lemma parse_step_line:
  assumes "printable_step s" "r_step_count r < kMaxSteps" "r_steps r ! r_step_count r = step_init"
  shows "parse_line (''step: '' @ step_body s) r =
    (Ok, r\<lparr>r_steps := (r_steps r)[r_step_count r := s], r_step_count := r_step_count r + 1\<rparr>)"
proof -
  have b: "clean (step_body s)" "length (step_body s) \<le> 255"
    using assms(1) step_body_clean step_body_length[of s] by (auto simp: printable_step_def)
  then have "clean (''step: '' @ step_body s)" by (auto simp: clean_def is_blank_def)
  from skip_spaces_clean(1)[OF this] trim_end_clean[OF this] b assms show ?thesis
    by (simp add: parse_line_def parse_step_print printable_step_def)
qed

text \<open>The recipe after the first steps have been read.\<close>

definition with_steps :: "recipe_step list \<Rightarrow> recipe \<Rightarrow> recipe" where
  "with_steps ss r = r\<lparr>r_steps := ss @ replicate (kMaxSteps - length ss) step_init, r_step_count := length ss\<rparr>"

lemma parse_all_steps:
  assumes "\<forall>s \<in> set ss. printable_step s" "length dn + length ss \<le> kMaxSteps"
  shows "parse_all (map (\<lambda>s. ''step: '' @ step_body s) ss) (with_steps dn r) = (Ok, with_steps (dn @ ss) r)"
  using assms
proof (induction ss arbitrary: dn)
  case (Cons s ss)
  let ?r = "with_steps dn r"
  have lt: "length dn < kMaxSteps" using Cons.prems(2) by simp
  then obtain k where k: "kMaxSteps - length dn = Suc k" "kMaxSteps - Suc (length dn) = k" by (metis Suc_diff_Suc)
  have "parse_line (''step: '' @ step_body s) ?r =
      (Ok, ?r\<lparr>r_steps := (r_steps ?r)[r_step_count ?r := s], r_step_count := r_step_count ?r + 1\<rparr>)"
    using Cons.prems lt by (intro parse_step_line) (simp_all add: with_steps_def nth_append)
  also have "\<dots> = (Ok, with_steps (dn @ [s]) r)" by (simp add: with_steps_def k list_update_append)
  finally have p: "parse_line (''step: '' @ step_body s) ?r = (Ok, with_steps (dn @ [s]) r)" .
  have "length (''step: '' @ step_body s) \<le> 254" using Cons.prems(1) step_body_length[of s] by (simp add: printable_step_def)
  then show ?case using p Cons.IH[of "dn @ [s]"] Cons.prems by simp
qed simp

definition storable :: "recipe \<Rightarrow> bool" where
  "storable r \<longleftrightarrow> clean (r_name r) \<and> CHR 0x00 \<notin> set (r_name r) \<and> CHR 0x0A \<notin> set (r_name r) \<and> length (r_name r) \<le> 31 \<and>
     0 < r_step_count r \<and> r_step_count r \<le> kMaxSteps \<and>
     r_steps r = take (r_step_count r) (r_steps r) @ replicate (kMaxSteps - r_step_count r) step_init \<and>
     length (r_steps r) = kMaxSteps \<and> (\<forall>s \<in> set (take (r_step_count r) (r_steps r)). printable_step s)"

lemma lines_of_concat: "\<forall>l \<in> set ls. CHR 0x0A \<notin> set l \<Longrightarrow> lines_of (concat (map (\<lambda>l. l @ [CHR 0x0A]) ls)) = ls"
  by (induction ls) (simp_all add: lines_of_line(1))

section \<open>Property\<close>

text \<open>
  C20: the parser reads back what the documented format says. Every recipe with a printable name, one to
  sixteen steps that are in range, complete and printable, and untouched further steps, written as a recipe
  file, is accepted and gives exactly that recipe, temperatures in tenths of a degree included.
\<close>

theorem recipe_roundtrip:
  assumes "storable r"
  shows "parse_recipe_file (\<lambda>_. Some (c_fopen (print_recipe r) False)) (Some p) (Some r0) = (Ok, Some r)"
proof -
  let ?ss = "take (r_step_count r) (r_steps r)"
  let ?ls = "(''name: '' @ r_name r) # map (\<lambda>s. ''step: '' @ step_body s) ?ss"
  have st: "\<forall>s \<in> set ?ss. printable_step s" "length ?ss = r_step_count r" using assms by (simp_all add: storable_def)
  then have chars: "\<forall>s \<in> set ?ss. CHR 0x00 \<notin> set (step_body s) \<and> CHR 0x0A \<notin> set (step_body s)"
    using step_body_chars by (auto simp: printable_step_def)
  have l: "lines_of (print_recipe r) = ?ls"
    unfolding print_recipe_def using chars assms by (intro lines_of_concat) (auto simp: storable_def)
  have z: "CHR 0x00 \<notin> set (print_recipe r)" unfolding print_recipe_def using chars assms by (auto simp: storable_def)
  let ?r1 = "recipe_init\<lparr>r_name := r_name r\<rparr>"
  have "?r1 = with_steps [] ?r1" by (simp add: with_steps_def recipe_init_def)
  then have "parse_all (map (\<lambda>s. ''step: '' @ step_body s) ?ss) ?r1 = (Ok, with_steps ?ss ?r1)"
    using parse_all_steps[of ?ss "[]" ?r1] st assms by (simp add: storable_def)
  moreover have "with_steps ?ss ?r1 = r"
    using assms st(2) by (simp add: with_steps_def storable_def)
  ultimately have "parse_all ?ls recipe_init = (Ok, r)"
    using assms by (simp add: parse_name_line[simplified] storable_def)
  then show ?thesis
    using parse_file_lines[OF z, of "\<lambda>_. Some (c_fopen (print_recipe r) False)" p r0] assms l
    by (simp add: storable_def clean_def)
qed

theorem recipe_roundtrip_witness:
  "let r = recipe_init\<lparr>r_name := ''Soup'', r_step_count := 1,
         r_steps := step_init\<lparr>st_kind := Heat, st_target_temp := 955, st_duration_s := 600, st_text := ''Simmer''\<rparr> # replicate 15 step_init\<rparr>
   in parse_recipe_file (\<lambda>_. Some (c_fopen (print_recipe r) False)) (Some ''soup.rcp'') (Some recipe_init) = (Ok, Some r)"
proof -
  let ?r = "recipe_init\<lparr>r_name := ''Soup'', r_step_count := 1,
      r_steps := step_init\<lparr>st_kind := Heat, st_target_temp := 955, st_duration_s := 600, st_text := ''Simmer''\<rparr> # replicate 15 step_init\<rparr>"
  have "storable ?r"
    by (simp add: storable_def limit_defs clean_def is_blank_def is_trailing_def printable_step_def step_in_range_def
        step_complete_def printable_def step_init_def)
  then show ?thesis unfolding Let_def by (rule recipe_roundtrip)
qed

end
