(* ===== verification/Capture_Decoder.thy ===== *)
theory Capture_Decoder
  imports C_Text Frame_Codec
begin

text \<open>
  \<open>src/tools/c1link_dump.cpp\<close>: the decoder of hexadecimal captures of the link. What it prints is a list of
  lines with the printed values; opening the capture is an argument. Shown here: a capture of written
  frames, in any layout of rows and behind any comment, decodes to exactly these frames, and a capture
  that stops anywhere but at the end of a frame is reported by the exit status.
\<close>

section \<open>Reading a capture\<close>

definition hex_value :: "char \<Rightarrow> int" where
  "hex_value c = (if is_digit c then int (of_char c) - 48 else int (of_char (to_lower c)) - 97 + 10)"

text \<open>The loop over the characters; the pending nibble is -1 where there is none.\<close>

fun capture_loop :: "string \<Rightarrow> int \<Rightarrow> bool \<Rightarrow> u8 list \<Rightarrow> u8 list" where
  "capture_loop [] nibble in_comment bytes = bytes"
| "capture_loop (c # cs) nibble in_comment bytes =
     (let in_comment = (if c = CHR 0x0A then False else if c = CHR ''#'' then True else in_comment)
      in if in_comment \<or> is_space c then capture_loop cs nibble in_comment bytes
         else let v = hex_value c
              in if v < 0 \<or> v > 15 then capture_loop cs nibble in_comment bytes
                 else if nibble < 0 then capture_loop cs v in_comment bytes
                 else capture_loop cs (- 1) in_comment (bytes @ [word_of_int (push_bit 4 nibble OR v)]))"

definition read_capture :: "(string \<Rightarrow> c_file option) \<Rightarrow> string \<Rightarrow> u8 list" where
  "read_capture fopen path = (case fopen path of None \<Rightarrow> [] | Some f \<Rightarrow> capture_loop (fl_bytes f) (- 1) False [])"

section \<open>Decoding\<close>

definition type_name :: "u8 \<Rightarrow> string" where
  "type_name ty =
     (if ty = 0x01 then ''REQ'' else if ty = 0x02 then ''RSP'' else if ty = 0x03 then ''TLM''
      else if ty = 0x04 then ''NAK'' else ''???'')"

text \<open>
  The lines printed: a frame at its offset with type, sequence number, message, length, payload, checksum
  and whether that matches; a malformed header; and data left over at the end.
\<close>

datatype dump_line =
    FrameLine nat string u8 u8 u16 "u8 list" u16 bool
  | MalformedLine nat
  | TruncatedLine nat

function dump_scan :: "u8 list \<Rightarrow> nat \<Rightarrow> nat \<Rightarrow> bool \<Rightarrow> dump_line list \<times> nat \<times> nat \<times> bool" where
  "dump_scan bytes i frames malformed =
     (if \<not> i + kHeaderSize \<le> length bytes then ([], i, frames, malformed)
      else if bytes ! i \<noteq> kSync0 \<or> bytes ! (i + 1) \<noteq> kSync1 then dump_scan bytes (i + 1) frames malformed
      else let len = get_u16 (drop (i + 6) bytes);
               frame_size = kHeaderSize + unat len + kCrcSize
           in if unat len > kMaxPayload \<or> frame_size > length bytes - i
              then (case dump_scan bytes (i + 1) frames True of (out, r) \<Rightarrow> (MalformedLine i # out, r))
              else let wire_crc = get_u16 (drop (i + kHeaderSize + unat len) bytes);
                       computed = crc16_ccitt (take (kHeaderSize - 2 + unat len) (drop (i + 2) bytes)) 0xFFFF
                   in (case dump_scan bytes (i + frame_size) (frames + 1) (malformed \<or> wire_crc \<noteq> computed) of
                         (out, r) \<Rightarrow>
                           (FrameLine i (type_name (bytes ! (i + 3))) (bytes ! (i + 4)) (bytes ! (i + 5)) len
                              (take (unat len) (drop (i + kHeaderSize) bytes)) wire_crc (wire_crc = computed) # out, r)))"
  by pat_completeness auto

termination
  by (relation "measure (\<lambda>(bytes, i, _). length bytes - i)") (auto simp: limit_defs)

declare dump_scan.simps [simp del]

text \<open>The exit status and the printed lines; \<open>argv\<close> includes the name of the program.\<close>

definition c1link_dump :: "(string \<Rightarrow> c_file option) \<Rightarrow> string list \<Rightarrow> nat \<times> dump_line list" where
  "c1link_dump fopen argv =
     (if length argv \<noteq> 2 then (2, [])
      else let bytes = read_capture fopen (argv ! 1)
           in if bytes = [] then (1, [])
              else case dump_scan bytes 0 0 False of
                     (out, i, frames, malformed) \<Rightarrow>
                       (let cut = (i < length bytes)
                        in (if frames > 0 \<and> \<not> (malformed \<or> cut) then 0 else 1,
                            out @ (if cut then [TruncatedLine i] else []))))"

section \<open>Capture files\<close>

text \<open>A comment line and rows of bytes, two hexadecimal digits each.\<close>

definition hex_digit :: "nat \<Rightarrow> char" where
  "hex_digit n = char_of (if n < 10 then 48 + n else 87 + n)"

definition hex_byte :: "u8 \<Rightarrow> string" where
  "hex_byte b = [CHR '' '', hex_digit (unat b div 16), hex_digit (unat b mod 16)]"

definition capture_text :: "string \<Rightarrow> u8 list list \<Rightarrow> string" where
  "capture_text comment rows =
     CHR ''#'' # comment @ CHR 0x0A # concat (map (\<lambda>row. concat (map hex_byte row) @ [CHR 0x0A]) rows)"

lemma is_space_simps [simp]: "is_space CHR '' ''" "is_space CHR 0x0A"
  by (simp_all add: is_space_def)

lemma hex_digit [simp]:
  assumes "n < 16"
  shows "hex_value (hex_digit n) = int n" "\<not> is_space (hex_digit n)" "hex_digit n \<noteq> CHR ''#''" "hex_digit n \<noteq> CHR 0x0A"
proof -
  let ?v = "if n < 10 then 48 + n else 87 + n"
  have v: "(of_char (hex_digit n) :: nat) = ?v" using assms by (simp add: hex_digit_def)
  have ne: "hex_digit n \<noteq> c" if "of_char c < (48 :: nat)" for c using v that by (auto split: if_splits)
  show "hex_value (hex_digit n) = int n" using assms by (simp add: hex_value_def is_digit_def to_lower_def v)
  show "hex_digit n \<noteq> CHR ''#''" "hex_digit n \<noteq> CHR 0x0A" by (simp_all add: ne)
  show "\<not> is_space (hex_digit n)" using ne[of "CHR '' ''"] by (simp add: is_space_def v)
qed

lemma nibbles: "word_of_int (push_bit 4 (int (unat b div 16)) OR int (unat b mod 16)) = b" for b :: u8
proof -
  have "push_bit 4 (unat b div 16) OR (unat b mod 16) = unat b"
    by (rule bit_eqI) (auto simp: bit_simps simp flip: drop_bit_eq_div[of 4, simplified] take_bit_eq_mod[of 4, simplified])
  moreover have "push_bit 4 (int x) OR int y = int (push_bit 4 x OR y)" for x y by (simp add: of_nat_or_eq push_bit_of_nat)
  ultimately show ?thesis by simp
qed

lemma capture_byte: "capture_loop (hex_byte b @ s) (- 1) False bytes = capture_loop s (- 1) False (bytes @ [b])"
proof -
  have hi: "unat b div 16 < 16" and lo: "unat b mod 16 < 16" using unsigned_less[of b, where ?'a = nat] by simp_all
  have le: "\<not> int (unat b div 16) < 0" "\<not> int (unat b div 16) > 15" "\<not> int (unat b mod 16) < 0" "\<not> int (unat b mod 16) > 15"
    using hi lo by linarith+
  show ?thesis
    unfolding hex_byte_def append_Cons append_Nil capture_loop.simps(2) Let_def hex_digit(1)[OF hi] hex_digit(1)[OF lo] nibbles
    using hex_digit(2-4)[OF hi] hex_digit(2-4)[OF lo] le by simp
qed

lemma capture_row: "capture_loop (concat (map hex_byte row) @ s) (- 1) False bytes = capture_loop s (- 1) False (bytes @ row)"
  by (induction row arbitrary: bytes) (simp_all add: capture_byte)

lemma capture_rows:
  "capture_loop (concat (map (\<lambda>row. concat (map hex_byte row) @ [CHR 0x0A]) rows)) (- 1) False bytes = bytes @ concat rows"
  by (induction rows arbitrary: bytes) (simp_all add: capture_row)

lemma capture_comment:
  "CHR 0x0A \<notin> set comment \<Longrightarrow> capture_loop (comment @ CHR 0x0A # s) (- 1) True bytes = capture_loop s (- 1) False bytes"
  by (induction comment) auto

lemma capture_text_bytes: "CHR 0x0A \<notin> set comment \<Longrightarrow> capture_loop (capture_text comment rows) (- 1) False [] = concat rows"
  by (simp add: capture_text_def capture_comment capture_rows)

section \<open>Written frames\<close>

text \<open>A frame as it is captured: type, sequence number, message and payload.\<close>

type_synonym captured = "frame_type \<times> u8 \<times> msg_id \<times> u8 list"

definition captured_ok :: "captured \<Rightarrow> bool" where
  "captured_ok f \<longleftrightarrow> (case f of (ft, seq, msg, data) \<Rightarrow> length data \<le> kMaxPayload)"

definition captured_bytes :: "captured \<Rightarrow> u8 list" where
  "captured_bytes f = (case f of (ft, seq, msg, data) \<Rightarrow> write_frame kMaxFrameSize ft seq msg data)"

definition captured_line :: "nat \<Rightarrow> captured \<Rightarrow> dump_line" where
  "captured_line i f =
     (case f of (ft, seq, msg, data) \<Rightarrow>
        FrameLine i (type_name (byte_of_frame_type ft)) seq (byte_of_msg_id msg) (of_nat (length data)) data
          (crc16_ccitt (frame_body kVersion ft seq msg data) 0xFFFF) True)"

fun captured_lines :: "nat \<Rightarrow> captured list \<Rightarrow> dump_line list" where
  "captured_lines i [] = []"
| "captured_lines i (f # fs) = captured_line i f # captured_lines (i + length (captured_bytes f)) fs"

lemma captured_bytes_shape:
  assumes "captured_ok (ft, seq, msg, data)"
  obtains lo hi clo chi where
    "captured_bytes (ft, seq, msg, data) =
       [kSync0, kSync1, kVersion, byte_of_frame_type ft, seq, byte_of_msg_id msg, lo, hi] @ data @ [clo, chi]"
    "\<forall>x. get_u16 (lo # hi # x) = of_nat (length data)" "\<forall>x. get_u16 (clo # chi # x) = crc16_ccitt (frame_body kVersion ft seq msg data) 0xFFFF"
    "frame_body kVersion ft seq msg data = [kVersion, byte_of_frame_type ft, seq, byte_of_msg_id msg, lo, hi] @ data"
    "unat (of_nat (length data) :: u16) = length data"
proof -
  let ?n = "of_nat (length data) :: u16" and ?c = "crc16_ccitt (frame_body kVersion ft seq msg data) 0xFFFF"
  obtain lo hi where n: "put_u16 ?n = [lo, hi]" by (simp add: put_u16_def)
  obtain clo chi where c: "put_u16 ?c = [clo, chi]" by (simp add: put_u16_def)
  have "captured_bytes (ft, seq, msg, data) =
       [kSync0, kSync1, kVersion, byte_of_frame_type ft, seq, byte_of_msg_id msg, lo, hi] @ data @ [clo, chi]"
    using assms n c by (simp add: captured_bytes_def captured_ok_def write_frame_def frame_body_def limit_defs Let_def)
  moreover have "\<forall>x. get_u16 (lo # hi # x) = ?n" using get_put_u16[of ?n] n by simp
  moreover have "\<forall>x. get_u16 (clo # chi # x) = ?c" using get_put_u16[of ?c] c by simp
  moreover have "frame_body kVersion ft seq msg data = [kVersion, byte_of_frame_type ft, seq, byte_of_msg_id msg, lo, hi] @ data"
    using n by (simp add: frame_body_def)
  moreover have "unat ?n = length data" using assms by (simp add: captured_ok_def limit_defs unat_of_nat)
  ultimately show ?thesis by (rule that)
qed

lemma captured_length: "captured_ok (ft, seq, msg, data) \<Longrightarrow> length (captured_bytes (ft, seq, msg, data)) = kHeaderSize + length data + kCrcSize"
  by (erule captured_bytes_shape) (simp add: limit_defs)

lemma captured_nonempty: "captured_ok f \<Longrightarrow> captured_bytes f \<noteq> []"
  by (cases f) (auto simp: limit_defs dest!: captured_length)

lemma drop_pre: "drop (length pre + k) (pre @ s) = drop k s" "k < length s \<Longrightarrow> (pre @ s) ! (length pre + k) = s ! k"
  by (simp_all add: nth_append)

text \<open>A frame in front of the scan position is decoded and the scan goes on behind it.\<close>

lemma dump_scan_frame:
  assumes ok: "captured_ok f"
  shows "dump_scan (pre @ captured_bytes f @ post) (length pre) frames bad =
    (case dump_scan ((pre @ captured_bytes f) @ post) (length (pre @ captured_bytes f)) (frames + 1) bad of
       (out, r) \<Rightarrow> (captured_line (length pre) f # out, r))"
proof -
  obtain ft seq msg data where f: "f = (ft, seq, msg, data)" by (cases f)
  obtain lo hi clo chi where
    b: "captured_bytes f = [kSync0, kSync1, kVersion, byte_of_frame_type ft, seq, byte_of_msg_id msg, lo, hi] @ data @ [clo, chi]"
    and len: "\<forall>x. get_u16 (lo # hi # x) = of_nat (length data)"
    and crc: "\<forall>x. get_u16 (clo # chi # x) = crc16_ccitt (frame_body kVersion ft seq msg data) 0xFFFF"
    and body: "frame_body kVersion ft seq msg data = [kVersion, byte_of_frame_type ft, seq, byte_of_msg_id msg, lo, hi] @ data"
    and u: "unat (of_nat (length data) :: u16) = length data"
    using captured_bytes_shape[of ft seq msg data] ok unfolding f by metis
  define s where "s = captured_bytes f @ post"
  let ?n = "of_nat (length data) :: u16"
  have s: "s = kSync0 # kSync1 # kVersion # byte_of_frame_type ft # seq # byte_of_msg_id msg # lo # hi # data @ clo # chi # post"
    by (simp add: s_def b)
  have at: "drop (length pre + k) (pre @ s) = drop k s" for k by (rule drop_pre)
  have nth: "(pre @ s) ! length pre = kSync0" "(pre @ s) ! Suc (length pre) = kSync1"
    "s ! 3 = byte_of_frame_type ft" "s ! 4 = seq" "s ! 5 = byte_of_msg_id msg"
    by (simp_all add: nth_append s)
  have l: "get_u16 (drop 6 s) = ?n" using len by (simp add: s)
  have d8: "drop kHeaderSize s = data @ clo # chi # post" by (simp add: s limit_defs)
  have "drop (kHeaderSize + length data) s = drop (length data) (drop kHeaderSize s)" by (simp add: add.commute)
  then have w: "get_u16 (drop (kHeaderSize + length data) s) = crc16_ccitt (frame_body kVersion ft seq msg data) 0xFFFF"
    using crc by (simp add: d8)
  have d2: "drop 2 s = frame_body kVersion ft seq msg data @ clo # chi # post" by (simp add: s body)
  have lb: "length (frame_body kVersion ft seq msg data) = kHeaderSize - 2 + length data" unfolding body by (simp add: limit_defs)
  have c: "take (kHeaderSize - 2 + length data) (drop 2 s) = frame_body kVersion ft seq msg data"
    unfolding d2 by (simp flip: lb)
  have p: "take (length data) (drop kHeaderSize s) = data" by (simp add: d8)
  have size: "length (captured_bytes f) = kHeaderSize + length data + kCrcSize" using captured_length ok f by blast
  have ok': "length data \<le> kMaxPayload" using ok by (simp add: f captured_ok_def)
  have ls: "length s = kHeaderSize + length data + kCrcSize + length post" using size by (simp add: s_def)
  have "dump_scan (pre @ s) (length pre) frames bad =
    (case dump_scan (pre @ s) (length pre + (kHeaderSize + length data + kCrcSize)) (frames + 1) bad of
       (out, r) \<Rightarrow> (captured_line (length pre) f # out, r))"
    using ok' ls
    by (subst dump_scan.simps) (simp add: nth Let_def at l u w c p add.assoc f captured_line_def split: prod.split)
  then show ?thesis using size by (simp add: s_def)
qed

section \<open>Frames that stop early\<close>

text \<open>What the exit status looks at: a capture is found complete if nothing was malformed and nothing is left.\<close>

definition capture_complete :: "u8 list \<Rightarrow> dump_line list \<times> nat \<times> nat \<times> bool \<Rightarrow> bool" where
  "capture_complete bytes r \<longleftrightarrow> (case r of (out, i, frames, bad) \<Rightarrow> \<not> bad \<and> \<not> i < length bytes)"

text \<open>A malformed header is never forgotten.\<close>

lemma dump_scan_bad: "bad \<Longrightarrow> snd (snd (snd (dump_scan bytes i frames bad)))"
proof (induction bytes i frames bad rule: dump_scan.induct)
  case (1 bytes i frames bad)
  show ?case
    using "1.IH" "1.prems" by (subst dump_scan.simps) (simp add: Let_def case_prod_beta)
qed

text \<open>A proper part of a frame at the end is reported.\<close>

lemma dump_scan_partial:
  assumes ok: "captured_ok f" and n: "0 < n" "n < length (captured_bytes f)"
  shows "\<not> capture_complete (pre @ take n (captured_bytes f)) (dump_scan (pre @ take n (captured_bytes f)) (length pre) frames bad)"
proof (cases "n < kHeaderSize")
  case True
  then show ?thesis using n by (subst dump_scan.simps) (simp add: capture_complete_def)
next
  case False
  obtain ft seq msg data where f: "f = (ft, seq, msg, data)" by (cases f)
  obtain lo hi clo chi where
    b: "captured_bytes f = [kSync0, kSync1, kVersion, byte_of_frame_type ft, seq, byte_of_msg_id msg, lo, hi] @ data @ [clo, chi]"
    and len: "\<forall>x. get_u16 (lo # hi # x) = of_nat (length data)" and u: "unat (of_nat (length data) :: u16) = length data"
    using captured_bytes_shape[of ft seq msg data] ok unfolding f by metis
  define s where "s = take n (captured_bytes f)"
  have ls: "length s = n" using n by (simp add: s_def)
  have hd: "s ! 0 = kSync0" "s ! Suc 0 = kSync1" using False by (simp_all add: s_def b limit_defs)
  have "drop 6 s = lo # hi # drop 8 s"
  proof -
    have "take 8 s = [kSync0, kSync1, kVersion, byte_of_frame_type ft, seq, byte_of_msg_id msg, lo, hi]"
      using False by (simp add: s_def b limit_defs min_def)
    then have "take 2 (drop 6 s) = [lo, hi]" by (simp add: take_drop)
    then show ?thesis by (metis append_take_drop_id append_Cons append_Nil drop_drop numeral_Bit0 numeral_Bit1 add_numeral_special)
  qed
  then have l: "get_u16 (drop (length pre + 6) (pre @ s)) = of_nat (length data)" using len by simp
  have "\<not> kHeaderSize + length data + kCrcSize \<le> length s" using n captured_length ok ls f by (metis not_less)
  then show ?thesis
    using False dump_scan_bad[of True] hd l ls u unfolding s_def[symmetric]
    by (subst dump_scan.simps) (simp add: capture_complete_def Let_def nth_append case_prod_beta)
qed

text \<open>Frames and a possibly empty beginning of one more.\<close>

lemma dump_scan_frames:
  assumes "\<forall>f \<in> set fs. captured_ok f"
  shows "dump_scan (pre @ concat (map captured_bytes fs) @ post) (length pre) frames bad =
    (case dump_scan ((pre @ concat (map captured_bytes fs)) @ post) (length (pre @ concat (map captured_bytes fs))) (frames + length fs) bad of
       (out, r) \<Rightarrow> (captured_lines (length pre) fs @ out, r))"
  using assms
proof (induction fs arbitrary: pre frames)
  case (Cons f fs)
  have "dump_scan (pre @ captured_bytes f @ concat (map captured_bytes fs) @ post) (length pre) frames bad =
    (case dump_scan ((pre @ captured_bytes f) @ concat (map captured_bytes fs) @ post) (length (pre @ captured_bytes f)) (frames + 1) bad of
       (out, r) \<Rightarrow> (captured_line (length pre) f # out, r))"
    using Cons.prems by (intro dump_scan_frame) simp
  then show ?case using Cons.IH[of "pre @ captured_bytes f" "frames + 1"] Cons.prems
    by (simp add: add.assoc split: prod.splits)
qed (simp split: prod.split)

text \<open>Cutting a block of frames leaves whole frames and at most one cut one.\<close>

lemma take_frames:
  assumes "n \<le> length (concat ws)"
  shows "\<exists>k \<le> length ws. take n (concat ws) = concat (take k ws) \<and> n = length (concat (take k ws)) \<or>
    k < length ws \<and> (\<exists>m. 0 < m \<and> m < length (ws ! k) \<and> n = length (concat (take k ws)) + m \<and>
      take n (concat ws) = concat (take k ws) @ take m (ws ! k))"
  using assms
proof (induction ws arbitrary: n)
  case (Cons w ws)
  show ?case
  proof (cases "n < length w")
    case True
    show ?thesis
    proof (cases "n = 0")
      case False
      then show ?thesis using True by (intro exI[of _ 0] conjI disjI2 exI[of _ n]) simp_all
    qed (auto intro!: exI[of _ 0])
  next
    case False
    then have le: "n - length w \<le> length (concat ws)" using Cons.prems by simp
    obtain k where "k \<le> length ws" "take (n - length w) (concat ws) = concat (take k ws) \<and> n - length w = length (concat (take k ws)) \<or>
      k < length ws \<and> (\<exists>m. 0 < m \<and> m < length (ws ! k) \<and> n - length w = length (concat (take k ws)) + m \<and>
        take (n - length w) (concat ws) = concat (take k ws) @ take m (ws ! k))"
      using Cons.IH[OF le] by blast
    then show ?thesis using False by (intro exI[of _ "Suc k"]) auto
  qed
qed simp

text \<open>The whole decoder on a block of frames that may be cut.\<close>

lemma dump_frames:
  assumes ok: "\<forall>f \<in> set fs. captured_ok f"
    and opened: "fopen path = Some f" "capture_loop (fl_bytes f) (- 1) False [] = concat (map captured_bytes fs) @ part"
    and part: "part = [] \<or> (\<exists>g m. captured_ok g \<and> 0 < m \<and> m < length (captured_bytes g) \<and> part = take m (captured_bytes g))"
  shows "fst (c1link_dump fopen [prog, path]) = (if part = [] \<and> fs \<noteq> [] then 0 else 1)"
    "part = [] \<Longrightarrow> fs \<noteq> [] \<Longrightarrow> c1link_dump fopen [prog, path] = (0, captured_lines 0 fs)"
proof -
  define w where "w = concat (map captured_bytes fs)"
  have bytes: "read_capture fopen path = w @ part" using opened by (simp add: read_capture_def w_def)
  have ne: "w = [] \<longleftrightarrow> fs = []"
    using ok captured_nonempty unfolding w_def by (cases fs) auto
  define rest where "rest = dump_scan (w @ part) (length w) (length fs) False"
  have scan: "dump_scan (w @ part) 0 0 False = (case rest of (out, r) \<Rightarrow> (captured_lines 0 fs @ out, r))"
    using dump_scan_frames[OF ok, of "[]" part 0 False] by (simp add: rest_def w_def)
  have whole: "rest = ([], length w, length fs, False)" if "part = []"
    unfolding rest_def that by (subst dump_scan.simps) (simp add: limit_defs)
  have cut: "\<not> capture_complete (w @ part) rest" if "part \<noteq> []"
    using that part dump_scan_partial unfolding rest_def by blast
  show result: "c1link_dump fopen [prog, path] = (0, captured_lines 0 fs)" if "part = []" "fs \<noteq> []"
    using scan whole ne that by (simp add: c1link_dump_def bytes Let_def)
  show "fst (c1link_dump fopen [prog, path]) = (if part = [] \<and> fs \<noteq> [] then 0 else 1)"
  proof (cases "part = []")
    case True
    then show ?thesis using result ne by (cases "fs = []") (simp_all add: c1link_dump_def bytes)
  next
    case False
    then show ?thesis using scan cut
      by (cases rest) (auto simp: c1link_dump_def bytes Let_def capture_complete_def)
  qed
qed

section \<open>Property\<close>

text \<open>A whole capture, and one cut inside a frame.\<close>

lemma read_capture_text:
  assumes "CHR 0x0A \<notin> set comment" "concat rows = bs"
  shows "capture_loop (fl_bytes (c_fopen (capture_text comment rows) fails)) (- 1) False [] = bs"
  using capture_text_bytes[OF assms(1), of rows] assms(2) by (simp add: c_fopen_def)

lemma whole_capture:
  assumes "\<forall>f \<in> set fs. captured_ok f" "fs \<noteq> []" "capture_loop (fl_bytes f) (- 1) False [] = concat (map captured_bytes fs)" "fopen path = Some f"
  shows "c1link_dump fopen [prog, path] = (0, captured_lines 0 fs)"
  using dump_frames(2)[of fs fopen path f "[]" prog] assms by simp

lemma torn_capture:
  assumes "\<forall>f \<in> set fs. captured_ok f" "captured_ok g" "0 < m" "m < length (captured_bytes g)"
    and "capture_loop (fl_bytes f) (- 1) False [] = concat (map captured_bytes fs) @ take m (captured_bytes g)" "fopen path = Some f"
  shows "fst (c1link_dump fopen [prog, path]) \<noteq> 0"
proof -
  let ?part = "take m (captured_bytes g)"
  have "\<exists>g m. captured_ok g \<and> 0 < m \<and> m < length (captured_bytes g) \<and> ?part = take m (captured_bytes g)" using assms(2-4) by blast
  then have "fst (c1link_dump fopen [prog, path]) = (if ?part = [] \<and> fs \<noteq> [] then 0 else 1)"
    using dump_frames(1)[where fopen = fopen and path = path, OF assms(1,6), of ?part prog] assms(5) by blast
  moreover have "?part \<noteq> []" using assms(3,4) by auto
  ultimately show ?thesis by simp
qed

text \<open>
  C24: the capture decoder is exact. Take any frames, cut their bytes anywhere, and write what is left as
  rows of hexadecimal digits behind any comment: the exit status is 0 exactly if the capture ends with a
  whole frame (and has one), and then the decoder lists precisely these frames, each with its offset and a
  matching checksum.
\<close>

theorem capture_decodes_exactly:
  assumes "\<forall>f \<in> set fs. captured_ok f" "n \<le> length (concat (map captured_bytes fs))"
    "concat rows = take n (concat (map captured_bytes fs))" "CHR 0x0A \<notin> set comment"
    "fopen path = Some (c_fopen (capture_text comment rows) fails)"
  shows "(fst (c1link_dump fopen [prog, path]) = 0 \<longleftrightarrow>
      (\<exists>k. 0 < k \<and> k \<le> length fs \<and> n = length (concat (map captured_bytes (take k fs))))) \<and>
    (\<forall>k. 0 < k \<and> k \<le> length fs \<and> n = length (concat (map captured_bytes (take k fs))) \<longrightarrow>
      c1link_dump fopen [prog, path] = (0, captured_lines 0 (take k fs)))"
proof -
  let ?ws = "map captured_bytes fs"
  let ?f = "c_fopen (capture_text comment rows) fails"
  have read: "capture_loop (fl_bytes ?f) (- 1) False [] = take n (concat ?ws)" using read_capture_text[OF assms(4,3)] .
  have whole: "c1link_dump fopen [prog, path] = (0, captured_lines 0 (take k fs))"
    if k: "0 < k" "k \<le> length fs" "n = length (concat (map captured_bytes (take k fs)))" for k
  proof (rule whole_capture[where fopen = fopen and path = path and f = ?f])
    show "fopen path = Some ?f" by (rule assms(5))
    have "concat ?ws = concat (map captured_bytes (take k fs)) @ concat (map captured_bytes (drop k fs))"
      by (metis append_take_drop_id concat_append map_append)
    then show "capture_loop (fl_bytes ?f) (- 1) False [] = concat (map captured_bytes (take k fs))" using k(3) read by simp
    show "\<forall>f \<in> set (take k fs). captured_ok f" using assms(1) in_set_takeD by fast
    show "take k fs \<noteq> []" using k(1,2) by auto
  qed
  have "\<exists>k. 0 < k \<and> k \<le> length fs \<and> n = length (concat (map captured_bytes (take k fs)))"
    if exit: "fst (c1link_dump fopen [prog, path]) = 0"
  proof -
    obtain k where k: "k \<le> length fs"
      "take n (concat ?ws) = concat (take k ?ws) \<and> n = length (concat (take k ?ws)) \<or>
       k < length ?ws \<and> (\<exists>m. 0 < m \<and> m < length (?ws ! k) \<and> n = length (concat (take k ?ws)) + m \<and>
         take n (concat ?ws) = concat (take k ?ws) @ take m (?ws ! k))"
      using take_frames[OF assms(2)] by auto
    have okk: "\<forall>f \<in> set (take k fs). captured_ok f" using assms(1) in_set_takeD by fast
    have cut: "take n (concat ?ws) = concat (take k ?ws) \<and> n = length (concat (take k ?ws))"
    proof (rule ccontr)
      assume "\<not> ?thesis"
      then obtain m where m: "k < length fs" "0 < m" "m < length (captured_bytes (fs ! k))"
        "take n (concat ?ws) = concat (map captured_bytes (take k fs)) @ take m (captured_bytes (fs ! k))"
        using k(2) by (auto simp: take_map)
      have "captured_ok (fs ! k)" using assms(1) m(1) by simp
      from torn_capture[where fopen = fopen and path = path, OF okk this m(2,3) trans[OF read m(4)] assms(5), of prog]
      show False using exit by simp
    qed
    have "capture_loop (fl_bytes ?f) (- 1) False [] = concat (map captured_bytes (take k fs)) @ []"
      using trans[OF read conjunct1[OF cut]] by (simp add: take_map)
    then have "fst (c1link_dump fopen [prog, path]) = (if take k fs \<noteq> [] then 0 else 1)"
      using dump_frames(1)[where fopen = fopen and path = path, OF okk assms(5), of "[]" prog] by simp
    then show ?thesis using exit cut k(1) by (auto simp: take_map split: if_splits)
  qed
  moreover have "fst (c1link_dump fopen [prog, path]) = 0"
    if "0 < k" "k \<le> length fs" "n = length (concat (map captured_bytes (take k fs)))" for k
    using whole[OF that] by simp
  ultimately show ?thesis using whole by blast
qed

theorem capture_decodes_exactly_witness:
  "c1link_dump (\<lambda>_. Some (c_fopen (capture_text ''ping'' [captured_bytes (FtRequest, 1, Ping, [])]) False)) [''c1link_dump'', ''a.hex''] =
     (0, captured_lines 0 [(FtRequest, 1, Ping, [])])"
proof -
  let ?f = "(FtRequest, 1, Ping, []) :: captured"
  have "captured_ok ?f" by (simp add: captured_ok_def)
  then have ok: "\<forall>f \<in> set [?f]. captured_ok f" by simp
  have n: "length (captured_bytes ?f) \<le> length (concat (map captured_bytes [?f]))"
    "concat [captured_bytes ?f] = take (length (captured_bytes ?f)) (concat (map captured_bytes [?f]))" by simp_all
  have k: "0 < (1 :: nat) \<and> 1 \<le> length [?f] \<and> length (captured_bytes ?f) = length (concat (map captured_bytes (take 1 [?f])))" by simp
  have c: "CHR 0x0A \<notin> set ''ping''" by simp
  define h where "h = (\<lambda>_ :: string. Some (c_fopen (capture_text ''ping'' [captured_bytes ?f]) False))"
  have o: "h ''a.hex'' = Some (c_fopen (capture_text ''ping'' [captured_bytes ?f]) False)" by (simp add: h_def)
  have "c1link_dump h [''c1link_dump'', ''a.hex''] = (0, captured_lines 0 (take 1 [?f]))"
    using capture_decodes_exactly[where fopen = h and path = "''a.hex''" and prog = "''c1link_dump''", OF ok n c o] k by blast
  then show ?thesis by (simp add: h_def)
qed

end
