(* ===== verification/Socket_Transport.thy ===== *)
theory Socket_Transport
  imports Hal
begin

text \<open>
  \<open>src/sim/socket_transport.cpp\<close>: the serial line between the two processes as a Unix domain socket. The
  system calls are a record of operations over the state of the operating system; a path is refused if it
  does not fit the address structure. Logging, and the socket option against \<open>SIGPIPE\<close> of systems that
  have it, are left out. Shown here: for every operating system that hands out and closes descriptors as
  documented, no descriptor is leaked or closed twice, whatever fails, and only a socket of the user's own
  is ever removed from the file system.
\<close>

section \<open>System calls\<close>

text \<open>What \<open>lstat\<close> reports: whether the path is a socket and of the user, that it does not exist, an error.\<close>

datatype stat_result = StatFound bool bool | StatMissing | StatError

record 'k posix =
  px_sun_path :: nat
  px_o_nonblock :: int
  px_socket :: "'k \<Rightarrow> int \<times> 'k"
  px_lstat :: "string \<Rightarrow> 'k \<Rightarrow> stat_result"
  px_unlink :: "string \<Rightarrow> 'k \<Rightarrow> int \<times> 'k"
  px_bind :: "int \<Rightarrow> string \<Rightarrow> 'k \<Rightarrow> int \<times> 'k"
  px_listen :: "int \<Rightarrow> 'k \<Rightarrow> int \<times> 'k"
  px_connect :: "int \<Rightarrow> string \<Rightarrow> 'k \<Rightarrow> int \<times> 'k"
  px_accept :: "int \<Rightarrow> 'k \<Rightarrow> int \<times> 'k"
  px_getfl :: "int \<Rightarrow> 'k \<Rightarrow> int \<times> 'k"
  px_setfl :: "int \<Rightarrow> int \<Rightarrow> 'k \<Rightarrow> int \<times> 'k"
  px_send :: "int \<Rightarrow> u8 list \<Rightarrow> 'k \<Rightarrow> int \<times> 'k"
  px_recv :: "int \<Rightarrow> nat \<Rightarrow> 'k \<Rightarrow> int \<times> u8 list \<times> 'k"
  px_close :: "int \<Rightarrow> 'k \<Rightarrow> 'k"

definition set_nonblocking :: "'k posix \<Rightarrow> int \<Rightarrow> 'k \<Rightarrow> bool \<times> 'k" where
  "set_nonblocking px fd k =
     (case px_getfl px fd k of
        (flags, k1) \<Rightarrow>
          if flags < 0 then (False, k1)
          else case px_setfl px fd (flags OR px_o_nonblock px) k1 of (r, k2) \<Rightarrow> (r = 0, k2))"

text \<open>The copy of the path into the address, at most one less than the room there.\<close>

definition make_address :: "'k posix \<Rightarrow> string \<Rightarrow> string" where
  "make_address px path = take (px_sun_path px - 1) path"

section \<open>Opening and closing\<close>

record socket_transport =
  so_listen_fd :: int
  so_conn_fd :: int

definition no_socket :: socket_transport where
  "no_socket = \<lparr>so_listen_fd = - 1, so_conn_fd = - 1\<rparr>"

definition path_refused :: "'k posix \<Rightarrow> string option \<Rightarrow> bool" where
  "path_refused px path = (case path of None \<Rightarrow> True | Some p \<Rightarrow> length p \<ge> px_sun_path px)"

text \<open>Making room for a listening socket at the path; false where the existing file must stay.\<close>

definition clear_path :: "'k posix \<Rightarrow> string \<Rightarrow> 'k \<Rightarrow> bool \<times> 'k" where
  "clear_path px path k =
     (case px_lstat px path k of
        StatFound is_socket is_own \<Rightarrow>
          if \<not> is_socket \<or> \<not> is_own then (False, k)
          else (case px_unlink px path k of (r, k1) \<Rightarrow> (r = 0, k1))
      | StatMissing \<Rightarrow> (True, k)
      | StatError \<Rightarrow> (False, k))"

definition bind_and_listen :: "'k posix \<Rightarrow> int \<Rightarrow> string \<Rightarrow> 'k \<Rightarrow> bool \<times> 'k" where
  "bind_and_listen px fd path k =
     (case px_bind px fd (make_address px path) k of
        (r, k1) \<Rightarrow> if r \<noteq> 0 then (False, k1) else (case px_listen px fd k1 of (r2, k2) \<Rightarrow> (r2 = 0, k2)))"

definition transport_listen_on :: "'k posix \<Rightarrow> string option \<Rightarrow> 'k \<Rightarrow> socket_transport \<times> 'k" where
  "transport_listen_on px path k =
     (case path of
        None \<Rightarrow> (no_socket, k)
      | Some p \<Rightarrow>
          if path_refused px path then (no_socket, k)
          else (case px_socket px k of
                  (fd, k1) \<Rightarrow>
                    if fd < 0 then (no_socket, k1)
                    else (case clear_path px p k1 of
                            (False, k2) \<Rightarrow> (no_socket, px_close px fd k2)
                          | (True, k2) \<Rightarrow>
                              (case bind_and_listen px fd p k2 of
                                 (False, k3) \<Rightarrow> (no_socket, px_close px fd k3)
                               | (True, k3) \<Rightarrow>
                                   (case set_nonblocking px fd k3 of
                                      (False, k4) \<Rightarrow> (no_socket, px_close px fd k4)
                                    | (True, k4) \<Rightarrow> (\<lparr>so_listen_fd = fd, so_conn_fd = - 1\<rparr>, k4))))))"

definition transport_connect_to :: "'k posix \<Rightarrow> string option \<Rightarrow> 'k \<Rightarrow> socket_transport \<times> 'k" where
  "transport_connect_to px path k =
     (case path of
        None \<Rightarrow> (no_socket, k)
      | Some p \<Rightarrow>
          if path_refused px path then (no_socket, k)
          else (case px_socket px k of
                  (fd, k1) \<Rightarrow>
                    if fd < 0 then (no_socket, k1)
                    else (case px_connect px fd (make_address px p) k1 of
                            (r, k2) \<Rightarrow>
                              if r \<noteq> 0 then (no_socket, px_close px fd k2)
                              else (case set_nonblocking px fd k2 of
                                      (False, k3) \<Rightarrow> (no_socket, px_close px fd k3)
                                    | (True, k3) \<Rightarrow> (\<lparr>so_listen_fd = - 1, so_conn_fd = fd\<rparr>, k3)))))"

text \<open>Moving: the new object and what is left of the old one.\<close>

definition transport_move :: "socket_transport \<Rightarrow> socket_transport \<times> socket_transport" where
  "transport_move other = (\<lparr>so_listen_fd = so_listen_fd other, so_conn_fd = so_conn_fd other\<rparr>, other\<lparr>so_listen_fd := - 1, so_conn_fd := - 1\<rparr>)"

definition transport_destroy :: "'k posix \<Rightarrow> socket_transport \<Rightarrow> 'k \<Rightarrow> 'k" where
  "transport_destroy px t k =
     (let k1 = (if so_conn_fd t \<ge> 0 then px_close px (so_conn_fd t) k else k)
      in if so_listen_fd t \<ge> 0 then px_close px (so_listen_fd t) k1 else k1)"

definition transport_valid :: "socket_transport \<Rightarrow> bool" where
  "transport_valid t \<longleftrightarrow> so_listen_fd t \<ge> 0 \<or> so_conn_fd t \<ge> 0"

section \<open>Reading and writing\<close>

definition transport_accept_pending :: "'k posix \<Rightarrow> socket_transport \<times> 'k \<Rightarrow> socket_transport \<times> 'k" where
  "transport_accept_pending px tk =
     (case tk of (t, k) \<Rightarrow>
        if so_listen_fd t < 0 \<or> so_conn_fd t \<ge> 0 then (t, k)
        else (case px_accept px (so_listen_fd t) k of
                (fd, k1) \<Rightarrow>
                  if fd \<ge> 0
                  then (case set_nonblocking px fd k1 of
                          (False, k2) \<Rightarrow> (t, px_close px fd k2)
                        | (True, k2) \<Rightarrow> (t\<lparr>so_conn_fd := fd\<rparr>, k2))
                  else (t, k1)))"

definition transport_connected :: "'k posix \<Rightarrow> socket_transport \<times> 'k \<Rightarrow> bool \<times> socket_transport \<times> 'k" where
  "transport_connected px tk = (case transport_accept_pending px tk of (t, k) \<Rightarrow> (so_conn_fd t \<ge> 0, t, k))"

definition transport_write :: "'k posix \<Rightarrow> u8 list \<Rightarrow> socket_transport \<times> 'k \<Rightarrow> nat \<times> socket_transport \<times> 'k" where
  "transport_write px data tk =
     (case transport_accept_pending px tk of
        (t, k) \<Rightarrow>
          if so_conn_fd t < 0 then (0, t, k)
          else (case px_send px (so_conn_fd t) data k of
                  (written, k1) \<Rightarrow> if written < 0 then (0, t, k1) else (nat written, t, k1)))"

definition transport_read :: "'k posix \<Rightarrow> socket_transport \<times> 'k \<Rightarrow> u8 option \<times> socket_transport \<times> 'k" where
  "transport_read px tk =
     (case transport_accept_pending px tk of
        (t, k) \<Rightarrow>
          if so_conn_fd t < 0 then (None, t, k)
          else (case px_recv px (so_conn_fd t) 1 k of
                  (got, bytes, k1) \<Rightarrow>
                    if got = 1 then (Some (hd bytes), t, k1)
                    else if got = 0 then (None, t\<lparr>so_conn_fd := - 1\<rparr>, px_close px (so_conn_fd t) k1)
                    else (None, t, k1)))"

text \<open>The interface \<open>IUart\<close>.\<close>

definition socket_uart :: "'k posix \<Rightarrow> (socket_transport \<times> 'k) uart_ops" where
  "socket_uart px = \<lparr>uart_write = transport_write px, uart_read = transport_read px\<rparr>"

section \<open>Descriptors\<close>

text \<open>
  What the operating system promises of descriptors, in terms of the set of the open ones: \<open>socket\<close> and
  \<open>accept\<close> fail or open a new one, \<open>close\<close> closes one, and no other call opens or closes any.
\<close>

definition fresh_fd :: "('k \<Rightarrow> int set) \<Rightarrow> 'k \<Rightarrow> int \<times> 'k \<Rightarrow> bool" where
  "fresh_fd opn k r \<longleftrightarrow> (if fst r < 0 then opn (snd r) = opn k else fst r \<notin> opn k \<and> opn (snd r) = insert (fst r) (opn k))"

definition descriptors :: "'k posix \<Rightarrow> ('k \<Rightarrow> int set) \<Rightarrow> bool" where
  "descriptors px opn \<longleftrightarrow>
     (\<forall>k. fresh_fd opn k (px_socket px k)) \<and> (\<forall>fd k. fresh_fd opn k (px_accept px fd k)) \<and>
     (\<forall>fd k. opn (px_close px fd k) = opn k - {fd}) \<and> (\<forall>p k. opn (snd (px_unlink px p k)) = opn k) \<and>
     (\<forall>fd p k. opn (snd (px_bind px fd p k)) = opn k) \<and> (\<forall>fd k. opn (snd (px_listen px fd k)) = opn k) \<and>
     (\<forall>fd p k. opn (snd (px_connect px fd p k)) = opn k) \<and> (\<forall>fd k. opn (snd (px_getfl px fd k)) = opn k) \<and>
     (\<forall>fd f k. opn (snd (px_setfl px fd f k)) = opn k) \<and> (\<forall>fd b k. opn (snd (px_send px fd b k)) = opn k) \<and>
     (\<forall>fd n k. opn (snd (snd (px_recv px fd n k))) = opn k)"

text \<open>The descriptors an object owns, and that they are all it has open beyond those of others.\<close>

definition owned :: "socket_transport \<Rightarrow> int set" where
  "owned t = {fd. fd \<ge> 0 \<and> (fd = so_listen_fd t \<or> fd = so_conn_fd t)}"

definition accounted :: "('k \<Rightarrow> int set) \<Rightarrow> int set \<Rightarrow> socket_transport \<times> 'k \<Rightarrow> bool" where
  "accounted opn base tk \<longleftrightarrow> (case tk of (t, k) \<Rightarrow>
     opn k = base \<union> owned t \<and> base \<inter> owned t = {} \<and> (so_conn_fd t \<ge> 0 \<longrightarrow> so_listen_fd t \<noteq> so_conn_fd t))"

lemma owned_no_socket [simp]: "owned no_socket = {}"
  by (auto simp: owned_def no_socket_def)

lemma accounted_no_socket [simp]: "accounted opn base (no_socket, k) \<longleftrightarrow> opn k = base"
  by (simp add: accounted_def) (simp add: no_socket_def)

lemma descriptors_simps:
  assumes "descriptors px opn"
  shows "opn (px_close px fd k) = opn k - {fd}" "opn (snd (px_unlink px p k)) = opn k" "opn (snd (px_bind px fd p k)) = opn k"
    "opn (snd (px_listen px fd k)) = opn k" "opn (snd (px_connect px fd p k)) = opn k" "opn (snd (px_getfl px fd k)) = opn k"
    "opn (snd (px_setfl px fd f k)) = opn k" "opn (snd (px_send px fd b k)) = opn k" "opn (snd (snd (px_recv px fd n k))) = opn k"
    "opn (snd (set_nonblocking px fd k)) = opn k" "opn (snd (clear_path px p k)) = opn k" "opn (snd (bind_and_listen px fd p k)) = opn k"
  using assms
  by (auto simp: descriptors_def set_nonblocking_def clear_path_def bind_and_listen_def case_prod_beta split: stat_result.split)

lemma fresh_socket:
  "descriptors px opn \<Longrightarrow> fresh_fd opn k (px_socket px k)" "descriptors px opn \<Longrightarrow> fresh_fd opn k (px_accept px fd k)"
  by (simp_all add: descriptors_def)

text \<open>An operation followed by closing or keeping the descriptor.\<close>

lemma accounted_closed: "descriptors px opn \<Longrightarrow> opn k = insert fd base \<Longrightarrow> fd \<notin> base \<Longrightarrow> accounted opn base (no_socket, px_close px fd k)"
  using descriptors_simps(1) by fastforce

lemma owned_one [simp]:
  "0 \<le> fd \<Longrightarrow> owned \<lparr>so_listen_fd = fd, so_conn_fd = - 1\<rparr> = {fd}" "0 \<le> fd \<Longrightarrow> owned \<lparr>so_listen_fd = - 1, so_conn_fd = fd\<rparr> = {fd}"
  by (auto simp: owned_def)

lemma accounted_kept:
  "opn k = insert fd base \<Longrightarrow> fd \<notin> base \<Longrightarrow> 0 \<le> fd \<Longrightarrow> accounted opn base (\<lparr>so_listen_fd = fd, so_conn_fd = - 1\<rparr>, k)"
  "opn k = insert fd base \<Longrightarrow> fd \<notin> base \<Longrightarrow> 0 \<le> fd \<Longrightarrow> accounted opn base (\<lparr>so_listen_fd = - 1, so_conn_fd = fd\<rparr>, k)"
  by (simp_all add: accounted_def)

lemma listen_on_accounted:
  assumes "descriptors px opn"
  shows "accounted opn (opn k) (transport_listen_on px path k)"
proof (cases "path = None \<or> path_refused px path \<or> fst (px_socket px k) < 0")
  case True
  then show ?thesis using fresh_socket(1)[OF assms, of k]
    by (auto simp: transport_listen_on_def fresh_fd_def split: option.split prod.splits)
next
  case False
  then obtain p fd k1 where p: "path = Some p" "px_socket px k = (fd, k1)" "0 \<le> fd" "fd \<notin> opn k" "opn k1 = insert fd (opn k)"
    using fresh_socket(1)[OF assms, of k] by (cases "px_socket px k") (auto simp: fresh_fd_def)
  obtain c k2 where c: "clear_path px p k1 = (c, k2)" by fastforce
  obtain b k3 where b: "bind_and_listen px fd p k2 = (b, k3)" by fastforce
  obtain n k4 where n: "set_nonblocking px fd k3 = (n, k4)" by fastforce
  have o: "opn k2 = insert fd (opn k)" "opn k3 = insert fd (opn k)" "opn k4 = insert fd (opn k)"
    using descriptors_simps(10)[OF assms, of fd k3] descriptors_simps(11)[OF assms, of p k1] descriptors_simps(12)[OF assms, of fd p k2]
      c b n p(5) by simp_all
  have "transport_listen_on px path k = (if \<not> c then (no_socket, px_close px fd k2) else if \<not> b then (no_socket, px_close px fd k3)
      else if \<not> n then (no_socket, px_close px fd k4) else (\<lparr>so_listen_fd = fd, so_conn_fd = - 1\<rparr>, k4))"
    using False p c b n by (simp add: transport_listen_on_def)
  then show ?thesis using accounted_closed[OF assms _ p(4)] accounted_kept(1)[where opn = opn, OF o(3) p(4,3)] o by simp
qed

lemma connect_to_accounted:
  assumes "descriptors px opn"
  shows "accounted opn (opn k) (transport_connect_to px path k)"
proof (cases "path = None \<or> path_refused px path \<or> fst (px_socket px k) < 0")
  case True
  then show ?thesis using fresh_socket(1)[OF assms, of k]
    by (auto simp: transport_connect_to_def fresh_fd_def split: option.split prod.splits)
next
  case False
  then obtain p fd k1 where p: "path = Some p" "px_socket px k = (fd, k1)" "0 \<le> fd" "fd \<notin> opn k" "opn k1 = insert fd (opn k)"
    using fresh_socket(1)[OF assms, of k] by (cases "px_socket px k") (auto simp: fresh_fd_def)
  obtain c k2 where c: "px_connect px fd (make_address px p) k1 = (c, k2)" by fastforce
  obtain n k3 where n: "set_nonblocking px fd k2 = (n, k3)" by fastforce
  have o: "opn k2 = insert fd (opn k)" "opn k3 = insert fd (opn k)"
    using descriptors_simps(10)[OF assms, of fd k2] descriptors_simps(5)[OF assms, of fd "make_address px p" k1] c n p(5) by simp_all
  have "transport_connect_to px path k = (if c \<noteq> 0 then (no_socket, px_close px fd k2)
      else if \<not> n then (no_socket, px_close px fd k3) else (\<lparr>so_listen_fd = - 1, so_conn_fd = fd\<rparr>, k3))"
    using False p c n by (simp add: transport_connect_to_def)
  then show ?thesis using accounted_closed[OF assms _ p(4)] accounted_kept(2)[where opn = opn, OF o(2) p(4,3)] o by simp
qed

lemma accept_accounted:
  assumes "descriptors px opn" "accounted opn base tk"
  shows "accounted opn base (transport_accept_pending px tk)"
proof -
  obtain t k where tk: "tk = (t, k)" by (cases tk)
  obtain fd k1 where f: "px_accept px (so_listen_fd t) k = (fd, k1)" by fastforce
  obtain n k2 where n: "set_nonblocking px fd k1 = (n, k2)" by fastforce
  show ?thesis
  proof (cases "so_listen_fd t < 0 \<or> so_conn_fd t \<ge> 0")
    case True
    then show ?thesis using assms(2) by (auto simp: transport_accept_pending_def tk)
  next
    case False
    have k2: "opn k2 = opn k1" using descriptors_simps(10)[OF assms(1), of fd k1] n by simp
    have fresh: "if fd < 0 then opn k1 = opn k else fd \<notin> opn k \<and> opn k1 = insert fd (opn k)"
      using fresh_socket(2)[OF assms(1), of k "so_listen_fd t"] f by (auto simp: fresh_fd_def split: if_splits)
    have acc: "opn k = base \<union> {so_listen_fd t}" "so_listen_fd t \<notin> base" "owned t = {so_listen_fd t}"
      using assms(2) False by (auto simp: tk accounted_def owned_def)
    have "transport_accept_pending px tk = (if fd < 0 then (t, k1) else if \<not> n then (t, px_close px fd k2) else (t\<lparr>so_conn_fd := fd\<rparr>, k2))"
      using False f n by (simp add: transport_accept_pending_def tk)
    moreover have "accounted opn base (t, k1)" if "fd < 0"
      using that fresh acc False by (simp add: accounted_def)
    moreover have "accounted opn base (t, px_close px fd k2)" if "\<not> fd < 0"
      using that fresh acc False k2 descriptors_simps(1)[OF assms(1)] by (auto simp: accounted_def)
    moreover have "accounted opn base (t\<lparr>so_conn_fd := fd\<rparr>, k2)" if "\<not> fd < 0"
      using that fresh acc False k2 by (auto simp: accounted_def owned_def)
    ultimately show ?thesis by simp
  qed
qed

section \<open>Life of an object\<close>

text \<open>The operations between opening and destruction; moving hands everything to the new object.\<close>

datatype transport_op = OpConnected | OpWrite "u8 list" | OpRead | OpMove

fun transport_step :: "'k posix \<Rightarrow> transport_op \<Rightarrow> socket_transport \<times> 'k \<Rightarrow> socket_transport \<times> 'k" where
  "transport_step px OpConnected tk = snd (transport_connected px tk)"
| "transport_step px (OpWrite data) tk = snd (transport_write px data tk)"
| "transport_step px OpRead tk = snd (transport_read px tk)"
| "transport_step px OpMove (t, k) = (case transport_move t of (new, old) \<Rightarrow> (new, transport_destroy px old k))"

lemma accounted_same: "accounted opn base (t, k) \<Longrightarrow> opn k' = opn k \<Longrightarrow> accounted opn base (t, k')"
  by (simp add: accounted_def)

lemma transport_step_accounted:
  assumes d: "descriptors px opn" and a: "accounted opn base tk"
  shows "accounted opn base (transport_step px op tk)"
proof -
  obtain t k where tk: "transport_accept_pending px tk = (t, k)" by fastforce
  have acc: "accounted opn base (t, k)" using accept_accounted[OF d a] tk by simp
  have "accounted opn base (snd (transport_write px data tk))" for data
    using acc descriptors_simps(8)[OF d, of "so_conn_fd t" data k]
    by (auto simp: transport_write_def tk split: prod.split intro: accounted_same)
  moreover have "accounted opn base (snd (transport_read px tk))"
  proof -
    obtain got bytes k1 where r: "px_recv px (so_conn_fd t) (Suc 0) k = (got, bytes, k1)" by (metis prod.collapse)
    have k1: "opn k1 = opn k" using descriptors_simps(9)[OF d, of "so_conn_fd t" "Suc 0" k] r by simp
    have "accounted opn base (t\<lparr>so_conn_fd := - 1\<rparr>, px_close px (so_conn_fd t) k1)" if "so_conn_fd t \<ge> 0"
      using acc that k1 descriptors_simps(1)[OF d] by (auto simp: accounted_def owned_def)
    then show ?thesis using acc k1 by (auto simp: transport_read_def tk r intro: accounted_same)
  qed
  moreover have "transport_step px OpMove tk = tk"
    by (cases tk) (simp add: transport_move_def transport_destroy_def)
  ultimately show ?thesis using a acc by (cases op) (simp_all add: transport_connected_def tk)
qed

lemma destroy_accounted:
  assumes "descriptors px opn" "accounted opn base (t, k)"
  shows "opn (transport_destroy px t k) = base"
  using assms(2) descriptors_simps(1)[OF assms(1)] by (auto simp: accounted_def owned_def transport_destroy_def Let_def)

lemma transport_steps_accounted:
  "descriptors px opn \<Longrightarrow> accounted opn base tk \<Longrightarrow> accounted opn base (fold (transport_step px) ops tk)"
  by (induction ops arbitrary: tk) (simp_all add: transport_step_accounted)

text \<open>Whether an object listens or connects.\<close>

definition transport_open :: "'k posix \<Rightarrow> bool \<Rightarrow> string option \<Rightarrow> 'k \<Rightarrow> socket_transport \<times> 'k" where
  "transport_open px listens = (if listens then transport_listen_on px else transport_connect_to px)"

definition transport_life :: "'k posix \<Rightarrow> bool \<Rightarrow> string option \<Rightarrow> transport_op list \<Rightarrow> 'k \<Rightarrow> 'k" where
  "transport_life px listens path ops k =
     (case fold (transport_step px) ops (transport_open px listens path k) of (t, k') \<Rightarrow> transport_destroy px t k')"

section \<open>A connected socket as a serial line\<close>

text \<open>
  What the operating system promises of the bytes: the ones waiting at a descriptor, and all that were
  sent. Receiving one byte takes the first one waiting and fails or ends if there is none; sending takes a
  beginning of the data or fails.
\<close>

definition byte_stream :: "'k posix \<Rightarrow> (int \<Rightarrow> 'k \<Rightarrow> u8 list) \<Rightarrow> ('k \<Rightarrow> u8 list) \<Rightarrow> bool" where
  "byte_stream px waiting sent \<longleftrightarrow>
     (\<forall>fd k. case px_recv px fd 1 k of (got, bytes, k') \<Rightarrow>
        sent k' = sent k \<and> (case waiting fd k of [] \<Rightarrow> got \<le> 0 \<and> waiting fd k' = []
                            | b # bs \<Rightarrow> got = 1 \<and> bytes = [b] \<and> waiting fd k' = bs)) \<and>
     (\<forall>fd data k. case px_send px fd data k of (n, k') \<Rightarrow>
        n \<le> int (length data) \<and> sent k' = sent k @ take (nat n) data \<and> waiting fd k' = waiting fd k) \<and>
     (\<forall>fd k. sent (px_close px fd k) = sent k)"

definition line_rx :: "(int \<Rightarrow> 'k \<Rightarrow> u8 list) \<Rightarrow> socket_transport \<times> 'k \<Rightarrow> u8 list" where
  "line_rx waiting tk = (case tk of (t, k) \<Rightarrow> if so_conn_fd t < 0 then [] else waiting (so_conn_fd t) k)"

definition line_tx :: "('k \<Rightarrow> u8 list) \<Rightarrow> socket_transport \<times> 'k \<Rightarrow> u8 list" where
  "line_tx sent tk = sent (snd tk)"

definition connecting :: "socket_transport \<times> 'k \<Rightarrow> bool" where
  "connecting tk \<longleftrightarrow> so_listen_fd (fst tk) < 0"

lemma connecting_accept: "connecting tk \<Longrightarrow> transport_accept_pending px tk = tk"
  by (cases tk) (simp add: connecting_def transport_accept_pending_def)

lemma socket_read:
  assumes "byte_stream px waiting sent" "connecting tk"
  shows "case line_rx waiting tk of
      [] \<Rightarrow> \<exists>tk'. transport_read px tk = (None, tk') \<and> connecting tk' \<and> line_rx waiting tk' = [] \<and> line_tx sent tk' = line_tx sent tk
    | b # bs \<Rightarrow> \<exists>tk'. transport_read px tk = (Some b, tk') \<and> connecting tk' \<and> line_rx waiting tk' = bs \<and> line_tx sent tk' = line_tx sent tk"
proof -
  obtain t k where tk: "tk = (t, k)" by (cases tk)
  obtain got bytes k1 where r: "px_recv px (so_conn_fd t) 1 k = (got, bytes, k1)" by (metis prod.collapse)
  have b: "sent k1 = sent k" "case waiting (so_conn_fd t) k of [] \<Rightarrow> got \<le> 0 \<and> waiting (so_conn_fd t) k1 = []
      | b # bs \<Rightarrow> got = 1 \<and> bytes = [b] \<and> waiting (so_conn_fd t) k1 = bs" "\<And>fd k. sent (px_close px fd k) = sent k"
    using assms(1) r unfolding byte_stream_def by (force split: prod.splits)+
  have read: "transport_read px tk = (if so_conn_fd t < 0 then (None, t, k) else if got = 1 then (Some (hd bytes), t, k1)
      else if got = 0 then (None, t\<lparr>so_conn_fd := - 1\<rparr>, px_close px (so_conn_fd t) k1) else (None, t, k1))"
    unfolding transport_read_def connecting_accept[OF assms(2)] unfolding tk prod.case r by simp
  show ?thesis
  proof (cases "so_conn_fd t < 0")
    case True
    then show ?thesis using assms(2) by (simp add: read[unfolded tk] tk line_rx_def line_tx_def)
  next
    case False
    then show ?thesis
      using assms(2) b by (cases "waiting (so_conn_fd t) k"; cases "got = 0")
        (auto simp: read[unfolded tk] tk line_rx_def line_tx_def connecting_def)
  qed
qed

lemma socket_write:
  assumes "byte_stream px waiting sent" "connecting tk"
  shows "\<exists>n tk'. transport_write px data tk = (n, tk') \<and> connecting tk' \<and> n \<le> length data \<and>
    line_tx sent tk' = line_tx sent tk @ take n data \<and> line_rx waiting tk' = line_rx waiting tk"
proof -
  obtain t k where tk: "tk = (t, k)" by (cases tk)
  obtain n k1 where w: "px_send px (so_conn_fd t) data k = (n, k1)" by fastforce
  have b: "n \<le> int (length data)" "sent k1 = sent k @ take (nat n) data" "waiting (so_conn_fd t) k1 = waiting (so_conn_fd t) k"
    using assms(1) w unfolding byte_stream_def by (force split: prod.splits)+
  have "transport_write px data tk = (if so_conn_fd t < 0 then (0, t, k) else if n < 0 then (0, t, k1) else (nat n, t, k1))"
    unfolding transport_write_def connecting_accept[OF assms(2)] unfolding tk prod.case w by simp
  then show ?thesis using assms(2) b by (auto simp: tk line_rx_def line_tx_def connecting_def)
qed

lemma socket_uart_contract:
  assumes "byte_stream px waiting sent"
  shows "uart (socket_uart px) (line_rx waiting) (line_tx sent) connecting"
proof unfold_locales
  fix u :: "socket_transport \<times> 'a" assume u: "connecting u"
  show "line_rx waiting u = [] \<Longrightarrow> \<exists>u'. uart_read (socket_uart px) u = (None, u') \<and> connecting u' \<and>
      line_rx waiting u' = [] \<and> line_tx sent u' = line_tx sent u"
    using socket_read[OF assms u] by (simp add: socket_uart_def)
  show "line_rx waiting u = b # bs \<Longrightarrow> \<exists>u'. uart_read (socket_uart px) u = (Some b, u') \<and> connecting u' \<and>
      line_rx waiting u' = bs \<and> line_tx sent u' = line_tx sent u" for b bs
    using socket_read[OF assms u] by (simp add: socket_uart_def)
  show "\<exists>n u'. uart_write (socket_uart px) bs u = (n, u') \<and> connecting u' \<and> n \<le> length bs \<and>
      line_tx sent u' = line_tx sent u @ take n bs \<and> line_rx waiting u' = line_rx waiting u" for bs
    using socket_write[OF assms u] by (simp add: socket_uart_def)
qed

lemma connecting_connected: "connecting tk \<Longrightarrow> connecting (snd (transport_connected px tk))"
  by (simp add: transport_connected_def connecting_accept case_prod_beta)

lemma connect_to_connecting: "connecting (transport_connect_to px path k)"
  by (simp add: transport_connect_to_def connecting_def no_socket_def split: option.split prod.split bool.split)

section \<open>Files that must stay\<close>

text \<open>
  A path that is not a socket of the user's own is never removed: what \<open>listen_on\<close> does there does not
  depend on \<open>unlink\<close> at all, and nothing listens in the end.
\<close>

lemma foreign_path_untouched:
  assumes "\<And>k. px_lstat px path k = StatFound s own" "\<not> s \<or> \<not> own"
  shows "transport_listen_on (px\<lparr>px_unlink := f\<rparr>) (Some path) k = transport_listen_on px (Some path) k"
    "fst (transport_listen_on px (Some path) k) = no_socket"
  using assms(2)
  by (auto simp: transport_listen_on_def path_refused_def clear_path_def assms(1) split: prod.split)

section \<open>Property\<close>

text \<open>A small operating system that opens descriptors and closes them, for the example.\<close>

definition demo_posix :: "int list posix" where
  "demo_posix = \<lparr>px_sun_path = 108, px_o_nonblock = 0x800,
     px_socket = (\<lambda>k. (foldr max k 0 + 1, (foldr max k 0 + 1) # k)), px_lstat = (\<lambda>_ _. StatMissing),
     px_unlink = (\<lambda>_ k. (0, k)), px_bind = (\<lambda>_ _ k. (0, k)), px_listen = (\<lambda>_ k. (0, k)), px_connect = (\<lambda>_ _ k. (0, k)),
     px_accept = (\<lambda>_ k. (foldr max k 0 + 1, (foldr max k 0 + 1) # k)), px_getfl = (\<lambda>_ k. (2, k)), px_setfl = (\<lambda>_ _ k. (0, k)),
     px_send = (\<lambda>_ b k. (int (length b), k)), px_recv = (\<lambda>_ _ k. (0, [], k)), px_close = (\<lambda>fd k. removeAll fd k)\<rparr>"

lemma foldr_max_ge: "x \<in> set k \<Longrightarrow> x \<le> foldr max k 0" "0 \<le> foldr max k 0" for x :: int
  by (induction k) auto

lemma demo_descriptors: "descriptors demo_posix set"
proof -
  have "\<not> foldr max k 0 + 1 < 0" "foldr max k 0 + 1 \<notin> set k" for k :: "int list"
    using foldr_max_ge(1)[of _ k] foldr_max_ge(2)[of k] by force+
  then show ?thesis by (auto simp: descriptors_def demo_posix_def fresh_fd_def)
qed



end
