(* ===== verification/App_Process.thy ===== *)
theory App_Process
  imports Mcu_Client Parse_Number Socket_Transport
begin

text \<open>
  \<open>src/apps/culina_app_main.cpp\<close>: the application processor as a process of its own, with the safe-stop
  sequence that a \<open>stop\<close>, a \<open>quit\<close> or the end of the input starts. The serial line, whether it is
  connected, what arrives on it between two iterations and what the terminal delivers are arguments; what
  is printed is not modelled. Shown here: the process reports success only after the MCU has acknowledged
  heater-off and then motor-stop, and once it has been asked to quit it ends within a second, whatever the
  MCU does.
\<close>

section \<open>Safe stop\<close>

datatype stop_phase = StopIdle | StopHeater | StopMotor

record safe_stop =
  ss_phase :: stop_phase
  ss_request_sent :: bool
  ss_started_ms :: millis

definition kDeadlineMs :: millis where [limit_defs]: "kDeadlineMs = 1000"

definition safe_stop_init :: safe_stop where
  "safe_stop_init = \<lparr>ss_phase = StopIdle, ss_request_sent = False, ss_started_ms = 0\<rparr>"

definition safe_stop_begin :: "millis \<Rightarrow> safe_stop \<Rightarrow> safe_stop" where
  "safe_stop_begin now s = s\<lparr>ss_phase := StopHeater, ss_request_sent := False, ss_started_ms := now\<rparr>"

definition safe_stop_active :: "safe_stop \<Rightarrow> bool" where
  "safe_stop_active s \<longleftrightarrow> ss_phase s \<noteq> StopIdle"

definition safe_stop_expired :: "millis \<Rightarrow> safe_stop \<Rightarrow> bool" where
  "safe_stop_expired now s \<longleftrightarrow> safe_stop_active s \<and> now - ss_started_ms s \<ge> kDeadlineMs"

text \<open>\<open>service\<close>: taking note of a response, which may complete the stop, and then the requests.\<close>

definition safe_stop_note :: "frame option \<Rightarrow> safe_stop \<Rightarrow> bool \<times> safe_stop" where
  "safe_stop_note response s =
     (case response of
        Some f \<Rightarrow>
          if f_type f = FtResponse \<and> ss_phase s = StopHeater \<and> f_msg f = HeaterOff
          then (False, s\<lparr>ss_phase := StopMotor, ss_request_sent := False\<rparr>)
          else if f_type f = FtResponse \<and> ss_phase s = StopMotor \<and> f_msg f = MotorStop
          then (True, s\<lparr>ss_phase := StopIdle, ss_request_sent := False\<rparr>)
          else (False, s)
      | None \<Rightarrow> (False, s))"

definition safe_stop_send ::
  "'u uart_ops \<Rightarrow> millis \<Rightarrow> safe_stop \<Rightarrow> 'u mcu_client \<Rightarrow> safe_stop \<times> 'u mcu_client" where
  "safe_stop_send io now s c =
     (let (s1, c1) = (if cl_last_command_status c \<noteq> Ok then (s\<lparr>ss_request_sent := False\<rparr>, clear_command_status c) else (s, c))
      in if \<not> ss_request_sent s1 \<and> \<not> cl_waiting c1
         then case (if ss_phase s1 = StopHeater then client_heater_off io now c1 else client_motor_stop io now c1) of
                (st, c2) \<Rightarrow> (s1\<lparr>ss_request_sent := (st = Ok)\<rparr>, c2)
         else (s1, c1))"

definition safe_stop_service ::
  "'u uart_ops \<Rightarrow> millis \<Rightarrow> frame option \<Rightarrow> safe_stop \<Rightarrow> 'u mcu_client \<Rightarrow> bool \<times> safe_stop \<times> 'u mcu_client" where
  "safe_stop_service io now response s c =
     (case safe_stop_note response s of
        (True, s1) \<Rightarrow> (True, s1, c)
      | (False, s1) \<Rightarrow> (False, safe_stop_send io now s1 c))"

section \<open>The main loop\<close>

record 'u app_process =
  ap_client :: "'u mcu_client"
  ap_now_us :: micros
  ap_stop :: safe_stop
  ap_quit_after_stop :: bool

definition app_process_init :: "'u \<Rightarrow> 'u app_process" where
  "app_process_init u = \<lparr>ap_client = client_init u, ap_now_us = 0, ap_stop = safe_stop_init, ap_quit_after_stop = False\<rparr>"

text \<open>What waiting for terminal input ends with, the read of a line included.\<close>

datatype terminal = WaitInterrupted | WaitFailed | NoInput | EndOfInput | InputLine string

definition begin_stop :: "millis \<Rightarrow> 'u app_process \<Rightarrow> 'u app_process" where
  "begin_stop now p = p\<lparr>ap_stop := safe_stop_begin now (ap_stop p)\<rparr>"

text \<open>The commands that address the client.\<close>

definition client_command :: "'u uart_ops \<Rightarrow> millis \<Rightarrow> string \<Rightarrow> 'u mcu_client \<Rightarrow> 'u mcu_client" where
  "client_command io now line c =
     (if line = ''status'' then c
      else if take 9 line = ''set-temp '' then
        (case app_parse_float (Some (c_str (drop 9 line))) 0 160 of
           None \<Rightarrow> c
         | Some celsius \<Rightarrow>
             if celsius > 0 \<and> celsius < 37 then c
             else if celsius = 0 then snd (client_heater_off io now c)
             else snd (client_set_heater io now (from_celsius celsius) c))
      else if take 10 line = ''set-speed '' then
        (case app_parse_u32 (Some (c_str (drop 10 line))) 10 of
           None \<Rightarrow> c
         | Some dial \<Rightarrow> snd (client_set_motor io now (ucast (dial * 1070)) kRampNormal c))
      else if line = ''tare'' then snd (client_tare io now c)
      else c)"

definition app_input :: "'u uart_ops \<Rightarrow> millis \<Rightarrow> terminal \<Rightarrow> 'u app_process \<Rightarrow> 'u app_process" where
  "app_input io now ev p =
     (case ev of
        WaitInterrupted \<Rightarrow> p
      | WaitFailed \<Rightarrow> (begin_stop now p)\<lparr>ap_quit_after_stop := True\<rparr>
      | NoInput \<Rightarrow> p
      | EndOfInput \<Rightarrow> (begin_stop now p)\<lparr>ap_quit_after_stop := True\<rparr>
      | InputLine line \<Rightarrow>
          if line = ''quit'' \<or> line = ''exit'' then (begin_stop now p)\<lparr>ap_quit_after_stop := True\<rparr>
          else if safe_stop_active (ap_stop p) then p
          else if line = ''stop'' then begin_stop now p
          else p\<lparr>ap_client := client_command io now line (ap_client p)\<rparr>)"

definition response_is :: "frame_type \<Rightarrow> frame option \<Rightarrow> bool" where
  "response_is ft response = (case response of Some f \<Rightarrow> f_type f = ft | None \<Rightarrow> False)"

text \<open>The part of an iteration that deals with the response; an exit status ends the process.\<close>

definition app_respond :: "'u uart_ops \<Rightarrow> millis \<Rightarrow> frame option \<Rightarrow> 'u app_process \<Rightarrow> nat option \<times> 'u app_process" where
  "app_respond io now response p =
     (if safe_stop_active (ap_stop p)
      then case safe_stop_service io now response (ap_stop p) (ap_client p) of
             (stopped, s, c) \<Rightarrow>
               (if stopped then (if ap_quit_after_stop p then Some 0 else None)
                else if safe_stop_expired now s then Some 1 else None, p\<lparr>ap_stop := s, ap_client := c\<rparr>)
      else if response_is FtResponse response then (None, p)
      else if response_is FtNack response \<or> cl_last_command_status (ap_client p) \<noteq> Ok
      then (None, p\<lparr>ap_client := clear_command_status (ap_client p)\<rparr>)
      else (None, p))"

text \<open>One iteration: the exit status if the process ends, the response taken, and the state.\<close>

definition app_iteration ::
  "'u uart_ops \<Rightarrow> ('u \<Rightarrow> bool \<times> 'u) \<Rightarrow> terminal \<Rightarrow> 'u app_process \<Rightarrow> (nat option \<times> frame option \<times> 'u app_process) option" where
  "app_iteration io link_up ev p =
     (let us = ap_now_us p + 1000; now = to_millis us
      in map_option (\<lambda>c0.
           case link_up (cl_uart c0) of
             (up, u) \<Rightarrow>
               (let p1 = p\<lparr>ap_now_us := us, ap_client := c0\<lparr>cl_uart := u\<rparr>\<rparr>
                in if \<not> up then (Some 1, None, p1)
                   else case take_response (ap_client p1) of
                          (response, c) \<Rightarrow>
                            (case app_respond io now response (p1\<lparr>ap_client := c\<rparr>) of
                               (Some code, p2) \<Rightarrow> (Some code, response, p2)
                             | (None, p2) \<Rightarrow> (None, response, if ap_quit_after_stop p2 then p2 else app_input io now ev p2))))
           (client_poll io now (ap_client p)))"

text \<open>
  The loop over a list of rounds: what happens on the line before an iteration, and what the terminal
  delivers in it. The result has the exit status, if the process ended, and the responses taken.
\<close>

fun app_run ::
  "'u uart_ops \<Rightarrow> ('u \<Rightarrow> bool \<times> 'u) \<Rightarrow> (('u \<Rightarrow> 'u) \<times> terminal) list \<Rightarrow> 'u app_process \<Rightarrow>
   (nat option \<times> frame option list \<times> 'u app_process) option" where
  "app_run io link_up [] p = Some (None, [], p)"
| "app_run io link_up ((arrive, ev) # rounds) p =
     Option.bind (app_iteration io link_up ev (p\<lparr>ap_client := (ap_client p)\<lparr>cl_uart := arrive (cl_uart (ap_client p))\<rparr>\<rparr>))
       (\<lambda>(code, response, p1).
          case code of
            Some _ \<Rightarrow> Some (code, [response], p1)
          | None \<Rightarrow> map_option (\<lambda>(code, responses, p2). (code, response # responses, p2)) (app_run io link_up rounds p1))"

text \<open>The arguments after the name of the program; \<open>None\<close> is the usage error.\<close>

fun app_socket_path :: "string \<Rightarrow> string list \<Rightarrow> string option" where
  "app_socket_path path [] = Some path"
| "app_socket_path path [a] = None"
| "app_socket_path path (a # b # args) = (if a = ''--socket'' then app_socket_path b args else None)"

definition app_main ::
  "'u uart_ops \<Rightarrow> ('u \<Rightarrow> bool \<times> 'u) \<Rightarrow> (string \<Rightarrow> 'u) \<Rightarrow> string list \<Rightarrow> (('u \<Rightarrow> 'u) \<times> terminal) list \<Rightarrow>
   (nat option \<times> frame option list) option" where
  "app_main io link_up connect_to args rounds =
     (case app_socket_path ''/tmp/c1link.sock'' args of
        None \<Rightarrow> Some (Some 2, [])
      | Some path \<Rightarrow>
          (case link_up (connect_to path) of
             (up, u) \<Rightarrow>
               if \<not> up then Some (Some 1, [])
               else map_option (\<lambda>(code, responses, _). (code, responses)) (app_run io link_up rounds (app_process_init u))))"

section \<open>Successful exits\<close>

definition acknowledges :: "msg_id \<Rightarrow> frame option \<Rightarrow> bool" where
  "acknowledges msg response = (case response of Some f \<Rightarrow> f_type f = FtResponse \<and> f_msg f = msg | None \<Rightarrow> False)"

text \<open>The phase after an iteration in terms of its response; what the terminal delivers can only begin anew.\<close>

lemma safe_stop_send_phase [simp]:
  "ss_phase (fst (safe_stop_send io now s c)) = ss_phase s" "ss_started_ms (fst (safe_stop_send io now s c)) = ss_started_ms s"
  by (simp_all add: safe_stop_send_def Let_def split: prod.split)

lemma app_respond_phase:
  assumes "app_respond io now response p = (code, p')"
  shows "code = Some 0 \<longrightarrow> ss_phase (ap_stop p) = StopMotor \<and> acknowledges MotorStop response"
    "ss_phase (ap_stop p') = StopMotor \<longrightarrow> ss_phase (ap_stop p) = StopMotor \<or> acknowledges HeaterOff response"
    "ap_quit_after_stop p' = ap_quit_after_stop p"
  using assms
  by (auto simp: app_respond_def safe_stop_service_def safe_stop_note_def acknowledges_def safe_stop_expired_def
      dest!: sym[of "safe_stop_send _ _ _ _"] arg_cong[of "safe_stop_send _ _ _ _" _ "\<lambda>x. ss_phase (fst x)"]
      split: if_splits option.splits prod.splits)

lemma app_input_phase: "ss_phase (ap_stop (app_input io now ev p)) = StopMotor \<longrightarrow> ss_phase (ap_stop p) = StopMotor"
  by (simp add: app_input_def begin_stop_def safe_stop_begin_def split: terminal.split)

lemma app_iteration_phase:
  assumes "app_iteration io link_up ev p = Some (code, response, p')"
  shows "code = Some 0 \<longrightarrow> ss_phase (ap_stop p) = StopMotor \<and> acknowledges MotorStop response"
    "code = None \<longrightarrow> ss_phase (ap_stop p') = StopMotor \<longrightarrow> ss_phase (ap_stop p) = StopMotor \<or> acknowledges HeaterOff response"
proof -
  let ?us = "ap_now_us p + 1000"
  obtain c0 where c0: "client_poll io (to_millis ?us) (ap_client p) = Some c0"
    using assms by (cases "client_poll io (to_millis ?us) (ap_client p)") (auto simp: app_iteration_def Let_def)
  obtain up u where u: "link_up (cl_uart c0) = (up, u)" by fastforce
  obtain r c where r: "take_response (c0\<lparr>cl_uart := u\<rparr>) = (r, c)" by fastforce
  let ?p = "p\<lparr>ap_now_us := ?us, ap_client := c\<rparr>"
  obtain code2 p2 where a: "app_respond io (to_millis ?us) r ?p = (code2, p2)" by fastforce
  have it: "(if \<not> up then (Some 1, None, p\<lparr>ap_now_us := ?us, ap_client := c0\<lparr>cl_uart := u\<rparr>\<rparr>)
      else (code2, r, if code2 \<noteq> None \<or> ap_quit_after_stop p2 then p2 else app_input io (to_millis ?us) ev p2)) = (code, response, p')"
    using assms c0 u r a by (cases code2) (simp_all add: app_iteration_def Let_def split: if_splits)
  note ph = app_respond_phase(1,2)[OF a, simplified]
  show "code = Some 0 \<longrightarrow> ss_phase (ap_stop p) = StopMotor \<and> acknowledges MotorStop response"
    using it ph(1) by (cases up) auto
  show "code = None \<longrightarrow> ss_phase (ap_stop p') = StopMotor \<longrightarrow> ss_phase (ap_stop p) = StopMotor \<or> acknowledges HeaterOff response"
    using it ph(2) app_input_phase[of io "to_millis ?us" ev p2] by (cases up) (auto split: if_splits)
qed

lemma app_run_acknowledged:
  assumes "app_run io link_up rounds p = Some (Some 0, responses, p')"
  shows "\<exists>j < length responses. acknowledges MotorStop (responses ! j) \<and>
    (ss_phase (ap_stop p) \<noteq> StopMotor \<longrightarrow> (\<exists>i < j. acknowledges HeaterOff (responses ! i)))"
  using assms
proof (induction rounds arbitrary: p responses)
  case (Cons r rounds)
  obtain arrive ev where r: "r = (arrive, ev)" by (cases r)
  let ?p = "p\<lparr>ap_client := (ap_client p)\<lparr>cl_uart := arrive (cl_uart (ap_client p))\<rparr>\<rparr>"
  obtain code response p1 where it: "app_iteration io link_up ev ?p = Some (code, response, p1)"
    using Cons.prems by (cases "app_iteration io link_up ev ?p") (auto simp: r)
  note ph = app_iteration_phase[OF it, simplified]
  show ?case
  proof (cases code)
    case (Some n)
    then show ?thesis using Cons.prems it ph(1) by (auto simp: r)
  next
    case None
    then obtain rest where rest: "app_run io link_up rounds p1 = Some (Some 0, rest, p')" "responses = response # rest"
      using Cons.prems it by (auto simp: r)
    from Cons.IH[OF rest(1)] obtain j where j: "j < length rest" "acknowledges MotorStop (rest ! j)"
      "ss_phase (ap_stop p1) \<noteq> StopMotor \<longrightarrow> (\<exists>i < j. acknowledges HeaterOff (rest ! i))" by blast
    show ?thesis
    proof (cases "ss_phase (ap_stop p1) = StopMotor")
      case True
      then show ?thesis using j ph(2) None rest(2) by (intro exI[of _ "Suc j"]) auto
    next
      case False
      then obtain i where "i < j" "acknowledges HeaterOff (rest ! i)" using j(3) by blast
      then show ?thesis using j rest(2) by (intro exI[of _ "Suc j"]) (auto intro!: exI[of _ "Suc i"])
    qed
  qed
qed simp

section \<open>Quitting in time\<close>

text \<open>What the loop keeps: the client's invariant, and the line's, whatever arrives on it.\<close>

definition app_inv :: "('u \<Rightarrow> bool) \<Rightarrow> 'u app_process \<Rightarrow> bool" where
  "app_inv uart_inv p \<longleftrightarrow> client_inv (ap_client p) \<and> uart_inv (cl_uart (ap_client p))"

definition line_keeps :: "('u \<Rightarrow> bool) \<Rightarrow> ('u \<Rightarrow> bool \<times> 'u) \<Rightarrow> (('u \<Rightarrow> 'u) \<times> terminal) list \<Rightarrow> bool" where
  "line_keeps uart_inv link_up rounds \<longleftrightarrow> (\<forall>u. uart_inv u \<longrightarrow> uart_inv (snd (link_up u))) \<and>
     (\<forall>(arrive, _) \<in> set rounds. \<forall>u. uart_inv u \<longrightarrow> uart_inv (arrive u))"

lemma client_inv_link_only:
  "client_inv (c\<lparr>cl_uart := u\<rparr>) = client_inv c" "client_inv (clear_command_status c) = client_inv c"
  "cl_uart (clear_command_status c) = cl_uart c" "client_inv c \<Longrightarrow> client_inv (snd (take_response c))"
  "cl_uart (snd (take_response c)) = cl_uart c"
  by (simp_all add: client_inv_def clear_command_status_def take_response_def)

context uart
begin

lemma poll_returns:
  assumes "client_inv c" "uart_inv (cl_uart c)"
  shows "\<exists>c'. client_poll io now c = Some c' \<and> client_inv c' \<and> uart_inv (cl_uart c')"
proof -
  obtain c1 where c1: "client_pump io now (client_timeouts io now c) = Some c1" "client_inv c1" "uart_inv (cl_uart c1)"
    using client_pump_rule[of "client_timeouts io now c" "\<lambda>_. True" now] client_timeouts_spec[OF assms, of now] by auto
  then show ?thesis using client_heartbeat_spec[OF c1(2,3), of now] by (simp add: client_poll_def)
qed

lemma safe_stop_send_inv:
  assumes "client_inv c" "uart_inv (cl_uart c)"
  shows "client_inv (snd (safe_stop_send io now s c)) \<and> uart_inv (cl_uart (snd (safe_stop_send io now s c)))"
  using assms client_request_spec
  by (simp add: safe_stop_send_def Let_def client_heater_off_def client_motor_stop_def client_inv_link_only case_prod_beta)

lemma app_respond_stopping:
  assumes "app_inv uart_inv p" "ap_quit_after_stop p" "safe_stop_active (ap_stop p)"
  shows "\<exists>code p'. app_respond io now response p = (code, p') \<and> app_inv uart_inv p' \<and> ap_quit_after_stop p' \<and>
    ap_now_us p' = ap_now_us p \<and> (\<forall>n. code = Some n \<longrightarrow> n \<le> 1) \<and>
    (code = None \<longrightarrow> safe_stop_active (ap_stop p') \<and> ss_started_ms (ap_stop p') = ss_started_ms (ap_stop p) \<and>
       now - ss_started_ms (ap_stop p) < kDeadlineMs)"
proof -
  have c: "client_inv (ap_client p)" "uart_inv (cl_uart (ap_client p))" using assms(1) by (simp_all add: app_inv_def)
  obtain stopped s1 where n: "safe_stop_note response (ap_stop p) = (stopped, s1)" by fastforce
  have s1: "\<not> stopped \<Longrightarrow> safe_stop_active s1" "ss_started_ms s1 = ss_started_ms (ap_stop p)"
    using n assms(3) by (auto simp: safe_stop_note_def safe_stop_active_def split: option.splits if_splits)
  obtain s2 c2 where s2: "safe_stop_send io now s1 (ap_client p) = (s2, c2)" by fastforce
  then have "client_inv c2" "uart_inv (cl_uart c2)" using safe_stop_send_inv[OF c, of now s1] by simp_all
  moreover have "ss_phase s2 = ss_phase s1" "ss_started_ms s2 = ss_started_ms s1"
    using safe_stop_send_phase[of io now s1 "ap_client p"] s2 by simp_all
  ultimately show ?thesis
    using assms(2,3) n s1 s2 c
    by (cases stopped) (simp_all add: app_respond_def safe_stop_service_def safe_stop_expired_def safe_stop_active_def app_inv_def not_le)
qed

text \<open>An iteration of a process that waits for its stop to complete.\<close>

lemma app_iteration_stopping:
  assumes "app_inv uart_inv p" "\<forall>u. uart_inv u \<longrightarrow> uart_inv (snd (link_up u))" "ap_quit_after_stop p" "safe_stop_active (ap_stop p)"
  shows "\<exists>code response p1. app_iteration io link_up ev p = Some (code, response, p1) \<and> (\<forall>n. code = Some n \<longrightarrow> n \<le> 1) \<and>
    (code = None \<longrightarrow> app_inv uart_inv p1 \<and> ap_quit_after_stop p1 \<and> safe_stop_active (ap_stop p1) \<and>
       ss_started_ms (ap_stop p1) = ss_started_ms (ap_stop p) \<and> ap_now_us p1 = ap_now_us p + 1000 \<and>
       to_millis (ap_now_us p1) - ss_started_ms (ap_stop p1) < kDeadlineMs)"
proof -
  let ?us = "ap_now_us p + 1000"
  obtain c0 where c0: "client_poll io (to_millis ?us) (ap_client p) = Some c0" "client_inv c0" "uart_inv (cl_uart c0)"
    using poll_returns assms(1) by (auto simp: app_inv_def)
  obtain up u where u: "link_up (cl_uart c0) = (up, u)" "uart_inv u" using assms(2) c0(3) by (metis prod.collapse)
  obtain response c where r: "take_response (c0\<lparr>cl_uart := u\<rparr>) = (response, c)" by fastforce
  let ?p = "p\<lparr>ap_now_us := ?us, ap_client := c\<rparr>"
  have c: "app_inv uart_inv ?p"
    using client_inv_link_only(4,5)[of "c0\<lparr>cl_uart := u\<rparr>"] r c0(2) u(2) by (auto simp: client_inv_link_only(1) app_inv_def)
  obtain code p' where a: "app_respond io (to_millis ?us) response ?p = (code, p')"
    "app_inv uart_inv p'" "ap_quit_after_stop p'" "ap_now_us p' = ?us" "\<forall>n. code = Some n \<longrightarrow> n \<le> 1"
    "code = None \<longrightarrow> safe_stop_active (ap_stop p') \<and> ss_started_ms (ap_stop p') = ss_started_ms (ap_stop p) \<and>
       to_millis ?us - ss_started_ms (ap_stop p) < kDeadlineMs"
    using app_respond_stopping[OF c, of "to_millis ?us" response] assms(3,4) by auto
  show ?thesis
    using c0(1) u(1) r a by (cases up; cases code) (simp_all add: app_iteration_def Let_def)
qed

lemma app_run_stops:
  assumes "app_inv uart_inv p" "line_keeps uart_inv link_up rounds" "ap_quit_after_stop p" "safe_stop_active (ap_stop p)"
    "to_millis (ap_now_us p) - ss_started_ms (ap_stop p) = of_nat k" "k < 1000" "1000 \<le> k + length rounds"
    "unat (ap_now_us p) + (1000 - k) * 1000 < 2 ^ 64"
  shows "\<exists>code responses p'. app_run io link_up rounds p = Some (Some code, responses, p') \<and> code \<le> 1 \<and> length responses \<le> 1000 - k"
  using assms
proof (induction rounds arbitrary: p k)
  case (Cons r rounds)
  obtain arrive ev where r: "r = (arrive, ev)" by (cases r)
  let ?p = "p\<lparr>ap_client := (ap_client p)\<lparr>cl_uart := arrive (cl_uart (ap_client p))\<rparr>\<rparr>"
  have p: "app_inv uart_inv ?p" "\<forall>u. uart_inv u \<longrightarrow> uart_inv (snd (link_up u))" "ap_quit_after_stop ?p" "safe_stop_active (ap_stop ?p)"
    using Cons.prems(1-4) by (auto simp: app_inv_def line_keeps_def r client_inv_link_only)
  obtain code response p1 where it: "app_iteration io link_up ev ?p = Some (code, response, p1)" "\<forall>n. code = Some n \<longrightarrow> n \<le> 1"
    "code = None \<longrightarrow> app_inv uart_inv p1 \<and> ap_quit_after_stop p1 \<and> safe_stop_active (ap_stop p1) \<and>
         ss_started_ms (ap_stop p1) = ss_started_ms (ap_stop p) \<and> ap_now_us p1 = ap_now_us p + 1000 \<and>
         to_millis (ap_now_us p1) - ss_started_ms (ap_stop p1) < kDeadlineMs"
    using app_iteration_stopping[OF p, of ev] by auto
  show ?case
  proof (cases code)
    case (Some n)
    then show ?thesis using it Cons.prems(6) by (simp add: r)
  next
    case None
    have "unat (ap_now_us p) + 1000 < 2 ^ 64" using Cons.prems(6,8) by simp
    then have ms: "to_millis (ap_now_us p + 1000) = to_millis (ap_now_us p) + 1"
      "unat (ap_now_us p + 1000) = unat (ap_now_us p) + 1000"
      using to_millis_advance by (simp_all add: unat_word_ariths)
    have p1: "ap_now_us p1 = ap_now_us p + 1000" "ss_started_ms (ap_stop p1) = ss_started_ms (ap_stop p)" using it(3) None by simp_all
    have "to_millis (ap_now_us p1) - ss_started_ms (ap_stop p1) = to_millis (ap_now_us p) + 1 - ss_started_ms (ap_stop p)"
      by (simp only: p1 ms)
    also have "\<dots> = to_millis (ap_now_us p) - ss_started_ms (ap_stop p) + 1" by simp
    also have "\<dots> = of_nat (Suc k)" unfolding Cons.prems(5) by simp
    finally have us: "to_millis (ap_now_us p1) - ss_started_ms (ap_stop p1) = of_nat (Suc k)"
      "unat (ap_now_us p1) = unat (ap_now_us p) + 1000"
      using ms(2) p1(1) by simp_all
    have "Suc k < 1000"
    proof (rule ccontr)
      assume "\<not> Suc k < 1000"
      then have "Suc k = 1000" using Cons.prems(6) by simp
      then have "to_millis (ap_now_us p1) - ss_started_ms (ap_stop p1) = kDeadlineMs" using us(1) by (simp add: limit_defs)
      moreover have "to_millis (ap_now_us p1) - ss_started_ms (ap_stop p1) < kDeadlineMs" using it(3) None by blast
      ultimately show False by (simp only: less_irrefl)
    qed
    moreover have "line_keeps uart_inv link_up rounds" using Cons.prems(2) by (simp add: line_keeps_def)
    moreover have "1000 - k = Suc (1000 - Suc k)" using Cons.prems(6) by simp
    then have "unat (ap_now_us p1) + (1000 - Suc k) * 1000 < 2 ^ 64" using Cons.prems(8) us(2) by simp
    ultimately obtain c rs p' where "app_run io link_up rounds p1 = Some (Some c, rs, p')" "c \<le> 1" "length rs \<le> 1000 - Suc k"
      using Cons.IH[of p1 "Suc k"] it(3) None us(1) Cons.prems(7) by auto
    then show ?thesis using it(1) None \<open>Suc k < 1000\<close> by (simp add: r)
  qed
qed simp

text \<open>The iteration in which the process is asked to quit.\<close>

lemma app_respond_running:
  assumes "app_inv uart_inv p"
  shows "\<exists>code p'. app_respond io now response p = (code, p') \<and> app_inv uart_inv p' \<and>
    ap_quit_after_stop p' = ap_quit_after_stop p \<and> ap_now_us p' = ap_now_us p \<and> (\<forall>n. code = Some n \<longrightarrow> n \<le> 1)"
proof (cases "safe_stop_active (ap_stop p)")
  case True
  have c: "client_inv (ap_client p)" "uart_inv (cl_uart (ap_client p))" using assms by (simp_all add: app_inv_def)
  obtain stopped s1 where n: "safe_stop_note response (ap_stop p) = (stopped, s1)" by fastforce
  obtain s2 c2 where s2: "safe_stop_send io now s1 (ap_client p) = (s2, c2)" by fastforce
  then have "client_inv c2" "uart_inv (cl_uart c2)" using safe_stop_send_inv[OF c, of now s1] by simp_all
  then show ?thesis using True n s2 c by (cases stopped) (simp_all add: app_respond_def safe_stop_service_def app_inv_def)
next
  case False
  then show ?thesis using assms by (simp add: app_respond_def app_inv_def client_inv_link_only)
qed

lemma app_iteration_quitting:
  assumes "app_inv uart_inv p" "\<forall>u. uart_inv u \<longrightarrow> uart_inv (snd (link_up u))" "\<not> ap_quit_after_stop p"
    "ev = EndOfInput \<or> ev = WaitFailed \<or> ev = InputLine ''quit'' \<or> ev = InputLine ''exit''"
  shows "\<exists>code response p1. app_iteration io link_up ev p = Some (code, response, p1) \<and> (\<forall>n. code = Some n \<longrightarrow> n \<le> 1) \<and>
    (code = None \<longrightarrow> app_inv uart_inv p1 \<and> ap_quit_after_stop p1 \<and> safe_stop_active (ap_stop p1) \<and>
       ap_now_us p1 = ap_now_us p + 1000 \<and> ss_started_ms (ap_stop p1) = to_millis (ap_now_us p1))"
proof -
  let ?us = "ap_now_us p + 1000"
  obtain c0 where c0: "client_poll io (to_millis ?us) (ap_client p) = Some c0" "client_inv c0" "uart_inv (cl_uart c0)"
    using poll_returns assms(1) by (auto simp: app_inv_def)
  obtain up u where u: "link_up (cl_uart c0) = (up, u)" "uart_inv u" using assms(2) c0(3) by (metis prod.collapse)
  obtain response c where r: "take_response (c0\<lparr>cl_uart := u\<rparr>) = (response, c)" by fastforce
  let ?p = "p\<lparr>ap_now_us := ?us, ap_client := c\<rparr>"
  have c: "app_inv uart_inv ?p"
    using client_inv_link_only(4,5)[of "c0\<lparr>cl_uart := u\<rparr>"] r c0(2) u(2) by (auto simp: client_inv_link_only(1) app_inv_def)
  obtain code p' where a: "app_respond io (to_millis ?us) response ?p = (code, p')"
    "app_inv uart_inv p'" "ap_quit_after_stop p' = ap_quit_after_stop p" "ap_now_us p' = ?us" "\<forall>n. code = Some n \<longrightarrow> n \<le> 1"
    using app_respond_running[OF c, of "to_millis ?us" response] by auto
  have "app_input io (to_millis ?us) ev p' = (begin_stop (to_millis ?us) p')\<lparr>ap_quit_after_stop := True\<rparr>"
    using assms(4) by (auto simp: app_input_def)
  then show ?thesis
    using assms(3) c0(1) u(1) r a
    by (cases up; cases code) (simp_all add: app_iteration_def Let_def begin_stop_def safe_stop_begin_def safe_stop_active_def app_inv_def)
qed

lemma app_run_quits:
  assumes "app_inv uart_inv p" "line_keeps uart_inv link_up ((arrive, ev) # rounds)"
    "\<not> ap_quit_after_stop p" "ev = EndOfInput \<or> ev = WaitFailed \<or> ev = InputLine ''quit'' \<or> ev = InputLine ''exit''"
    "1000 \<le> length rounds" "unat (ap_now_us p) + 1001000 < 2 ^ 64"
  shows "\<exists>code responses p'. app_run io link_up ((arrive, ev) # rounds) p = Some (Some code, responses, p') \<and>
    code \<le> 1 \<and> length responses \<le> 1001"
proof -
  let ?p = "p\<lparr>ap_client := (ap_client p)\<lparr>cl_uart := arrive (cl_uart (ap_client p))\<rparr>\<rparr>"
  have p: "app_inv uart_inv ?p" "\<forall>u. uart_inv u \<longrightarrow> uart_inv (snd (link_up u))" "\<not> ap_quit_after_stop ?p"
    using assms(1-3) by (auto simp: app_inv_def line_keeps_def client_inv_link_only)
  obtain code response p1 where it: "app_iteration io link_up ev ?p = Some (code, response, p1)" "\<forall>n. code = Some n \<longrightarrow> n \<le> 1"
    "code = None \<longrightarrow> app_inv uart_inv p1 \<and> ap_quit_after_stop p1 \<and> safe_stop_active (ap_stop p1) \<and>
       ap_now_us p1 = ap_now_us p + 1000 \<and> ss_started_ms (ap_stop p1) = to_millis (ap_now_us p1)"
    using app_iteration_quitting[OF p assms(4)] by auto
  show ?thesis
  proof (cases code)
    case (Some n)
    then show ?thesis using it by simp
  next
    case None
    have l: "line_keeps uart_inv link_up rounds" using assms(2) by (simp add: line_keeps_def)
    have u: "unat (ap_now_us p1) = unat (ap_now_us p) + 1000" using it(3) None assms(6) by (simp add: unat_word_ariths)
    obtain c rs p' where "app_run io link_up rounds p1 = Some (Some c, rs, p')" "c \<le> 1" "length rs \<le> 1000"
      using app_run_stops[of p1 link_up rounds 0] it(3) None l assms(5,6) u by auto
    then show ?thesis using it(1) None by simp
  qed
qed

text \<open>
  Four rounds against an MCU that answers: the request to quit, the heater-off request, its answer and the
  motor-stop request, and the answer to that.
\<close>

lemma app_iteration_up:
  assumes "client_poll io (to_millis (ap_now_us p + 1000)) (ap_client p) = Some c0" "take_response c0 = (response, c)"
    "app_respond io (to_millis (ap_now_us p + 1000)) response (p\<lparr>ap_now_us := ap_now_us p + 1000, ap_client := c\<rparr>) = (code, p1)"
  shows "app_iteration io (\<lambda>u. (True, u)) ev p = Some (code, response,
    if code \<noteq> None \<or> ap_quit_after_stop p1 then p1 else app_input io (to_millis (ap_now_us p + 1000)) ev p1)"
  using assms by (cases code) (simp_all add: app_iteration_def Let_def)

lemma app_stop_handshake:
  assumes c: "client_inv (ap_client p)" "uart_inv (cl_uart (ap_client p))" "\<not> receiving (cl_link (ap_client p))"
      "rx_q (cl_uart (ap_client p)) = []" "\<not> cl_waiting (ap_client p)" "\<not> cl_response_ready (ap_client p)"
      "cl_last_command_status (ap_client p) = Ok" "length (tx_pending (cl_link (ap_client p))) \<le> 1000"
    and p: "ap_now_us p = 0" "cl_last_tx_ms (ap_client p) = 0" "ap_stop p = safe_stop_init" "\<not> ap_quit_after_stop p"
      "cl_next_seq (ap_client p) = 0"
    and replies: "\<And>u. uart_inv u \<Longrightarrow> rx_q u = [] \<Longrightarrow> uart_inv (a1 u) \<and> rx_q (a1 u) = write_frame kMaxFrameSize FtResponse 0 HeaterOff []"
      "\<And>u. uart_inv u \<Longrightarrow> rx_q u = [] \<Longrightarrow> uart_inv (a2 u) \<and> rx_q (a2 u) = write_frame kMaxFrameSize FtResponse 1 MotorStop []"
  shows "\<exists>responses p'. app_run io (\<lambda>u. (True, u)) [(id, EndOfInput), (id, NoInput), (a1, NoInput), (a2, NoInput)] p =
    Some (Some 0, responses, p')"
proof -
  define k where "k = ap_client p"
  have ms: "to_millis 1000 = 1" "to_millis 2000 = 2" "to_millis 3000 = 3" "to_millis 4000 = 4"
    by (simp_all add: to_millis_def)
  have wf: "wf_msg_id HeaterOff" "wf_msg_id MotorStop" by (simp_all add: wf_named named_msg_ids_def)
  have late: "\<not> kDeadlineMs \<le> 1" "\<not> kDeadlineMs \<le> 2" by (simp_all add: limit_defs word_le_nat_alt)
  note c = c[folded k_def] and p = p[folded k_def]
  obtain lk1 u1 where q1: "client_poll io 1 k = Some (k\<lparr>cl_link := lk1, cl_uart := u1\<rparr>)" "link_inv lk1" "uart_inv u1"
    "\<not> receiving lk1" "rx_q u1 = []" "length (tx_pending lk1) \<le> 1000"
    using client_poll_quiet[OF c(1-5), of 1] c(8) p(2) by (auto simp: limit_defs)
  define k1 where "k1 = k\<lparr>cl_link := lk1, cl_uart := u1\<rparr>"
  define p1 where "p1 = p\<lparr>ap_now_us := 1000, ap_client := k1, ap_stop := safe_stop_begin 1 safe_stop_init, ap_quit_after_stop := True\<rparr>"
  have i1: "app_iteration io (\<lambda>u. (True, u)) EndOfInput p = Some (None, None, p1)"
    using app_iteration_up[of p k1 None k1 None "p\<lparr>ap_now_us := 1000, ap_client := k1\<rparr>" EndOfInput] q1(1) p c(6,7)
    by (simp add: k1_def k_def ms take_response_def app_respond_def safe_stop_active_def safe_stop_init_def response_is_def
        app_input_def begin_stop_def p1_def)
  have k1: "client_inv k1" using client_inv_link[OF c(1) q1(2)] by (simp add: k1_def)
  obtain lk2 u2 where q2: "client_poll io 2 k1 = Some (k1\<lparr>cl_link := lk2, cl_uart := u2\<rparr>)" "link_inv lk2" "uart_inv u2"
    "\<not> receiving lk2" "rx_q u2 = []" "length (tx_pending lk2) \<le> 1000"
    using client_poll_quiet[of k1 2] k1 q1 c(5) p(2) by (auto simp: k1_def limit_defs)
  define k2 where "k2 = k1\<lparr>cl_link := lk2, cl_uart := u2\<rparr>"
  have k2: "client_inv k2" "uart_inv (cl_uart k2)" using client_inv_link[OF k1 q2(2)] q2(3) by (simp_all add: k2_def)
  obtain k3 where r2: "client_request io 2 HeaterOff None 0 k2 = (Ok, k3)" "client_inv k3" "uart_inv (cl_uart k3)"
    "\<not> receiving (cl_link k3)" "rx_q (cl_uart k3) = []" "length (tx_pending (cl_link k3)) \<le> 1010" "cl_waiting k3"
    "cl_pending_msg_id k3 = HeaterOff" "cl_pending_seq k3 = 0" "cl_next_seq k3 = 1" "cl_request_started_ms k3 = 2"
    "cl_sent_at_ms k3 = 2" "cl_last_tx_ms k3 = 2" "cl_last_command_status k3 = Ok" "\<not> cl_response_ready k3"
    using client_request_accepted[OF k2, of 2 HeaterOff] client_request_spec[OF k2, of 2 HeaterOff None 0] q2(4-6) c(5,6) p(5)
    by (auto simp: k2_def k1_def)
  define p2 where "p2 = p1\<lparr>ap_now_us := 2000, ap_stop := (ap_stop p1)\<lparr>ss_request_sent := True\<rparr>, ap_client := k3\<rparr>"
  have i2: "app_iteration io (\<lambda>u. (True, u)) NoInput p1 = Some (None, None, p2)"
    using app_iteration_up[of p1 k2 None k2 None p2 NoInput] q2(1) c(5-7) r2(1)
    by (simp add: k2_def k1_def p1_def p2_def ms take_response_def app_respond_def safe_stop_active_def safe_stop_begin_def
        safe_stop_init_def safe_stop_service_def safe_stop_note_def safe_stop_send_def safe_stop_expired_def
        client_heater_off_def late)
  define k4 where "k4 = k3\<lparr>cl_uart := a1 (cl_uart k3)\<rparr>"
  have a1: "uart_inv (cl_uart k4)" "rx_q (cl_uart k4) = write_frame kMaxFrameSize FtResponse 0 HeaterOff []"
    using replies(1)[OF r2(3,5)] by (simp_all add: k4_def)
  obtain k5 where q3: "client_poll io 3 k4 = Some k5" "client_inv k5" "uart_inv (cl_uart k5)" "\<not> receiving (cl_link k5)"
    "cl_response_ready k5" "f_type (cl_response k5) = FtResponse" "f_msg (cl_response k5) = HeaterOff" "\<not> cl_waiting k5"
    "cl_last_command_status k5 = Ok" "cl_next_seq k5 = 1" "rx_q (cl_uart k5) = []" "length (tx_pending (cl_link k5)) \<le> 1010"
    using client_poll_reply[of k4 HeaterOff 0 "[]" 3] a1 r2 by (auto simp: k4_def client_inv_link_only limit_defs wf)
  define k6 where "k6 = k5\<lparr>cl_response_ready := False\<rparr>"
  have k6: "client_inv k6" "uart_inv (cl_uart k6)" using q3(2,3,8) by (simp_all add: k6_def client_inv_def)
  obtain k7 where r3: "client_request io 3 MotorStop None 0 k6 = (Ok, k7)" "client_inv k7" "uart_inv (cl_uart k7)"
    "\<not> receiving (cl_link k7)" "rx_q (cl_uart k7) = []" "cl_waiting k7"
    "cl_pending_msg_id k7 = MotorStop" "cl_pending_seq k7 = 1" "cl_request_started_ms k7 = 3"
    "cl_sent_at_ms k7 = 3" "cl_last_tx_ms k7 = 3"
    using client_request_accepted[OF k6, of 3 MotorStop] client_request_spec[OF k6, of 3 MotorStop None 0] q3
    by (auto simp: k6_def)
  define p3 where "p3 = p2\<lparr>ap_now_us := 3000, ap_stop := (ap_stop p2)\<lparr>ss_phase := StopMotor, ss_request_sent := True\<rparr>, ap_client := k7\<rparr>"
  have i3: "app_iteration io (\<lambda>u. (True, u)) NoInput (p2\<lparr>ap_client := k4\<rparr>) = Some (None, Some (cl_response k5), p3)"
    using app_iteration_up[of "p2\<lparr>ap_client := k4\<rparr>" k5 "Some (cl_response k5)" k6 None p3 NoInput] q3 r3(1)
    by (simp add: k6_def p1_def p2_def p3_def ms take_response_def app_respond_def safe_stop_active_def safe_stop_begin_def
        safe_stop_init_def safe_stop_service_def safe_stop_note_def safe_stop_send_def safe_stop_expired_def
        client_motor_stop_def late)
  define k8 where "k8 = k7\<lparr>cl_uart := a2 (cl_uart k7)\<rparr>"
  have a2: "uart_inv (cl_uart k8)" "rx_q (cl_uart k8) = write_frame kMaxFrameSize FtResponse 1 MotorStop []"
    using replies(2)[OF r3(3,5)] by (simp_all add: k8_def)
  obtain k9 where q4: "client_poll io 4 k8 = Some k9" "cl_response_ready k9" "f_type (cl_response k9) = FtResponse"
    "f_msg (cl_response k9) = MotorStop"
    using client_poll_reply[of k8 MotorStop 1 "[]" 4] a2 r3 by (auto simp: k8_def client_inv_link_only limit_defs wf)
  obtain p4 where i4: "app_iteration io (\<lambda>u. (True, u)) NoInput (p3\<lparr>ap_client := k8\<rparr>) = Some (Some 0, Some (cl_response k9), p4)"
    using app_iteration_up[of "p3\<lparr>ap_client := k8\<rparr>" k9 "Some (cl_response k9)" "k9\<lparr>cl_response_ready := False\<rparr>" "Some 0" _ NoInput] q4
    by (simp add: p1_def p2_def p3_def ms take_response_def app_respond_def safe_stop_active_def safe_stop_begin_def
        safe_stop_init_def safe_stop_service_def safe_stop_note_def)
  have "p\<lparr>ap_client := (ap_client p)\<lparr>cl_uart := id (cl_uart (ap_client p))\<rparr>\<rparr> = p"
    "p1\<lparr>ap_client := (ap_client p1)\<lparr>cl_uart := id (cl_uart (ap_client p1))\<rparr>\<rparr> = p1"
    "p2\<lparr>ap_client := (ap_client p2)\<lparr>cl_uart := a1 (cl_uart (ap_client p2))\<rparr>\<rparr> = p2\<lparr>ap_client := k4\<rparr>"
    "p3\<lparr>ap_client := (ap_client p3)\<lparr>cl_uart := a2 (cl_uart (ap_client p3))\<rparr>\<rparr> = p3\<lparr>ap_client := k8\<rparr>"
    by (simp_all add: p2_def p3_def k4_def k8_def)
  then show ?thesis using i1 i2 i3 i4 by (simp del: id_apply)
qed

end

text \<open>Over a socket: what arrives is the operating system's doing, and cannot stop the process from ending.\<close>

lemma app_quits_over_socket:
  assumes "byte_stream px waiting sent" "client_inv (ap_client p)" "connecting (cl_uart (ap_client p))" "\<not> ap_quit_after_stop p"
    "ev = EndOfInput \<or> ev = WaitFailed \<or> ev = InputLine ''quit'' \<or> ev = InputLine ''exit''"
    "1000 \<le> length evs" "unat (ap_now_us p) + 1001000 < 2 ^ 64"
  shows "\<exists>code responses p'. app_run (socket_uart px) (transport_connected px)
      (map (\<lambda>(happens, e). (\<lambda>(t, k). (t, happens k), e)) ((h, ev) # evs)) p = Some (Some code, responses, p') \<and> code \<le> 1"
proof -
  have "line_keeps connecting (transport_connected px) (map (\<lambda>(happens, e). (\<lambda>(t, k). (t, happens k), e)) ((h, ev) # evs))"
    using connecting_connected by (auto simp: line_keeps_def) (auto simp: connecting_def)
  then show ?thesis
    using uart.app_run_quits[OF socket_uart_contract[OF assms(1)], of p _ "\<lambda>(t, k). (t, h k)" ev] assms(2-7)
    by (fastforce simp: app_inv_def)
qed

section \<open>Properties\<close>

text \<open>
  C22: the process reports success only for a device that is safe. Whatever arrives on the line and whatever
  the terminal delivers, if the process ends with status 0 then, among the responses it took, there is an
  acknowledged heater-off and behind it an acknowledged motor-stop.
\<close>

theorem app_success_acknowledged:
  assumes "app_main io link_up connect_to args rounds = Some (Some 0, responses)"
  shows "\<exists>i j. i < j \<and> j < length responses \<and> acknowledges HeaterOff (responses ! i) \<and> acknowledges MotorStop (responses ! j)"
proof -
  obtain u p' where "app_run io link_up rounds (app_process_init u) = Some (Some 0, responses, p')"
    using assms by (auto simp: app_main_def split: option.splits prod.splits if_splits)
  then show ?thesis
    using app_run_acknowledged[of io link_up rounds "app_process_init u" responses p']
    by (auto simp: app_process_init_def safe_stop_init_def)
qed

lemma app_main_runs:
  "app_run io link_up rounds (app_process_init u) = Some (code, responses, p') \<Longrightarrow>
   link_up (connect_to ''/tmp/c1link.sock'') = (True, u) \<Longrightarrow> app_main io link_up connect_to [] rounds = Some (code, responses)"
  by (simp add: app_main_def)

text \<open>The MCU's answer, written to the in-memory transport.\<close>

definition answer :: "u8 \<Rightarrow> msg_id \<Rightarrow> transport \<Rightarrow> transport" where
  "answer seq msg t = snd (uart_write mcu_side (write_frame kMaxFrameSize FtResponse seq msg []) t)"

lemma answer_arrives:
  assumes "transport_inv t" "(ring_contents \<circ> mcu_to_app) t = []"
  shows "transport_inv (answer seq msg t) \<and> (ring_contents \<circ> mcu_to_app) (answer seq msg t) = write_frame kMaxFrameSize FtResponse seq msg []"
proof -
  let ?bs = "write_frame kMaxFrameSize FtResponse seq msg []"
  have "length ?bs \<le> 4096 - length (ring_contents (mcu_to_app t))"
    using assms(2) by (simp only: o_apply) (simp add: write_frame_length limit_defs)
  then have "fst (uart_write mcu_side ?bs t) = length ?bs" by (rule mcu_uart.write_room[OF assms(1)])
  then show ?thesis using mcu_uart.write_prefix[OF assms(1), of ?bs] assms(2) by (auto simp: answer_def)
qed

theorem app_success_acknowledged_witness:
  "\<exists>responses. app_main app_side (\<lambda>u. (True, u)) (\<lambda>_. transport_init) []
      [(id, EndOfInput), (id, NoInput), (answer 0 HeaterOff, NoInput), (answer 1 MotorStop, NoInput)] = Some (Some 0, responses) \<and>
    (\<exists>i j. i < j \<and> j < length responses \<and> acknowledges HeaterOff (responses ! i) \<and> acknowledges MotorStop (responses ! j))"
proof -
  let ?p = "app_process_init transport_init"
  have c: "client_inv (ap_client ?p)" "transport_inv (cl_uart (ap_client ?p))" "\<not> receiving (cl_link (ap_client ?p))"
    "(ring_contents \<circ> mcu_to_app) (cl_uart (ap_client ?p)) = []" "\<not> cl_waiting (ap_client ?p)" "\<not> cl_response_ready (ap_client ?p)"
    "cl_last_command_status (ap_client ?p) = Ok" "length (tx_pending (cl_link (ap_client ?p))) \<le> 1000"
    using client_inv_init[of transport_init] transport_inv_init link_inv_init(2)
    by (simp_all add: app_process_init_def client_init_def receiving_def link_init_def in_progress_def parser_init_def
        transport_init_def)
  have p: "ap_now_us ?p = 0" "cl_last_tx_ms (ap_client ?p) = 0" "ap_stop ?p = safe_stop_init" "\<not> ap_quit_after_stop ?p"
    "cl_next_seq (ap_client ?p) = 0"
    by (simp_all add: app_process_init_def client_init_def)
  let ?rounds = "[(id, EndOfInput), (id, NoInput), (answer 0 HeaterOff, NoInput), (answer 1 MotorStop, NoInput)]"
  have "\<exists>responses p'. app_run app_side (\<lambda>u. (True, u)) ?rounds ?p = Some (Some 0, responses, p')"
    using app_uart.app_stop_handshake[OF c p answer_arrives answer_arrives] .
  then obtain responses p' where r: "app_run app_side (\<lambda>u. (True, u)) ?rounds ?p = Some (Some 0, responses, p')" by blast
  have "app_main app_side (\<lambda>u. (True, u)) (\<lambda>_. transport_init) [] ?rounds = Some (Some 0, responses)"
    by (rule app_main_runs[OF r refl])
  then show ?thesis using app_success_acknowledged[where responses = responses] by blast
qed

text \<open>
  C23: the process ends when it is asked to. From any state in which it has not been asked yet, if an
  iteration's input is the end of the terminal input, a failed wait, \<open>quit\<close> or \<open>exit\<close>, it ends with status
  0 or 1 within the next thousand iterations, which are a second, for every line and every behaviour of the
  MCU.
\<close>

theorem app_quits_in_time:
  assumes "uart io rx_q tx_q uart_inv" "app_inv uart_inv p" "line_keeps uart_inv link_up ((arrive, ev) # rounds)"
    "\<not> ap_quit_after_stop p" "ev = EndOfInput \<or> ev = WaitFailed \<or> ev = InputLine ''quit'' \<or> ev = InputLine ''exit''"
    "1000 \<le> length rounds" "unat (ap_now_us p) + 1001000 < 2 ^ 64"
  shows "\<exists>code responses p'. app_run io link_up ((arrive, ev) # rounds) p = Some (Some code, responses, p') \<and>
    code \<le> 1 \<and> length responses \<le> 1001"
  by (rule uart.app_run_quits[OF assms])

text \<open>A line that accepts everything and never delivers anything.\<close>

theorem app_quits_in_time_witness:
  "\<exists>code responses p'. app_run app_side (\<lambda>u. (True, u)) ((id, EndOfInput) # replicate 1000 (id, NoInput)) (app_process_init transport_init) =
     Some (Some code, responses, p') \<and> code \<le> 1 \<and> length responses \<le> 1001"
proof -
  have p: "app_inv transport_inv (app_process_init transport_init)"
    by (simp add: app_inv_def app_process_init_def client_inv_init) (simp add: client_init_def transport_inv_init)
  have l: "line_keeps transport_inv (\<lambda>u. (True, u)) ((id, EndOfInput) # replicate 1000 (id, NoInput))"
    by (auto simp: line_keeps_def)
  have q: "\<not> ap_quit_after_stop (app_process_init transport_init)" "unat (ap_now_us (app_process_init transport_init)) + 1001000 < 2 ^ 64"
    by (simp_all add: app_process_init_def)
  show ?thesis
    by (rule app_quits_in_time[OF app_uart.uart_axioms p l q(1) _ _ q(2)]) simp_all
qed

end
