(* ===== verification/Control_Server.thy ===== *)
theory Control_Server
  imports Sim_Board C_Text Socket_Transport
begin

text \<open>
  \<open>src/sim/sim_control_server.cpp\<close>: a line protocol on a second Unix domain socket of the MCU process, by
  which a user interface puts ingredients into the simulated bowl and moves its lid. Words and numbers are
  extracted as \<open>operator>>\<close> of the C++ library does. Answers are sent without a look at the result. Shown
  here: the answers do not depend on how the commands are cut into packets, only valid commands reach the
  board, and nobody fills more than 2200 g into the bowl.
\<close>

section \<open>Extraction from a stream\<close>

text \<open>A word behind white space, with the rest of the stream.\<close>

definition read_word :: "string \<Rightarrow> (string \<times> string) option" where
  "read_word s =
     (let t = dropWhile is_space s
      in if t = [] then None else Some (takeWhile (\<lambda>c. \<not> is_space c) t, dropWhile (\<lambda>c. \<not> is_space c) t))"

text \<open>
  The characters a number is made of, as the library collects them: after a sign, digits with at most one
  point and one exponent. What was collected is converted by \<open>strtof\<close> and has to be a number as a whole;
  underflow is accepted, overflow is not. The flags: a digit, the point, the exponent has been seen.
\<close>

fun float_chars :: "bool \<Rightarrow> bool \<Rightarrow> bool \<Rightarrow> string \<Rightarrow> string \<times> string" where
  "float_chars digits point expo [] = ([], [])"
| "float_chars digits point expo (c # cs) =
     (if is_digit c then apfst ((#) c) (float_chars True point expo cs)
      else if c = CHR ''.'' \<and> \<not> point \<and> \<not> expo then apfst ((#) c) (float_chars digits True expo cs)
      else if (c = CHR ''e'' \<or> c = CHR ''E'') \<and> \<not> expo \<and> digits
      then apfst ((#) c)
             (case cs of
                [] \<Rightarrow> ([], [])
              | d # ds \<Rightarrow> if d = CHR ''+'' \<or> d = CHR ''-'' then apfst ((#) d) (float_chars digits point True ds)
                          else float_chars digits point True cs)
      else ([], c # cs))"

definition read_float :: "string \<Rightarrow> (f32 \<times> string) option" where
  "read_float s =
     (let t = dropWhile is_space s;
          (sign, body) = (case t of c # cs \<Rightarrow> if c = CHR ''+'' \<or> c = CHR ''-'' then ([c], cs) else ([], t) | [] \<Rightarrow> ([], []));
          (chars, rest) = float_chars False False False body
      in case c_strtof (sign @ chars) of
           Some (Finite v, _, []) \<Rightarrow> Some (v, rest)
         | _ \<Rightarrow> None)"

section \<open>Commands\<close>

abbreviation newline :: char where "newline \<equiv> CHR 0x0A"

definition viscosity_for :: "string \<Rightarrow> f32" where
  "viscosity_for ingredient =
     (if ingredient = ''water'' then 1
      else if ingredient = ''oil'' then rnd (18 / 10)
      else if ingredient = ''flour'' then rnd (65 / 10)
      else 2)"

definition ok_response :: string where "ok_response = ''ok'' @ [newline]"

definition control_add :: "string \<Rightarrow> sim_board \<Rightarrow> string \<times> sim_board" where
  "control_add args b =
     (let bad = ''error invalid add command'' @ [newline]
      in case read_float args of
           None \<Rightarrow> (bad, b)
         | Some (grams, r1) \<Rightarrow>
             (case read_word r1 of
                None \<Rightarrow> (bad, b)
              | Some (ingredient, r2) \<Rightarrow>
                  if read_word r2 \<noteq> None \<or> grams < rnd (1 / 10) \<or> grams > fsub 2200 (sc_true_mass_g (sb_scale b)) \<or>
                     (ingredient \<noteq> ''water'' \<and> ingredient \<noteq> ''oil'' \<and> ingredient \<noteq> ''flour'' \<and> ingredient \<noteq> ''other'')
                  then (bad, b)
                  else (ok_response, sb_set_viscosity (viscosity_for ingredient) (sb_add_mass grams b))))"

definition control_lid :: "string \<Rightarrow> sim_board \<Rightarrow> string \<times> sim_board" where
  "control_lid args b =
     (let bad = ''error invalid lid command'' @ [newline]
      in case read_word args of
           None \<Rightarrow> (bad, b)
         | Some (action, rest) \<Rightarrow>
             if read_word rest \<noteq> None \<or> (action \<noteq> ''open'' \<and> action \<noteq> ''close'') then (bad, b)
             else (ok_response, if action = ''open'' then sb_open_lid b else sb_close_lid b))"

definition control_execute :: "string \<Rightarrow> sim_board \<Rightarrow> string \<times> sim_board" where
  "control_execute line b =
     (let unknown = ''error unknown command'' @ [newline]
      in case read_word line of
           None \<Rightarrow> (unknown, b)
         | Some (command, args) \<Rightarrow>
             if command = ''add'' then control_add args b
             else if command = ''lid'' then control_lid args b
             else (unknown, b))"

section \<open>The server\<close>

text \<open>
  The descriptors and the pending input. The server points to the board, which others change as well: it
  is handed in and out, like the operating system.
\<close>

record control_server =
  cs_listen_fd :: int
  cs_conn_fd :: int
  cs_input :: string

definition control_server_at :: "int \<Rightarrow> control_server" where
  "control_server_at fd = \<lparr>cs_listen_fd = fd, cs_conn_fd = - 1, cs_input = []\<rparr>"

definition control_listen_on :: "'k posix \<Rightarrow> string option \<Rightarrow> bool \<Rightarrow> 'k \<Rightarrow> control_server \<times> 'k" where
  "control_listen_on px path has_board k =
     (case path of
        None \<Rightarrow> (control_server_at (- 1), k)
      | Some p \<Rightarrow>
          if \<not> has_board \<or> length p \<ge> px_sun_path px then (control_server_at (- 1), k)
          else (case px_socket px k of
                  (fd, k1) \<Rightarrow>
                    if fd < 0 then (control_server_at (- 1), k1)
                    else (case clear_path px p k1 of
                            (False, k2) \<Rightarrow> (control_server_at (- 1), px_close px fd k2)
                          | (True, k2) \<Rightarrow>
                              (case bind_and_listen px fd p k2 of
                                 (False, k3) \<Rightarrow> (control_server_at (- 1), px_close px fd k3)
                               | (True, k3) \<Rightarrow>
                                   (case set_nonblocking px fd k3 of
                                      (False, k4) \<Rightarrow> (control_server_at (- 1), px_close px fd k4)
                                    | (True, k4) \<Rightarrow> (control_server_at fd, k4))))))"

definition control_destroy :: "'k posix \<Rightarrow> control_server \<Rightarrow> 'k \<Rightarrow> 'k" where
  "control_destroy px cs k =
     (let k1 = (if cs_conn_fd cs \<ge> 0 then px_close px (cs_conn_fd cs) k else k)
      in if cs_listen_fd cs \<ge> 0 then px_close px (cs_listen_fd cs) k1 else k1)"

text \<open>Moving: the new object, and what is left of the old one, whose string is empty afterwards.\<close>

definition control_move :: "control_server \<Rightarrow> control_server \<times> control_server" where
  "control_move other =
     (\<lparr>cs_listen_fd = cs_listen_fd other, cs_conn_fd = cs_conn_fd other, cs_input = cs_input other\<rparr>,
      other\<lparr>cs_listen_fd := - 1, cs_conn_fd := - 1, cs_input := []\<rparr>)"

definition control_valid :: "control_server \<Rightarrow> bool" where
  "control_valid cs \<longleftrightarrow> cs_listen_fd cs \<ge> 0"

definition control_accept_pending :: "'k posix \<Rightarrow> control_server \<Rightarrow> 'k \<Rightarrow> control_server \<times> 'k" where
  "control_accept_pending px cs k =
     (if cs_listen_fd cs < 0 \<or> cs_conn_fd cs \<ge> 0 then (cs, k)
      else case px_accept px (cs_listen_fd cs) k of
             (fd, k1) \<Rightarrow>
               if fd \<ge> 0
               then (case set_nonblocking px fd k1 of
                       (False, k2) \<Rightarrow> (cs, px_close px fd k2)
                     | (True, k2) \<Rightarrow> (cs\<lparr>cs_conn_fd := fd, cs_input := []\<rparr>, k2))
               else (cs, k1))"

definition send_response :: "'k posix \<Rightarrow> int \<Rightarrow> string \<Rightarrow> 'k \<Rightarrow> 'k" where
  "send_response px fd response k = snd (px_send px fd (map of_char response) k)"

text \<open>The loop of \<open>process_lines\<close>: every complete line is executed and answered.\<close>

function control_lines :: "'k posix \<Rightarrow> int \<Rightarrow> string \<Rightarrow> sim_board \<Rightarrow> 'k \<Rightarrow> string \<times> sim_board \<times> 'k" where
  "control_lines px fd input b k =
     (case dropWhile (\<lambda>c. c \<noteq> newline) input of
        [] \<Rightarrow> (input, b, k)
      | _ # rest \<Rightarrow>
          (case control_execute (takeWhile (\<lambda>c. c \<noteq> newline) input) b of
             (response, b') \<Rightarrow> control_lines px fd rest b' (send_response px fd response k)))"
  by pat_completeness auto

termination
  by (relation "measure (\<lambda>(px, fd, input, b, k). length input)")
     (auto dest!: arg_cong[where f = length] intro: le_trans[OF _ length_dropWhile_le[where P = "\<lambda>c. c \<noteq> newline"]] simp: less_eq_Suc_le simp del: length_dropWhile_le)

declare control_lines.simps [simp del]

definition process_lines :: "'k posix \<Rightarrow> control_server \<Rightarrow> sim_board \<Rightarrow> 'k \<Rightarrow> control_server \<times> sim_board \<times> 'k" where
  "process_lines px cs b k =
     (case control_lines px (cs_conn_fd cs) (cs_input cs) b k of
        (input, b', k') \<Rightarrow>
          if length input > 512
          then (cs\<lparr>cs_input := []\<rparr>, b', send_response px (cs_conn_fd cs) (''error command too long'' @ [newline]) k')
          else (cs\<lparr>cs_input := input\<rparr>, b', k'))"

definition chars_of :: "u8 list \<Rightarrow> string" where
  "chars_of bytes = map (\<lambda>c. char_of (unat c)) bytes"

text \<open>The loop of \<open>poll\<close>: it reads until nothing is left, which is up to the operating system.\<close>

partial_function (option) control_receive ::
  "'k posix \<Rightarrow> control_server \<Rightarrow> sim_board \<Rightarrow> 'k \<Rightarrow> (control_server \<times> sim_board \<times> 'k) option" where
  "control_receive px cs b k =
     (case px_recv px (cs_conn_fd cs) 256 k of
        (got, bytes, k1) \<Rightarrow>
          if got > 0
          then (case process_lines px (cs\<lparr>cs_input := cs_input cs @ chars_of (take (nat got) bytes)\<rparr>) b k1 of
                  (cs', b', k') \<Rightarrow> control_receive px cs' b' k')
          else if got = 0 then Some (cs\<lparr>cs_conn_fd := - 1, cs_input := []\<rparr>, b, px_close px (cs_conn_fd cs) k1)
          else Some (cs, b, k1))"

declare control_receive.simps [code]

definition control_poll :: "'k posix \<Rightarrow> control_server \<Rightarrow> sim_board \<Rightarrow> 'k \<Rightarrow> (control_server \<times> sim_board \<times> 'k) option" where
  "control_poll px cs b k =
     (case control_accept_pending px cs k of
        (cs1, k1) \<Rightarrow> if cs_conn_fd cs1 < 0 then Some (cs1, b, k1) else control_receive px cs1 b k1)"

section \<open>The dialogue as a whole\<close>

text \<open>The lines completed so far and the beginning of the next, and the answers to a list of lines.\<close>

fun scan_lines :: "string \<Rightarrow> string \<Rightarrow> string list \<times> string" where
  "scan_lines pending [] = ([], pending)"
| "scan_lines pending (c # cs) =
     (if c = newline then apfst ((#) pending) (scan_lines [] cs) else scan_lines (pending @ [c]) cs)"

fun dialogue :: "string list \<Rightarrow> sim_board \<Rightarrow> string list \<times> sim_board" where
  "dialogue [] b = ([], b)"
| "dialogue (line # ls) b = (case control_execute line b of (response, b') \<Rightarrow> apfst ((#) response) (dialogue ls b'))"

lemma scan_lines_append:
  "scan_lines acc (s @ t) = (case scan_lines acc s of (ls, r) \<Rightarrow> apfst ((@) ls) (scan_lines r t))"
  by (induction acc s rule: scan_lines.induct) (auto simp: apfst_def map_prod_def split: prod.split)

lemma scan_lines_within: "newline \<notin> set s \<Longrightarrow> scan_lines acc (s @ t) = scan_lines (acc @ s) t"
  by (induction s arbitrary: acc) auto

lemma scan_lines_pending:
  "\<forall>x \<in> set (fst (scan_lines acc s)). length x \<le> n \<Longrightarrow> length (snd (scan_lines acc s)) \<le> n \<Longrightarrow> length acc \<le> n"
  by (induction acc s rule: scan_lines.induct) (auto split: if_splits)

lemma scan_lines_rest: "newline \<notin> set acc \<Longrightarrow> newline \<notin> set (snd (scan_lines acc s))"
  by (induction acc s rule: scan_lines.induct) auto

lemma dialogue_append:
  "dialogue (ls @ ls') b = (case dialogue ls b of (rs, b1) \<Rightarrow> apfst ((@) rs) (dialogue ls' b1))"
  by (induction ls arbitrary: b) (auto simp: apfst_def map_prod_def split: prod.split)

lemma control_lines_dialogue:
  "control_lines px fd input b k =
     (case scan_lines [] input of (ls, r) \<Rightarrow> case dialogue ls b of (rs, b') \<Rightarrow> (r, b', fold (send_response px fd) rs k))"
proof (induction px fd input b k rule: control_lines.induct)
  case (1 px fd input b k)
  let ?line = "takeWhile (\<lambda>c. c \<noteq> newline) input"
  have nl: "newline \<notin> set ?line" using set_takeWhileD by fast
  show ?case
  proof (cases "dropWhile (\<lambda>c. c \<noteq> newline) input")
    case Nil
    then have "newline \<notin> set input" by (auto simp: dropWhile_eq_Nil_conv)
    then have "scan_lines [] input = ([], input)" using scan_lines_within[of input "[]" "[]"] by simp
    then show ?thesis unfolding control_lines.simps[of px fd input b k] Nil by simp
  next
    case (Cons c rest)
    have c: "c = newline" using Cons hd_dropWhile[of "\<lambda>c. c \<noteq> newline" input] by simp
    have i: "input = ?line @ newline # rest" using takeWhile_dropWhile_id[of "\<lambda>c. c \<noteq> newline" input] Cons c by simp
    have s: "scan_lines [] input = apfst ((#) ?line) (scan_lines [] rest)"
      by (subst i) (simp add: scan_lines_within[OF nl])
    obtain response b' where e: "control_execute ?line b = (response, b')" by fastforce
    show ?thesis using "1.IH"[OF Cons e[symmetric]]
      unfolding control_lines.simps[of px fd input b k] Cons s by (simp add: e split: prod.split)
  qed
qed

section \<open>What polling keeps\<close>

lemma process_lines_dialogue:
  assumes "scan_lines [] (cs_input cs) = (ls, r)" "dialogue ls b = (rs, b')"
  shows "process_lines px cs b k =
     (if length r > 512
      then (cs\<lparr>cs_input := []\<rparr>, b', send_response px (cs_conn_fd cs) (''error command too long'' @ [newline]) (fold (send_response px (cs_conn_fd cs)) rs k))
      else (cs\<lparr>cs_input := r\<rparr>, b', fold (send_response px (cs_conn_fd cs)) rs k))"
  using assms by (simp add: process_lines_def control_lines_dialogue)

lemma process_lines_conn: "process_lines px cs b k = (cs', b', k') \<Longrightarrow> cs_conn_fd cs' = cs_conn_fd cs"
  by (auto simp: process_lines_def split: prod.splits if_splits)

text \<open>A property of the server, the board and the operating system that every step of polling keeps.\<close>

lemma control_receive_keeps:
  assumes returns: "control_receive px cs b k = Some r" and start: "P cs b k" "cs_conn_fd cs \<ge> 0"
    and input: "\<And>cs b k got bytes k1 txt. P cs b k \<Longrightarrow> px_recv px (cs_conn_fd cs) 256 k = (got, bytes, k1) \<Longrightarrow>
      P (cs\<lparr>cs_input := txt\<rparr>) b k1"
    and eof: "\<And>cs b k. P cs b k \<Longrightarrow> cs_conn_fd cs \<ge> 0 \<Longrightarrow>
      P (cs\<lparr>cs_conn_fd := - 1, cs_input := []\<rparr>) b (px_close px (cs_conn_fd cs) k)"
    and lines_of: "\<And>cs b k cs' b' k'. P cs b k \<Longrightarrow> process_lines px cs b k = (cs', b', k') \<Longrightarrow> P cs' b' k'"
  shows "case r of (cs', b', k') \<Rightarrow> P cs' b' k'"
proof -
  let ?goal = "\<lambda>px' cs b k r. px' = px \<longrightarrow> P cs b k \<longrightarrow> cs_conn_fd cs \<ge> 0 \<longrightarrow> (case r of (cs', b', k') \<Rightarrow> P cs' b' k')"
  have "?goal px cs b k r"
  proof (rule control_receive.raw_induct[where P = ?goal, OF _ returns])
    fix f px' cs b k r
    assume IH: "\<And>px' cs b k r. f px' cs b k = Some r \<Longrightarrow> ?goal px' cs b k r"
      and eq: "(case px_recv px' (cs_conn_fd cs) 256 k of
          (got, bytes, k1) \<Rightarrow>
            if got > 0
            then (case process_lines px' (cs\<lparr>cs_input := cs_input cs @ chars_of (take (nat got) bytes)\<rparr>) b k1 of
                    (cs', b', k') \<Rightarrow> f px' cs' b' k')
            else if got = 0 then Some (cs\<lparr>cs_conn_fd := - 1, cs_input := []\<rparr>, b, px_close px' (cs_conn_fd cs) k1)
            else Some (cs, b, k1)) = Some r"
    show "?goal px' cs b k r"
    proof (intro impI)
      assume px: "px' = px" and p: "P cs b k" and c: "cs_conn_fd cs \<ge> 0"
      obtain got bytes k1 where r: "px_recv px (cs_conn_fd cs) 256 k = (got, bytes, k1)" by (cases "px_recv px (cs_conn_fd cs) 256 k")
      have p1: "P cs b k1" using input[OF p r, of "cs_input cs"] by simp
      let ?cs = "cs\<lparr>cs_input := cs_input cs @ chars_of (take (nat got) bytes)\<rparr>"
      obtain cs' b' k' where l: "process_lines px ?cs b k1 = (cs', b', k')" by (cases "process_lines px ?cs b k1")
      have "P cs' b' k'" "cs_conn_fd cs' \<ge> 0"
        using lines_of[OF input[OF p r] l] process_lines_conn[OF l] c by simp_all
      then show "case r of (cs', b', k') \<Rightarrow> P cs' b' k'"
        using eq px r l p1 eof[OF p1 c] IH[of px cs' b' k' r] by (auto split: if_splits)
    qed
  qed
  then show ?thesis using start by blast
qed

lemma control_poll_keeps:
  assumes p: "control_poll px cs b k = Some (cs', b', k')" and start: "P cs b k"
    and accept: "\<And>cs b k. P cs b k \<Longrightarrow> P (fst (control_accept_pending px cs k)) b (snd (control_accept_pending px cs k))"
    and input: "\<And>cs b k got bytes k1 txt. P cs b k \<Longrightarrow> px_recv px (cs_conn_fd cs) 256 k = (got, bytes, k1) \<Longrightarrow>
      P (cs\<lparr>cs_input := txt\<rparr>) b k1"
    and eof: "\<And>cs b k. P cs b k \<Longrightarrow> cs_conn_fd cs \<ge> 0 \<Longrightarrow>
      P (cs\<lparr>cs_conn_fd := - 1, cs_input := []\<rparr>) b (px_close px (cs_conn_fd cs) k)"
    and lines_of: "\<And>cs b k cs' b' k'. P cs b k \<Longrightarrow> process_lines px cs b k = (cs', b', k') \<Longrightarrow> P cs' b' k'"
  shows "P cs' b' k'"
proof -
  obtain cs1 k1 where a: "control_accept_pending px cs k = (cs1, k1)" by fastforce
  have p1: "P cs1 b k1" using accept[OF start] a by simp
  show ?thesis
  proof (cases "cs_conn_fd cs1 < 0")
    case True
    then show ?thesis using p p1 by (simp add: control_poll_def a)
  next
    case False
    then have "control_receive px cs1 b k1 = Some (cs', b', k')" using p by (simp add: control_poll_def a)
    then show ?thesis
      using control_receive_keeps[where P = P and r = "(cs', b', k')", OF _ p1 _ input eof lines_of] False by auto
  qed
qed

section \<open>What commands do to the board\<close>

lemma quantum_2200: "0 \<le> x \<Longrightarrow> x \<le> 2200 \<Longrightarrow> quantum x \<le> 2 powi (- 12)"
proof -
  assume x: "0 \<le> x" "x \<le> 2200"
  have "max (binade \<bar>x\<bar> - 23) (- 149) \<le> - 12"
  proof (cases "x = 0")
    case True
    moreover have "binade 0 \<le> 11" by code_simp
    ultimately show ?thesis by simp
  next
    case False
    then have "binade \<bar>x\<bar> \<le> binade 2200" using x by (intro binade_mono) auto
    moreover have "binade 2200 = 11" by (rule binade_unique) simp_all
    ultimately show ?thesis by simp
  qed
  then show ?thesis unfolding quantum_def by (intro power_int_increasing) simp_all
qed

text \<open>Adding what just fits never overfills the bowl, although both the limit and the sum are rounded.\<close>

lemma bowl_not_overfilled:
  assumes "0 \<le> m" "m \<le> 2200" "0 \<le> g" "g \<le> fsub 2200 m"
  shows "0 \<le> fadd m g \<and> fadd m g \<le> 2200"
proof -
  have "\<bar>rnd (2200 - m) - (2200 - m)\<bar> \<le> quantum (2200 - m) / 2" by (rule rnd_error)
  moreover have "quantum (2200 - m) \<le> 2 powi (- 12)" using assms by (intro quantum_2200) auto
  moreover have "(2 :: rat) powi (- 12) = 1 / 4096" by (simp add: power_int_minus)
  ultimately have "m + g \<le> 2200 + 1 / 8192" using assms(4) unfolding fsub_def by linarith
  then have "rnd (m + g) \<le> rnd (2200 + 1 / 8192)" by (rule rnd_mono)
  moreover have "rnd (2200 + 1 / 8192) = 2200" by code_simp
  ultimately show ?thesis using assms(1,3) rnd_nonneg[of "m + g"] by (simp add: fadd_def)
qed

lemma execute_cases:
  obtains "snd (control_execute line b) = b"
  | g v where "rnd (1 / 10) \<le> g" "g \<le> fsub 2200 (sc_true_mass_g (sb_scale b))"
      "control_execute line b = (ok_response, sb_set_viscosity v (sb_add_mass g b))"
  | "control_execute line b = (ok_response, sb_open_lid b)" | "control_execute line b = (ok_response, sb_close_lid b)"
proof -
  show ?thesis
    using that
    by (cases "read_word line")
       (force simp: control_execute_def control_add_def control_lid_def Let_def not_less
         split: option.splits prod.splits if_splits)+
qed

definition mass_ok :: "sim_board \<Rightarrow> bool" where
  "mass_ok b \<longleftrightarrow> 0 \<le> sc_true_mass_g (sb_scale b) \<and> sc_true_mass_g (sb_scale b) \<le> 2200"

lemma execute_board:
  assumes "mass_ok b" "board_step\<^sup>*\<^sup>* b0 b"
  shows "mass_ok (snd (control_execute line b)) \<and> board_step\<^sup>*\<^sup>* b0 (snd (control_execute line b))"
proof (rule execute_cases[of line b])
  fix g v
  assume g: "rnd (1 / 10) \<le> g" "g \<le> fsub 2200 (sc_true_mass_g (sb_scale b))"
    and e: "control_execute line b = (ok_response, sb_set_viscosity v (sb_add_mass g b))"
  have "0 \<le> g" using g(1) rnd_nonneg[of "1 / 10"] by simp
  then have "mass_ok (sb_set_viscosity v (sb_add_mass g b))"
    using bowl_not_overfilled[OF _ _ _ g(2)] assms(1) by (simp add: mass_ok_def sb_set_viscosity_def sb_add_mass_def sc_add_mass_def)
  moreover have "board_step\<^sup>*\<^sup>* b0 (sb_set_viscosity v (sb_add_mass g b))"
    using assms(2) board_step.add board_step.viscosity by (meson rtranclp.rtrancl_into_rtrancl)
  ultimately show ?thesis by (simp add: e)
qed (use assms in \<open>auto simp: mass_ok_def sb_open_lid_def sb_close_lid_def intro: rtranclp.rtrancl_into_rtrancl board_step.intros[unfolded sb_open_lid_def sb_close_lid_def]\<close>)

lemma dialogue_board:
  "mass_ok b \<Longrightarrow> board_step\<^sup>*\<^sup>* b0 b \<Longrightarrow> mass_ok (snd (dialogue ls b)) \<and> board_step\<^sup>*\<^sup>* b0 (snd (dialogue ls b))"
proof (induction ls arbitrary: b)
  case (Cons line ls)
  show ?case using Cons.IH[of "snd (control_execute line b)"] execute_board[OF Cons.prems, of line] by (simp add: case_prod_beta)
qed simp

section \<open>Descriptors of the server\<close>

definition control_fds :: "control_server \<Rightarrow> socket_transport" where
  "control_fds cs = \<lparr>so_listen_fd = cs_listen_fd cs, so_conn_fd = cs_conn_fd cs\<rparr>"

lemma control_refines_transport:
  "transport_accept_pending px (control_fds cs, k) = apfst control_fds (control_accept_pending px cs k)"
  "transport_destroy px (control_fds cs) k = control_destroy px cs k"
  "fst (transport_move (control_fds cs)) = control_fds (fst (control_move cs))"
  by (simp_all add: transport_accept_pending_def control_accept_pending_def control_fds_def transport_destroy_def control_destroy_def
      transport_move_def control_move_def split: prod.split bool.split)

lemma control_listen_refines:
  "control_listen_on px path has_board k =
     (if path = None \<or> \<not> has_board then (control_server_at (- 1), k)
      else apfst (\<lambda>t. control_server_at (so_listen_fd t)) (transport_listen_on px path k))"
proof (cases path)
  case (Some p)
  obtain fd k1 where 1: "px_socket px k = (fd, k1)" by fastforce
  obtain c k2 where 2: "clear_path px p k1 = (c, k2)" by fastforce
  obtain l k3 where 3: "bind_and_listen px fd p k2 = (l, k3)" by fastforce
  obtain n k4 where 4: "set_nonblocking px fd k3 = (n, k4)" by fastforce
  show ?thesis
    by (cases c; cases l; cases n)
       (simp_all add: Some control_listen_on_def transport_listen_on_def path_refused_def no_socket_def 1 2 3 4)
qed (simp add: control_listen_on_def)

lemma control_fds_listening: "control_fds (control_server_at fd) = \<lparr>so_listen_fd = fd, so_conn_fd = - 1\<rparr>"
  by (simp add: control_fds_def control_server_at_def)

lemma control_destroy_opn:
  assumes "descriptors px opn" "accounted opn base (control_fds cs, k)" shows "opn (control_destroy px cs k) = base"
  using destroy_accounted[OF assms] by (simp add: control_refines_transport(2))

lemma listen_on_shape: "so_conn_fd (fst (transport_listen_on px path k)) = - 1"
  by (auto simp: transport_listen_on_def no_socket_def split: option.split prod.split bool.split)

lemma control_listen_accounted:
  assumes "descriptors px opn" "control_listen_on px path has_board k = (cs, k')"
  shows "accounted opn (opn k) (control_fds cs, k')"
proof -
  obtain t k1 where l: "transport_listen_on px path k = (t, k1)" by fastforce
  have "t = \<lparr>so_listen_fd = so_listen_fd t, so_conn_fd = - 1\<rparr>" using listen_on_shape[of px path k] l by (cases t) simp
  then show ?thesis
    using listen_on_accounted[OF assms(1), of k path] assms(2)
    by (auto simp: control_listen_refines l control_fds_listening no_socket_def[symmetric] split: if_splits)
qed

lemma send_descriptors:
  "descriptors px opn \<Longrightarrow> opn (send_response px fd response k) = opn k"
  "descriptors px opn \<Longrightarrow> opn (fold (send_response px fd) rs k) = opn k"
proof -
  show send: "descriptors px opn \<Longrightarrow> opn (send_response px fd response k) = opn k" for fd response k
    by (simp add: send_response_def descriptors_simps)
  show "descriptors px opn \<Longrightarrow> opn (fold (send_response px fd) rs k) = opn k"
    by (induction rs arbitrary: k) (simp_all add: send)
qed

lemma control_poll_accounted:
  assumes d: "descriptors px opn" and a: "accounted opn base (control_fds cs, k)" and p: "control_poll px cs b k = Some (cs', b', k')"
  shows "accounted opn base (control_fds cs', k')"
proof (rule control_poll_keeps[where P = "\<lambda>cs b k. accounted opn base (control_fds cs, k)", OF p a])
  fix cs k
  assume "accounted opn base (control_fds cs, k)"
  then show "accounted opn base (control_fds (fst (control_accept_pending px cs k)), snd (control_accept_pending px cs k))"
    using accept_accounted[OF d, of base "(control_fds cs, k)"] by (simp add: control_refines_transport(1) apfst_def map_prod_def case_prod_beta)
next
  fix cs k got bytes k1 new
  assume "accounted opn base (control_fds cs, k)" "px_recv px (cs_conn_fd cs) 256 k = (got, bytes, k1)"
  then show "accounted opn base (control_fds (cs\<lparr>cs_input := new\<rparr>), k1)"
    using descriptors_simps(9)[OF d, of "cs_conn_fd cs" 256 k] by (auto simp: control_fds_def intro: accounted_same)
next
  fix cs k
  assume "accounted opn base (control_fds cs, k)" "cs_conn_fd cs \<ge> 0"
  then show "accounted opn base (control_fds (cs\<lparr>cs_conn_fd := - 1, cs_input := []\<rparr>), px_close px (cs_conn_fd cs) k)"
    using descriptors_simps(1)[OF d] by (auto simp: control_fds_def accounted_def owned_def)
next
  fix cs b k cs' b' k'
  assume a: "accounted opn base (control_fds cs, k)" and l: "process_lines px cs b k = (cs', b', k')"
  obtain ls r where s: "scan_lines [] (cs_input cs) = (ls, r)" by fastforce
  obtain rs b1 where q: "dialogue ls b = (rs, b1)" by fastforce
  have "opn k' = opn k" "control_fds cs' = control_fds cs"
    using l unfolding process_lines_dialogue[OF s q] by (auto simp: control_fds_def send_descriptors[OF d] split: if_splits)
  then show "accounted opn base (control_fds cs', k')" using accounted_same[OF a] by simp
qed

lemma control_poll_steps:
  assumes "control_poll px cs b k = Some (cs', b', k')" "mass_ok b"
  shows "mass_ok b' \<and> board_step\<^sup>*\<^sup>* b b'"
proof (rule control_poll_keeps[where P = "\<lambda>cs b1 k. mass_ok b1 \<and> board_step\<^sup>*\<^sup>* b b1", OF assms(1)])
  fix cs b1 k cs1 b2 k2
  assume "mass_ok b1 \<and> board_step\<^sup>*\<^sup>* b b1" "process_lines px cs b1 k = (cs1, b2, k2)"
  moreover obtain ls r where "scan_lines [] (cs_input cs) = (ls, r)" by fastforce
  moreover obtain rs b3 where "dialogue ls b1 = (rs, b3)" by fastforce
  ultimately show "mass_ok b2 \<and> board_step\<^sup>*\<^sup>* b b2"
    using dialogue_board[of b1 b ls] process_lines_dialogue[of cs ls r b1 rs b3 px k] by (auto split: if_splits)
qed (use assms(2) in simp_all)

section \<open>Commands in packets\<close>

text \<open>
  What the operating system promises of a connection on which nothing arrives while it is polled: receiving
  takes a beginning of the waiting bytes, and fails or reports the end if there are none. \<open>sends\<close> is what
  has been handed to \<open>send\<close>, call by call.
\<close>

definition packet_stream :: "'k posix \<Rightarrow> (int \<Rightarrow> 'k \<Rightarrow> u8 list) \<Rightarrow> ('k \<Rightarrow> u8 list list) \<Rightarrow> bool" where
  "packet_stream px waiting sends \<longleftrightarrow>
     (\<forall>fd k. case px_recv px fd 256 k of (got, bytes, k') \<Rightarrow>
        sends k' = sends k \<and>
        (if waiting fd k = [] then got \<le> 0
         else 0 < got \<and> got \<le> int (length bytes) \<and> waiting fd k = take (nat got) bytes @ waiting fd k')) \<and>
     (\<forall>fd data k. sends (snd (px_send px fd data k)) = sends k @ [data] \<and> waiting fd (snd (px_send px fd data k)) = waiting fd k) \<and>
     (\<forall>fd k. sends (px_close px fd k) = sends k)"

lemma fold_send_packets:
  "packet_stream px waiting sends \<Longrightarrow>
     sends (fold (send_response px fd) rs k) = sends k @ map (map of_char) rs \<and> waiting fd (fold (send_response px fd) rs k) = waiting fd k"
  by (induction rs arbitrary: k) (simp_all add: send_response_def packet_stream_def)

lemma packet_stream_recv:
  assumes "packet_stream px waiting sends" "px_recv px fd 256 k = (got, bytes, k1)"
  shows "sends k1 = sends k \<and> (if waiting fd k = [] then got \<le> 0
    else 0 < got \<and> got \<le> int (length bytes) \<and> waiting fd k = take (nat got) bytes @ waiting fd k1)"
proof -
  have "case px_recv px fd 256 k of (got, bytes, k') \<Rightarrow> sends k' = sends k \<and> (if waiting fd k = [] then got \<le> 0
         else 0 < got \<and> got \<le> int (length bytes) \<and> waiting fd k = take (nat got) bytes @ waiting fd k')"
    using assms(1) by (simp only: packet_stream_def)
  then show ?thesis by (simp add: assms(2))
qed

lemma process_lines_waiting:
  assumes "packet_stream px waiting sends" "process_lines px cs b k = (cs', b', k')"
  shows "waiting (cs_conn_fd cs) k' = waiting (cs_conn_fd cs) k"
proof -
  obtain ls r where s: "scan_lines [] (cs_input cs) = (ls, r)" by fastforce
  obtain rs b1 where d: "dialogue ls b = (rs, b1)" by fastforce
  have "waiting (cs_conn_fd cs) (send_response px (cs_conn_fd cs) response k) = waiting (cs_conn_fd cs) k" for response k
    using fold_send_packets[OF assms(1), of "cs_conn_fd cs" "[response]"] by simp
  then show ?thesis
    using assms(2) fold_send_packets[OF assms(1)] unfolding process_lines_dialogue[OF s d] by (auto split: if_splits)
qed

lemma chars_of_append: "chars_of (xs @ ys) = chars_of xs @ chars_of ys" by (simp add: chars_of_def)

lemma control_receive_packets:
  assumes "packet_stream px waiting sends" "newline \<notin> set (cs_input cs)"
    "scan_lines [] (cs_input cs @ chars_of (waiting (cs_conn_fd cs) k)) = (ls, r)" "\<forall>x \<in> set (r # ls). length x \<le> 512"
  shows "\<exists>cs' k'. control_receive px cs b k = Some (cs', snd (dialogue ls b), k') \<and>
    sends k' = sends k @ map (map of_char) (fst (dialogue ls b)) \<and> (cs_conn_fd cs' \<ge> 0 \<longrightarrow> cs_input cs' = r)"
  using assms(2-4)
proof (induction "length (waiting (cs_conn_fd cs) k)" arbitrary: cs b k ls rule: less_induct)
  case less
  let ?fd = "cs_conn_fd cs"
  obtain got bytes k1 where rc: "px_recv px ?fd 256 k = (got, bytes, k1)" by (cases "px_recv px ?fd 256 k")
  note contract = conjunct1[OF packet_stream_recv[OF assms(1) rc]] conjunct2[OF packet_stream_recv[OF assms(1) rc]]
  show ?case
  proof (cases "waiting ?fd k = []")
    case True
    have "ls = [] \<and> r = cs_input cs"
      using less.prems(1,2) scan_lines_within[of "cs_input cs" "[]" "[]"] by (simp add: True chars_of_def)
    moreover have "sends (px_close px ?fd k1) = sends k" using assms(1) contract(1) by (simp add: packet_stream_def)
    ultimately show ?thesis using contract True by (simp add: control_receive.simps[of px cs] rc)
  next
    case False
    let ?chunk = "take (nat got) bytes"
    have g: "0 < got" "got \<le> int (length bytes)" and w: "waiting ?fd k = ?chunk @ waiting ?fd k1"
      using contract(2) False by simp_all
    let ?cs1 = "cs\<lparr>cs_input := cs_input cs @ chars_of ?chunk\<rparr>"
    obtain ls1 r1 where s1: "scan_lines [] (cs_input ?cs1) = (ls1, r1)" by fastforce
    obtain ls2 r2 where s2: "scan_lines r1 (chars_of (waiting ?fd k1)) = (ls2, r2)" by fastforce
    have split: "ls = ls1 @ ls2" "r2 = r"
      using less.prems(2) scan_lines_append[of "[]" "cs_input ?cs1" "chars_of (waiting ?fd k1)"] s1 s2 by (simp_all add: w chars_of_append)
    have nl: "newline \<notin> set r1" using scan_lines_rest[of "[]" "cs_input ?cs1"] s1 by simp
    have len: "length r1 \<le> 512" using scan_lines_pending[of r1 "chars_of (waiting ?fd k1)" 512] s2 less.prems(3) split by simp
    obtain rs1 b1 where d1: "dialogue ls1 b = (rs1, b1)" by fastforce
    let ?k2 = "fold (send_response px ?fd) rs1 k1" and ?cs2 = "?cs1\<lparr>cs_input := r1\<rparr>"
    have p: "process_lines px ?cs1 b k1 = (?cs2, b1, ?k2)" using process_lines_dialogue[OF s1 d1] len by simp
    have k2: "sends ?k2 = sends k @ map (map of_char) rs1" "waiting ?fd ?k2 = waiting ?fd k1"
      using fold_send_packets[OF assms(1), of ?fd rs1 k1] contract(1) by simp_all
    have "length (waiting ?fd k1) < length (waiting ?fd k)" using g by (simp add: w)
    moreover have "scan_lines [] (cs_input ?cs2 @ chars_of (waiting ?fd k1)) = (ls2, r)"
      using scan_lines_within[OF nl, of "[]"] s2 split by simp
    ultimately have "\<exists>cs' k'. control_receive px ?cs2 b1 ?k2 = Some (cs', snd (dialogue ls2 b1), k') \<and>
        sends k' = sends ?k2 @ map (map of_char) (fst (dialogue ls2 b1)) \<and> (cs_conn_fd cs' \<ge> 0 \<longrightarrow> cs_input cs' = r)"
      using less.hyps[of ?cs2 ?k2 ls2 b1] nl k2(2) less.prems(3) split by simp
    moreover have "control_receive px cs b k = control_receive px ?cs2 b1 ?k2"
      using g p by (simp add: control_receive.simps[of px cs] rc)
    ultimately show ?thesis by (auto simp: split(1) dialogue_append d1 k2(1))
  qed
qed

section \<open>Properties\<close>

text \<open>
  C26: how commands are cut into packets does not matter. If no line is longer than 512 bytes, polling a
  connection returns, every complete line of what was pending and what has arrived is executed and answered
  once and in order, and the beginning of the next line is kept for the next poll.
\<close>

theorem control_packets_irrelevant:
  assumes "packet_stream px waiting sends" "cs_conn_fd cs \<ge> 0" "newline \<notin> set (cs_input cs)"
    "scan_lines [] (cs_input cs @ chars_of (waiting (cs_conn_fd cs) k)) = (ls, r)" "\<forall>x \<in> set (r # ls). length x \<le> 512"
  shows "\<exists>cs' k'. control_poll px cs b k = Some (cs', snd (dialogue ls b), k') \<and>
    sends k' = sends k @ map (map of_char) (fst (dialogue ls b)) \<and> (cs_conn_fd cs' \<ge> 0 \<longrightarrow> cs_input cs' = r)"
  using control_receive_packets[OF assms(1,3,4,5)] assms(2) by (simp add: control_poll_def control_accept_pending_def)

text \<open>An operating system with packets in a queue, which keeps a list of what is sent.\<close>

definition packet_posix :: "(u8 list list \<times> u8 list list) posix" where
  "packet_posix = \<lparr>px_sun_path = 108, px_o_nonblock = 0x800, px_socket = (\<lambda>k. (3, k)), px_lstat = (\<lambda>_ _. StatMissing),
     px_unlink = (\<lambda>_ k. (0, k)), px_bind = (\<lambda>_ _ k. (0, k)), px_listen = (\<lambda>_ k. (0, k)), px_connect = (\<lambda>_ _ k. (0, k)),
     px_accept = (\<lambda>_ k. (4, k)), px_getfl = (\<lambda>_ k. (2, k)), px_setfl = (\<lambda>_ _ k. (0, k)),
     px_send = (\<lambda>_ bs (q, s). (int (length bs), q, s @ [bs])),
     px_recv = (\<lambda>_ _ (q, s). case dropWhile (\<lambda>p. p = []) q of [] \<Rightarrow> (- 1, [], [], s) | p # ps \<Rightarrow> (int (length p), p, ps, s)),
     px_close = (\<lambda>_ k. k)\<rparr>"

lemma packet_posix_stream: "packet_stream packet_posix (\<lambda>_ k. concat (fst k)) snd"
proof -
  have "case px_recv packet_posix fd 256 (q, s) of (got, bytes, k') \<Rightarrow>
      snd k' = s \<and> (if concat q = [] then got \<le> 0
        else 0 < got \<and> got \<le> int (length bytes) \<and> concat q = take (nat got) bytes @ concat (fst k'))" for fd q s
  proof -
    have c: "concat (dropWhile (\<lambda>p. p = []) q) = concat q" by (induction q) auto
    show ?thesis
    proof (cases "dropWhile (\<lambda>p. p = []) q")
      case Nil
      then show ?thesis using c by (simp add: packet_posix_def del: dropWhile_eq_Nil_conv)
    next
      case (Cons p ps)
      have "p \<noteq> []" using hd_dropWhile[of "\<lambda>p. p = []" q] Cons by simp
      moreover have "concat q = p @ concat ps" using c Cons by simp
      ultimately show ?thesis using Cons by (simp add: packet_posix_def)
    qed
  qed
  then show ?thesis by (simp add: packet_stream_def) (simp add: packet_posix_def case_prod_beta)
qed

theorem control_packets_irrelevant_witness:
  "let b = sim_board_init (sconst 0) (sconst 0); packets = map (map of_char) [''ad'', ''d 100 wa'', ''ter'' @ [newline] @ ''lid op'', ''en'' @ [newline] @ ''l'']
   in \<exists>cs' k'. control_poll packet_posix \<lparr>cs_listen_fd = 3, cs_conn_fd = 4, cs_input = []\<rparr> b (packets, []) =
        Some (cs', snd (dialogue [''add 100 water'', ''lid open''] b), k') \<and> (cs_conn_fd cs' \<ge> 0 \<longrightarrow> cs_input cs' = ''l'')"
proof -
  let ?packets = "map (map of_char) [''ad'', ''d 100 wa'', ''ter'' @ [newline] @ ''lid op'', ''en'' @ [newline] @ ''l'']"
  have "scan_lines [] (chars_of (concat ?packets)) = ([''add 100 water'', ''lid open''], ''l'')" by code_simp
  then show ?thesis
    using control_packets_irrelevant[OF packet_posix_stream, where cs = "\<lparr>cs_listen_fd = 3, cs_conn_fd = 4, cs_input = []\<rparr>"
        and k = "(?packets, [])" and ls = "[''add 100 water'', ''lid open'']" and r = "''l''" and b = "sim_board_init (sconst 0) (sconst 0)"]
    by auto
qed

text \<open>
  Over the control socket nobody overfills the bowl or gets at more than its user could. Whatever the
  operating system delivers, a poll that returns has only put ingredients into the bowl, set the viscosity
  and moved the lid, with never more than 2200 g in the bowl, and has leaked no descriptor.
\<close>

theorem control_poll_safe:
  assumes "descriptors px opn" "accounted opn base (control_fds cs, k)" "mass_ok b" "control_poll px cs b k = Some (cs', b', k')"
  shows "mass_ok b' \<and> board_step\<^sup>*\<^sup>* b b' \<and> accounted opn base (control_fds cs', k')"
  using control_poll_steps[OF assms(4,3)] control_poll_accounted[OF assms(1,2,4)] by simp

theorem control_poll_safe_witness:
  "\<exists>cs' b' k'. control_poll demo_posix \<lparr>cs_listen_fd = 3, cs_conn_fd = 4, cs_input = ''add 1''\<rparr>
      (sim_board_init (sconst 0) (sconst 0)) [0, 1, 2, 3, 4] = Some (cs', b', k') \<and> mass_ok b' \<and> set k' = {0, 1, 2, 3}"
proof -
  let ?cs = "\<lparr>cs_listen_fd = 3, cs_conn_fd = 4, cs_input = ''add 1''\<rparr>" and ?b = "sim_board_init (sconst 0) (sconst 0)"
  have p: "control_poll demo_posix ?cs ?b [0, 1, 2, 3, 4] = Some (?cs\<lparr>cs_conn_fd := - 1, cs_input := []\<rparr>, ?b, [0, 1, 2, 3])"
    by (simp add: control_poll_def control_accept_pending_def control_receive.simps demo_posix_def)
  have "mass_ok ?b" by (simp add: mass_ok_def sim_board_init_def scale_model_init_def)
  moreover have "accounted set {0, 1, 2} (control_fds ?cs, [0, 1, 2, 3, 4])" by (auto simp: accounted_def control_fds_def owned_def)
  ultimately have "mass_ok ?b" "accounted set {0, 1, 2} (control_fds (?cs\<lparr>cs_conn_fd := - 1, cs_input := []\<rparr>), [0, 1, 2, 3])"
    using control_poll_safe[OF demo_descriptors _ _ p] by blast+
  then show ?thesis using p by (auto simp: accounted_def control_fds_def owned_def)
qed

end
