(* ===== verification/Mcu_Process.thy ===== *)
theory Mcu_Process
  imports Control_Server Mcu_Safety Parse_Number
begin

text \<open>
  \<open>src/apps/culina_mcu_main.cpp\<close>: the safety MCU with its simulated board as a process of its own, which
  serves the link and the control socket. The operating system, what happens between two iterations and
  whether the status is due are arguments; what is printed is not modelled. Shown here: the process never
  ends once it has started, whatever arrives on its sockets, and neither the firmware nor the users of the
  control socket ever bring the board into an unsafe state.
\<close>

section \<open>Start\<close>

record mcu_options =
  mo_socket_path :: string
  mo_control_socket_path :: "string option"
  mo_water_g :: f32

definition mcu_options_init :: mcu_options where
  "mcu_options_init = \<lparr>mo_socket_path = ''/tmp/c1link.sock'', mo_control_socket_path = None, mo_water_g = 0\<rparr>"

text \<open>The arguments behind the name of the program; none if they are refused.\<close>

fun mcu_arguments :: "string list \<Rightarrow> mcu_options \<Rightarrow> mcu_options option" where
  "mcu_arguments [] opts = Some opts"
| "mcu_arguments [arg] opts = None"
| "mcu_arguments (arg # val # args) opts =
     (if arg = ''--socket'' then mcu_arguments args (opts\<lparr>mo_socket_path := val\<rparr>)
      else if arg = ''--control-socket'' then mcu_arguments args (opts\<lparr>mo_control_socket_path := Some val\<rparr>)
      else if arg = ''--water''
      then (case app_parse_float (Some val) 0 2200 of
              None \<Rightarrow> None
            | Some water_g \<Rightarrow> mcu_arguments args (opts\<lparr>mo_water_g := water_g\<rparr>))
      else None)"

text \<open>
  The running process: the MCU, which holds the board and the link with the operating system behind it,
  and the control server. A failed start ends with a status; what has been opened is closed on the way out.
\<close>

type_synonym 'k mcu_process = "(sim_board, socket_transport \<times> 'k) safety_mcu \<times> control_server"

definition preloaded_board :: "f32 \<Rightarrow> f32 stream \<Rightarrow> f32 stream \<Rightarrow> sim_board" where
  "preloaded_board water_g scale_noise temp_noise =
     (let b = sim_board_init scale_noise temp_noise in if water_g > 0 then sb_add_mass water_g b else b)"

definition mcu_start ::
  "'k posix \<Rightarrow> string list \<Rightarrow> f32 stream \<Rightarrow> f32 stream \<Rightarrow> 'k \<Rightarrow> (int \<times> 'k) + 'k mcu_process" where
  "mcu_start px args scale_noise temp_noise k =
     (case mcu_arguments args mcu_options_init of
        None \<Rightarrow> Inl (2, k)
      | Some opts \<Rightarrow>
          let board = preloaded_board (mo_water_g opts) scale_noise temp_noise
          in case transport_listen_on px (Some (mo_socket_path opts)) k of
               (link, k1) \<Rightarrow>
                 if \<not> transport_valid link then Inl (1, transport_destroy px link k1)
                 else case control_listen_on px (mo_control_socket_path opts) True k1 of
                        (control, k2) \<Rightarrow>
                          if mo_control_socket_path opts \<noteq> None \<and> \<not> control_valid control
                          then Inl (1, transport_destroy px link (control_destroy px control k2))
                          else Inr (mcu_init (sb_now_ms board) board (link, k2), control))"

section \<open>The loop\<close>

text \<open>One iteration, with what has happened outside since the last one and whether the status is due.\<close>

definition mcu_iteration :: "'k posix \<Rightarrow> ('k \<Rightarrow> 'k) \<times> bool \<Rightarrow> 'k mcu_process \<Rightarrow> 'k mcu_process option" where
  "mcu_iteration px world p =
     (case (world, p) of
        ((happens, status_due), (m, control)) \<Rightarrow>
          case c_uart m of
            (link, k) \<Rightarrow>
              Option.bind (control_poll px control (sb_step_ms 1 (c_hw m)) (happens k))
                (\<lambda>(control', board, k').
                   Option.bind (mcu_tick_1ms sim_hw (socket_uart px) (sb_now_ms board) (m\<lparr>c_hw := board, c_uart := (link, k')\<rparr>))
                     (\<lambda>m'. Some (if status_due then m'\<lparr>c_uart := snd (transport_connected px (c_uart m'))\<rparr> else m', control'))))"

primrec mcu_run :: "'k posix \<Rightarrow> (('k \<Rightarrow> 'k) \<times> bool) list \<Rightarrow> 'k mcu_process \<Rightarrow> 'k mcu_process option" where
  "mcu_run px [] p = Some p"
| "mcu_run px (w # ws) p = Option.bind (mcu_iteration px w p) (mcu_run px ws)"

section \<open>What the MCU keeps of its hardware\<close>

text \<open>A property of the hardware that every operation of the firmware on it keeps.\<close>

locale keeper =
  fixes hw :: "'h hardware" and keeps :: "'h \<Rightarrow> bool"
  assumes operations [simp, intro]: "keeps h \<Longrightarrow> keeps (motor_set_duty hw d h)" "keeps h \<Longrightarrow> keeps (heater_set_power_w hw w h)"
    "keeps h \<Longrightarrow> keeps (snd (read_deci_celsius hw h))" "keeps h \<Longrightarrow> keeps (snd (read_raw hw h))" "keeps h \<Longrightarrow> keeps (lid_set_lock hw l h)"
begin

lemma handle_keeps: "keeps (c_hw c) \<Longrightarrow> keeps (c_hw (handle hw io req inp faulted c))"
  by (rule handle_cases[of req hw io inp faulted c]) (simp_all add: handler_defs Let_def case_prod_beta)

lemma handle_frame_keeps_hw: "keeps (c_hw m) \<Longrightarrow> keeps (c_hw (handle_frame hw io now f m))"
  by (simp add: handle_frame_def Let_def handle_keeps)

lemma enter_fault_keeps: "keeps (c_hw m) \<Longrightarrow> keeps (c_hw (enter_fault hw code m))"
  by (simp add: enter_fault_def case_prod_beta)

lemma sample_keeps: "keeps (c_hw m) \<Longrightarrow> keeps (c_hw (mcu_sample hw m))"
  by (simp add: mcu_sample_def sample_inputs_def Let_def case_prod_beta enter_fault_keeps)

lemma finish_keeps: "keeps (c_hw m) \<Longrightarrow> keeps (c_hw (mcu_finish hw io now m))"
  by (simp add: mcu_finish_def case_prod_beta report_simps actuate_simps(11) supervise_def Let_def enter_fault_keeps)

lemma process_frames_keeps:
  assumes "process_frames hw io now m = Some m'" "keeps (c_hw m)"
  shows "keeps (c_hw m')"
proof -
  let ?goal = "\<lambda>hw' io now m m'. hw' = hw \<longrightarrow> keeps (c_hw m) \<longrightarrow> keeps (c_hw m')"
  have "?goal hw io now m m'"
  proof (rule process_frames.raw_induct[where P = ?goal, OF _ assms(1)])
    fix f hw' io now m m'
    assume IH: "\<And>hw' io now m m'. f hw' io now m = Some m' \<Longrightarrow> ?goal hw' io now m m'"
      and eq: "Option.bind (link_poll io now (c_link m) (c_uart m))
       (\<lambda>(out, lk, u). case out of
            None \<Rightarrow> Some (m\<lparr>c_link := lk, c_uart := u\<rparr>)
          | Some fr \<Rightarrow> f hw' io now (handle_frame hw' io now fr (m\<lparr>c_link := lk, c_uart := u\<rparr>))) = Some m'"
    show "?goal hw' io now m m'"
      using eq IH handle_frame_keeps_hw[of "m\<lparr>c_link := _, c_uart := _\<rparr>"]
      by (auto simp: bind_eq_Some_conv split: option.splits)
  qed
  then show ?thesis using assms(2) by blast
qed

lemma tick_keeps: "mcu_tick_1ms hw io now m = Some m' \<Longrightarrow> keeps (c_hw m) \<Longrightarrow> keeps (c_hw m')"
  by (auto simp: mcu_tick_1ms_def intro: finish_keeps process_frames_keeps sample_keeps)

end

definition board_ok :: "sim_board \<Rightarrow> bool" where
  "board_ok b \<longleftrightarrow> board_inv b \<and> mass_ok b"

lemma mass_ok_frame:
  "mass_ok (motor_set_duty sim_hw d b) = mass_ok b" "mass_ok (heater_set_power_w sim_hw w b) = mass_ok b"
  "mass_ok (snd (read_deci_celsius sim_hw b)) = mass_ok b" "mass_ok (snd (read_raw sim_hw b)) = mass_ok b"
  "mass_ok (lid_set_lock sim_hw l b) = mass_ok b" "mass_ok (sb_step_1ms b) = mass_ok b"
  by (auto simp: mass_ok_def sim_hw_def heater_hal_set_power_w_def temp_hal_read_def scale_hal_read_def sb_step_1ms_def Let_def
      sc_read_raw_counts_def sc_step_def split: prod.splits)

interpretation firm: keeper sim_hw board_ok
  by unfold_locales (auto simp: board_ok_def mass_ok_frame intro: board_step_inv board_step.intros)

section \<open>The board of the process\<close>

lemma app_parse_float_range: "app_parse_float txt lo hi = Some v \<Longrightarrow> lo \<le> v \<and> v \<le> hi"
  by (auto simp: app_parse_float_def split: option.splits prod.splits float_value.splits if_splits)

lemma mcu_arguments_water:
  "mcu_arguments args opts = Some opts' \<Longrightarrow> 0 \<le> mo_water_g opts \<and> mo_water_g opts \<le> 2200 \<Longrightarrow>
     0 \<le> mo_water_g opts' \<and> mo_water_g opts' \<le> 2200"
  by (induction args opts rule: mcu_arguments.induct) (auto dest: app_parse_float_range split: if_splits option.splits)

lemma preloaded_board_ok:
  assumes "0 \<le> w" "w \<le> 2200"
  shows "board_ok (preloaded_board w sn tn)"
proof -
  let ?b = "sim_board_init sn tn"
  have m: "sc_true_mass_g (sb_scale ?b) = 0" by (simp add: sim_board_init_def scale_model_init_def)
  have "rnd 2200 = 2200" using rnd_of_int[of 2200] by simp
  then have "mass_ok (sb_add_mass w ?b)"
    using bowl_not_overfilled[of 0 w] assms by (simp add: mass_ok_def sb_add_mass_def sc_add_mass_def m fsub_def)
  moreover have "board_inv (sb_add_mass w ?b)" using board_step_inv[OF board_step.add board_inv_init] .
  ultimately show ?thesis
    using m by (simp add: preloaded_board_def Let_def board_ok_def board_inv_init mass_ok_def)
qed

lemma mcu_start_board: "mcu_start px args sn tn k = Inr (m, control) \<Longrightarrow> board_ok (c_hw m)"
  using mcu_arguments_water[of args mcu_options_init] preloaded_board_ok
  by (auto simp: mcu_start_def Let_def mcu_options_init_def mcu_init_def split: option.splits prod.splits if_splits)

lemma board_ok_steps: "board_step\<^sup>*\<^sup>* b b' \<Longrightarrow> board_inv b \<Longrightarrow> board_inv b'"
  by (induction rule: rtranclp_induct) (auto intro: board_step_inv)

lemma control_poll_board:
  assumes "control_poll px cs b k = Some (cs', b', k')" "board_ok b"
  shows "board_ok b'"
proof -
  have "mass_ok b' \<and> board_step\<^sup>*\<^sup>* b b'" by (rule control_poll_steps[OF assms(1)]) (use assms(2) in \<open>simp add: board_ok_def\<close>)
  then show ?thesis using assms(2) board_ok_steps by (auto simp: board_ok_def)
qed

lemma mcu_iteration_board:
  assumes "mcu_iteration px w (m, control) = Some (m', control')" "board_ok (c_hw m)"
  shows "board_ok (c_hw m')"
proof -
  obtain happens due link k where w: "w = (happens, due)" "c_uart m = (link, k)" by (metis surj_pair)
  have step: "board_ok (sb_step_ms 1 (c_hw m))"
    using assms(2) board_step_inv[OF board_step.time] by (simp add: sb_step_ms_def board_ok_def mass_ok_frame)
  obtain control1 board k1 m1 where p: "control_poll px control (sb_step_ms 1 (c_hw m)) (happens k) = Some (control1, board, k1)"
    "mcu_tick_1ms sim_hw (socket_uart px) (sb_now_ms board) (m\<lparr>c_hw := board, c_uart := (link, k1)\<rparr>) = Some m1"
    "c_hw m' = c_hw m1"
    using assms(1) by (auto simp: mcu_iteration_def w bind_eq_Some_conv split: if_splits)
  show ?thesis using firm.tick_keeps[OF p(2)] control_poll_board[OF p(1) step] p(3) by simp
qed

lemma mcu_run_board:
  "mcu_run px ws (m, control) = Some (m', control') \<Longrightarrow> board_ok (c_hw m) \<Longrightarrow> board_ok (c_hw m')"
proof (induction ws arbitrary: m control)
  case (Cons w ws)
  then obtain m1 control1 where "mcu_iteration px w (m, control) = Some (m1, control1)" "mcu_run px ws (m1, control1) = Some (m', control')"
    by (auto simp: bind_eq_Some_conv)
  then show ?case using Cons mcu_iteration_board by blast
qed simp

section \<open>Both sockets as the operating system serves them\<close>

text \<open>
  What the operating system promises of a listening socket while it is polled: accepting fails and goes on
  failing if nobody has connected, an accepted descriptor can be configured, and when a connection has
  ended, its successor comes after the poll at the earliest.
\<close>

definition listener_stream :: "'k posix \<Rightarrow> (int \<Rightarrow> 'k \<Rightarrow> u8 list) \<Rightarrow> ('k \<Rightarrow> u8 list) \<Rightarrow> bool" where
  "listener_stream px waiting sent \<longleftrightarrow>
     byte_stream px waiting sent \<and>
     (\<forall>fd k. case px_accept px fd k of (c, k1) \<Rightarrow>
        sent k1 = sent k \<and>
        (if c < 0 then fst (px_accept px fd k1) < 0 else fst (set_nonblocking px c k1) \<and> sent (snd (set_nonblocking px c k1)) = sent k1)) \<and>
     (\<forall>fd l k. case px_recv px fd 1 k of (got, bytes, k1) \<Rightarrow> got = 0 \<longrightarrow> fst (px_accept px l (px_close px fd k1)) < 0)"

definition listener_rx :: "'k posix \<Rightarrow> (int \<Rightarrow> 'k \<Rightarrow> u8 list) \<Rightarrow> socket_transport \<times> 'k \<Rightarrow> u8 list" where
  "listener_rx px waiting tk = line_rx waiting (transport_accept_pending px tk)"

text \<open>Accepting is done once: either a connection is there, or none comes.\<close>

lemma accept_settles:
  assumes "listener_stream px waiting sent"
  obtains t k where "transport_accept_pending px tk = (t, k)"
    "so_conn_fd t < 0 \<Longrightarrow> listener_rx px waiting (t, k) = []" "so_conn_fd t \<ge> 0 \<Longrightarrow> transport_accept_pending px (t, k) = (t, k)"
    "sent k = line_tx sent tk"
proof -
  obtain t0 k0 where tk: "tk = (t0, k0)" by (cases tk)
  show thesis
  proof (cases "so_listen_fd t0 < 0 \<or> so_conn_fd t0 \<ge> 0")
    case True
    then show ?thesis using that[of t0 k0] by (auto simp: tk transport_accept_pending_def listener_rx_def line_rx_def line_tx_def)
  next
    case False
    obtain c k1 where a: "px_accept px (so_listen_fd t0) k0 = (c, k1)" by fastforce
    have c: "sent k1 = sent k0" "if c < 0 then fst (px_accept px (so_listen_fd t0) k1) < 0
        else fst (set_nonblocking px c k1) \<and> sent (snd (set_nonblocking px c k1)) = sent k1"
      using assms a unfolding listener_stream_def by (force split: prod.splits)+
    show ?thesis
    proof (cases "c < 0")
      case True
      then obtain c2 k2 where "px_accept px (so_listen_fd t0) k1 = (c2, k2)" "c2 < 0" using c(2) by (cases "px_accept px (so_listen_fd t0) k1") auto
      then show ?thesis
        using True False c(1) that[of t0 k1] by (auto simp: tk transport_accept_pending_def a listener_rx_def line_rx_def line_tx_def)
    next
      case c0: False
      then obtain k2 where "set_nonblocking px c k1 = (True, k2)" "sent k2 = sent k0" using c by (cases "set_nonblocking px c k1") auto
      then show ?thesis
        using False c0 that[of "t0\<lparr>so_conn_fd := c\<rparr>" k2] by (auto simp: tk transport_accept_pending_def a line_tx_def)
    qed
  qed
qed

lemma listener_uart_contract:
  assumes l: "listener_stream px waiting sent"
  shows "uart (socket_uart px) (listener_rx px waiting) (line_tx sent) (\<lambda>_. True)"
proof unfold_locales
  fix u :: "socket_transport \<times> 'a"
  obtain t k where a: "transport_accept_pending px u = (t, k)" "so_conn_fd t < 0 \<Longrightarrow> listener_rx px waiting (t, k) = []"
    "so_conn_fd t \<ge> 0 \<Longrightarrow> transport_accept_pending px (t, k) = (t, k)" "sent k = line_tx sent u"
    using accept_settles[OF l, of u] by blast
  have s: "byte_stream px waiting sent" using l by (simp add: listener_stream_def)
  obtain got bytes k1 where r: "px_recv px (so_conn_fd t) 1 k = (got, bytes, k1)" by (metis prod.collapse)
  have b: "sent k1 = sent k" "case waiting (so_conn_fd t) k of [] \<Rightarrow> got \<le> 0 \<and> waiting (so_conn_fd t) k1 = []
      | b # bs \<Rightarrow> got = 1 \<and> bytes = [b] \<and> waiting (so_conn_fd t) k1 = bs" "\<And>fd k. sent (px_close px fd k) = sent k"
    using s r unfolding byte_stream_def by (force split: prod.splits)+
  have e: "got = 0 \<Longrightarrow> fst (px_accept px fd (px_close px (so_conn_fd t) k1)) < 0" for fd
    using l r unfolding listener_stream_def by (metis (mono_tags, lifting) case_prod_conv)
  have read: "uart_read (socket_uart px) u = (if so_conn_fd t < 0 then (None, t, k) else if got = 1 then (Some (hd bytes), t, k1)
      else if got = 0 then (None, t\<lparr>so_conn_fd := - 1\<rparr>, px_close px (so_conn_fd t) k1) else (None, t, k1))"
    unfolding socket_uart_def uart_ops.simps transport_read_def a(1) prod.case r ..
  have same: "so_conn_fd t \<ge> 0 \<Longrightarrow> listener_rx px waiting (t, k') = waiting (so_conn_fd t) k'" for k'
    by (simp add: listener_rx_def transport_accept_pending_def line_rx_def)
  have rx: "listener_rx px waiting u = (if so_conn_fd t < 0 then [] else waiting (so_conn_fd t) k)"
    by (simp add: listener_rx_def a(1) line_rx_def)
  have closed: "got = 0 \<Longrightarrow> listener_rx px waiting (t\<lparr>so_conn_fd := - 1\<rparr>, px_close px (so_conn_fd t) k1) = []"
    using e[of "so_listen_fd t"] by (auto simp: listener_rx_def transport_accept_pending_def line_rx_def split: prod.split)
  show "listener_rx px waiting u = [] \<Longrightarrow> \<exists>u'. uart_read (socket_uart px) u = (None, u') \<and> True \<and>
      listener_rx px waiting u' = [] \<and> line_tx sent u' = line_tx sent u"
  proof (cases "so_conn_fd t < 0")
    case True
    then show ?thesis using a read by (simp add: line_tx_def)
  next
    case False
    assume "listener_rx px waiting u = []"
    then have "waiting (so_conn_fd t) k = []" using rx False by simp
    then show ?thesis using False b read same closed a(4) by (cases "got = 0") (auto simp: line_tx_def)
  qed
  show "listener_rx px waiting u = x # xs \<Longrightarrow> \<exists>u'. uart_read (socket_uart px) u = (Some x, u') \<and> True \<and>
      listener_rx px waiting u' = xs \<and> line_tx sent u' = line_tx sent u" for x xs
    using b read same a(4) rx by (auto simp: line_tx_def split: if_splits)
  fix data
  obtain n k2 where w: "px_send px (so_conn_fd t) data k = (n, k2)" by fastforce
  have c: "n \<le> int (length data)" "sent k2 = sent k @ take (nat n) data" "waiting (so_conn_fd t) k2 = waiting (so_conn_fd t) k"
    using s w unfolding byte_stream_def by (force split: prod.splits)+
  have "uart_write (socket_uart px) data u = (if so_conn_fd t < 0 then (0, t, k) else if n < 0 then (0, t, k2) else (nat n, t, k2))"
    unfolding socket_uart_def uart_ops.simps transport_write_def a(1) prod.case w ..
  then show "\<exists>n u'. uart_write (socket_uart px) data u = (n, u') \<and> True \<and> n \<le> length data \<and>
      line_tx sent u' = line_tx sent u @ take n data \<and> listener_rx px waiting u' = listener_rx px waiting u"
    using c rx same a(2,4) by (auto simp: line_tx_def)
qed

section \<open>Polling returns\<close>

lemma control_receive_returns:
  assumes "packet_stream px waiting sends"
  shows "\<exists>r. control_receive px cs b k = Some r"
proof (induction "length (waiting (cs_conn_fd cs) k)" arbitrary: cs b k rule: less_induct)
  case less
  let ?fd = "cs_conn_fd cs"
  obtain got bytes k1 where rc: "px_recv px ?fd 256 k = (got, bytes, k1)" by (cases "px_recv px ?fd 256 k")
  have contract: "if waiting ?fd k = [] then got \<le> 0
      else 0 < got \<and> got \<le> int (length bytes) \<and> waiting ?fd k = take (nat got) bytes @ waiting ?fd k1"
    using packet_stream_recv[OF assms rc] by simp
  show ?case
  proof (cases "got > 0")
    case True
    let ?cs1 = "cs\<lparr>cs_input := cs_input cs @ chars_of (take (nat got) bytes)\<rparr>"
    obtain cs' b' k' where l: "process_lines px ?cs1 b k1 = (cs', b', k')" by (cases "process_lines px ?cs1 b k1")
    have "waiting ?fd k' = waiting ?fd k1" "cs_conn_fd cs' = ?fd"
      using process_lines_waiting[OF assms l] process_lines_conn[OF l] by simp_all
    moreover have "length (waiting ?fd k1) < length (waiting ?fd k)" using contract True by (auto split: if_splits)
    ultimately have "\<exists>r. control_receive px cs' b' k' = Some r" using less[of cs' k' b'] by simp
    then show ?thesis using True l by (simp add: control_receive.simps[of px cs] rc)
  qed (simp add: control_receive.simps[of px cs] rc)
qed

lemma control_poll_returns: "packet_stream px waiting sends \<Longrightarrow> \<exists>cs' b' k'. control_poll px cs b k = Some (cs', b', k')"
  using control_receive_returns by (simp add: control_poll_def split: prod.split) fast

lemma mcu_iteration_returns:
  assumes c: "packet_stream px waiting sends" and l: "listener_stream px waiting sent" and m: "mcu_inv m"
  shows "\<exists>m' control'. mcu_iteration px w (m, control) = Some (m', control') \<and> mcu_inv m'"
proof -
  obtain happens due link k where w: "w = (happens, due)" "c_uart m = (link, k)" by (metis surj_pair)
  obtain control1 board k1 where p: "control_poll px control (sb_step_ms 1 (c_hw m)) (happens k) = Some (control1, board, k1)"
    using control_poll_returns[OF c] by blast
  have e: "mcu_env (socket_uart px) (listener_rx px waiting) (line_tx sent) (\<lambda>_. True) sim_hw (\<lambda>b. mm_duty (sb_motor b))"
    using listener_uart_contract[OF l] sim_act.actuators_axioms by (simp add: mcu_env_def)
  obtain m1 where t: "mcu_tick_1ms sim_hw (socket_uart px) (sb_now_ms board) (m\<lparr>c_hw := board, c_uart := (link, k1)\<rparr>) = Some m1" "mcu_inv m1"
    using mcu_env.tick_returns[OF e, of "m\<lparr>c_hw := board, c_uart := (link, k1)\<rparr>"] m by (auto simp: mcu_inv_def mcu_off_def)
  have "mcu_inv (m1\<lparr>c_uart := u\<rparr>)" for u using t(2) by (simp add: mcu_inv_def mcu_off_def)
  then show ?thesis using t(2) by (simp add: mcu_iteration_def w p t(1) del: One_nat_def)
qed

lemma mcu_run_returns:
  assumes "packet_stream px waiting sends" "listener_stream px waiting sent" "mcu_inv m"
  shows "\<exists>m' control'. mcu_run px ws (m, control) = Some (m', control') \<and> mcu_inv m'"
  using assms(3)
proof (induction ws arbitrary: m control)
  case (Cons w ws)
  obtain m1 control1 where i: "mcu_iteration px w (m, control) = Some (m1, control1)" "mcu_inv m1"
    using mcu_iteration_returns[OF assms(1,2) Cons.prems] by blast
  then show ?case using Cons.IH[OF i(2), of control1] by simp
qed simp

lemma mcu_start_inv: "mcu_start px args sn tn k = Inr (m, control) \<Longrightarrow> mcu_inv m"
  by (auto simp: mcu_start_def Let_def mcu_inv_init split: option.splits prod.splits if_splits)

section \<open>Properties\<close>


text \<open>An operating system with a queue of bytes, and the list of what has been handed to \<open>send\<close>.\<close>

definition queue_posix :: "(u8 list \<times> u8 list list) posix" where
  "queue_posix = \<lparr>px_sun_path = 108, px_o_nonblock = 0x800, px_socket = (\<lambda>k. (3, k)), px_lstat = (\<lambda>_ _. StatMissing),
     px_unlink = (\<lambda>_ k. (0, k)), px_bind = (\<lambda>_ _ k. (0, k)), px_listen = (\<lambda>_ k. (0, k)), px_connect = (\<lambda>_ _ k. (0, k)),
     px_accept = (\<lambda>_ k. (4, k)), px_getfl = (\<lambda>_ k. (2, k)), px_setfl = (\<lambda>_ _ k. (0, k)),
     px_send = (\<lambda>_ bs (q, s). (int (length bs), q, s @ [bs])),
     px_recv = (\<lambda>_ n (q, s). if q = [] then (- 1, [], q, s) else (int (min n (length q)), take n q, drop n q, s)),
     px_close = (\<lambda>_ k. k)\<rparr>"

lemma queue_posix_contract:
  "packet_stream queue_posix (\<lambda>_ k. fst k) snd" "listener_stream queue_posix (\<lambda>_ k. fst k) (\<lambda>k. concat (snd k))"
  by (auto simp: packet_stream_def listener_stream_def byte_stream_def queue_posix_def set_nonblocking_def min_def neq_Nil_conv
      split: list.split)

text \<open>Starting a process over it.\<close>

lemmas start_simps = mcu_start_def mcu_options_init_def transport_listen_on_def control_listen_on_def path_refused_def
  clear_path_def bind_and_listen_def set_nonblocking_def transport_valid_def control_valid_def control_server_at_def Let_def


text \<open>
  C27: nothing on the sockets of the MCU process brings the board into an unsafe state. Whatever the
  operating system does, with or without a contract, the bowl of a started process holds between 0 and
  2200 g, a locked lid is closed, the speed is at most 10,700 RPM and the heater power at most 1200 W.
\<close>

theorem mcu_process_board_safe:
  assumes "mcu_start px args sn tn k = Inr p" "mcu_run px ws p = Some (m, control)"
  shows "0 \<le> sc_true_mass_g (sb_scale (c_hw m)) \<and> sc_true_mass_g (sb_scale (c_hw m)) \<le> 2200 \<and>
    (lid_locked (sb_lid (c_hw m)) \<longrightarrow> lid_closed (sb_lid (c_hw m))) \<and>
    unat (mm_rpm_reading (sb_motor (c_hw m))) \<le> 10700 \<and> 0 \<le> sb_heater_watts (c_hw m) \<and> sb_heater_watts (c_hw m) \<le> 1200"
proof -
  obtain m0 control0 where p: "p = (m0, control0)" by (cases p)
  have "board_ok (c_hw m)" using mcu_run_board[OF assms(2)[unfolded p] mcu_start_board[OF assms(1)[unfolded p]]] .
  then show ?thesis using mm_rpm_reading_bound by (auto simp: board_ok_def board_inv_def mass_ok_def lid_inv_def)
qed

theorem mcu_process_board_safe_witness:
  "\<exists>p m control. mcu_start queue_posix [''--control-socket'', ''/tmp/c.sock''] (sconst 0) (sconst 0) (map of_char (''add 100 oil'' @ [newline]), []) = Inr p \<and>
     mcu_run queue_posix (replicate 100 (\<lambda>(q, s). (q @ map of_char (''add 100 oil'' @ [newline]), s), False)) p = Some (m, control) \<and>
     sc_true_mass_g (sb_scale (c_hw m)) \<le> 2200"
proof -
  let ?ws = "replicate 100 (\<lambda>(q, s). (q @ map of_char (''add 100 oil'' @ [newline]), s), False)"
  obtain p where p: "mcu_start queue_posix [''--control-socket'', ''/tmp/c.sock''] (sconst 0) (sconst 0) (map of_char (''add 100 oil'' @ [newline]), []) = Inr p"
    by (simp add: start_simps queue_posix_def)
  obtain m0 control0 where p0: "p = (m0, control0)" by (cases p)
  obtain m control where r: "mcu_run queue_posix ?ws p = Some (m, control)"
    using mcu_run_returns[OF queue_posix_contract mcu_start_inv[OF p[unfolded p0]], of ?ws control0] unfolding p0 by blast
  show ?thesis using p r mcu_process_board_safe[OF p r] by blast
qed

text \<open>
  A start that fails leaves nothing open. Whatever argument, path or system call is the reason, the
  status is 1 or 2 and the open descriptors are the ones before.
\<close>

theorem mcu_start_fails_clean:
  assumes "descriptors px opn" "mcu_start px args sn tn k = Inl (code, k')"
  shows "code \<in> {1, 2} \<and> opn k' = opn k"
proof (cases "mcu_arguments args mcu_options_init")
  case None
  then show ?thesis using assms(2) by (simp add: mcu_start_def)
next
  case (Some opts)
  obtain link k1 where l: "transport_listen_on px (Some (mo_socket_path opts)) k = (link, k1)" by fastforce
  obtain control k2 where c: "control_listen_on px (mo_control_socket_path opts) True k1 = (control, k2)" by fastforce
  have a: "accounted opn (opn k) (link, k1)" using listen_on_accounted[OF assms(1), of k] l by metis
  have "opn (control_destroy px control k2) = opn k1"
    by (rule control_destroy_opn[OF assms(1) control_listen_accounted[OF assms(1) c]])
  then have "opn (transport_destroy px link (control_destroy px control k2)) = opn k" "opn (transport_destroy px link k1) = opn k"
    using destroy_accounted[OF assms(1)] accounted_same[OF a] a by blast+
  then show ?thesis using assms(2) by (auto simp: mcu_start_def Some l c Let_def split: if_splits)
qed

theorem mcu_start_fails_clean_witness:
  "\<exists>k'. mcu_start demo_posix [''--control-socket'', replicate 200 (CHR ''x'')] (sconst 0) (sconst 0) [0, 1, 2] = Inl (1, k') \<and> set k' = {0, 1, 2}"
proof -
  obtain k' where k: "mcu_start demo_posix [''--control-socket'', replicate 200 (CHR ''x'')] (sconst 0) (sconst 0) [0, 1, 2] = Inl (1, k')"
    by (simp add: start_simps demo_posix_def)
  show ?thesis using mcu_start_fails_clean[OF demo_descriptors k] k by simp
qed

end
