(* ===== verification/View_Model.thy ===== *)
theory View_Model
  imports System_Sim
begin

text \<open>
  \<open>src/apps/ui/device_view_model.cpp\<close>: the object behind the desktop user interface. It runs the
  application firmware on a 1 ms timer over a socket to the MCU process, checks the user's input, sends
  commands to the simulator's control socket, and shuts down with a deadline. Qt is not part of the program:
  its local socket and its text functions are a record of operations, a \<open>QString\<close> is a character list, and
  the signals are a list. Shown here: nothing out of range is started, and shutting down ends after a
  second at the latest, before that only behind an acknowledged stop; the deadline fails at the wrap-around
  of the clock.
\<close>

section \<open>State\<close>

text \<open>\<open>QLocalSocket\<close>, and trimming and formatting of texts: a number with one decimal.\<close>

record 'q qt =
  qt_connected :: "'q \<Rightarrow> bool"
  qt_connect_to :: "string \<Rightarrow> 'q \<Rightarrow> 'q"
  qt_write :: "string \<Rightarrow> 'q \<Rightarrow> int \<times> 'q"
  qt_flush :: "'q \<Rightarrow> 'q"
  qt_can_read_line :: "'q \<Rightarrow> bool"
  qt_read_line :: "'q \<Rightarrow> string \<times> 'q"
  qt_trimmed :: "string \<Rightarrow> string"
  qt_one_decimal :: "rat \<Rightarrow> string"

datatype view_signal = StateChanged | ShutdownComplete

text \<open>The watchdog of this process does nothing, so the runtime needs no state for it.\<close>

record ('u, 'q) view_model =
  vm_now_us :: micros
  vm_runtime :: "('u, unit) app_runtime"
  vm_control :: 'q
  vm_timer_active :: bool
  vm_recipe_names :: "string list"
  vm_simulator_status :: string
  vm_connected :: bool
  vm_shutdown_requested :: bool
  vm_ready_to_quit :: bool
  vm_shutdown_deadline_ms :: millis
  vm_refresh_divider :: int
  vm_signals :: "view_signal list"

definition vm_now :: "('u, 'q) view_model \<Rightarrow> millis" where
  "vm_now vm = to_millis (vm_now_us vm)"

definition vm_session :: "('u, 'q) view_model \<Rightarrow> ('u, unit) session" where
  "vm_session vm = ar_session (vm_runtime vm)"

definition set_session :: "('u, unit) session \<Rightarrow> ('u, 'q) view_model \<Rightarrow> ('u, 'q) view_model" where
  "set_session k vm = vm\<lparr>vm_runtime := (vm_runtime vm)\<lparr>ar_session := k\<rparr>\<rparr>"

definition set_client :: "'u mcu_client \<Rightarrow> ('u, 'q) view_model \<Rightarrow> ('u, 'q) view_model" where
  "set_client c vm = set_session ((vm_session vm)\<lparr>k_client := c\<rparr>) vm"

definition emit :: "view_signal \<Rightarrow> ('u, 'q) view_model \<Rightarrow> ('u, 'q) view_model" where
  "emit s vm = vm\<lparr>vm_signals := vm_signals vm @ [s]\<rparr>"

definition app_watchdog_feed :: "millis \<Rightarrow> unit \<Rightarrow> unit" where
  "app_watchdog_feed now w = w"

definition view_refresh :: "('u \<Rightarrow> bool \<times> 'u) \<Rightarrow> ('u, 'q) view_model \<Rightarrow> ('u, 'q) view_model" where
  "view_refresh link_up vm =
     (case link_up (cl_uart (k_client (vm_session vm))) of
        (up, u) \<Rightarrow> emit StateChanged ((set_client ((k_client (vm_session vm))\<lparr>cl_uart := u\<rparr>) vm)\<lparr>vm_connected := up\<rparr>))"

definition view_model_new ::
  "'q qt \<Rightarrow> ('u \<Rightarrow> bool \<times> 'u) \<Rightarrow> (string \<Rightarrow> string list option) \<Rightarrow> (string \<Rightarrow> c_file option) \<Rightarrow>
   'u \<Rightarrow> string \<Rightarrow> string \<Rightarrow> 'q \<Rightarrow> ('u, 'q) view_model" where
  "view_model_new qt link_up opendir fopen u control_socket recipe_dir q =
     (let a = app_runtime_init u ();
          (st, lib) = load_directory opendir fopen recipe_dir (ar_recipes a);
          names = (if st = Ok then map (\<lambda>i. r_name (lib_recipes lib ! i)) [0..<lib_count lib] else [])
      in view_refresh link_up
           \<lparr>vm_now_us = 0, vm_runtime = a\<lparr>ar_recipes := lib\<rparr>, vm_control = qt_connect_to qt control_socket q,
            vm_timer_active = True, vm_recipe_names = names, vm_simulator_status = [], vm_connected = False,
            vm_shutdown_requested = False, vm_ready_to_quit = False, vm_shutdown_deadline_ms = 0,
            vm_refresh_divider = 0, vm_signals = []\<rparr>)"

section \<open>What the interface shows\<close>

definition fault_name :: "fault_code \<Rightarrow> string" where
  "fault_name f =
     (case f of
        FaultNone \<Rightarrow> []
      | Overtemp \<Rightarrow> ''Over-temperature''
      | MotorStall \<Rightarrow> ''Motor stalled''
      | SensorFailure \<Rightarrow> ''Temperature sensor failure''
      | LinkLost \<Rightarrow> ''MCU link lost''
      | FaultOther _ \<Rightarrow> ''Unknown fault'')"

definition vm_latest :: "('u, 'q) view_model \<Rightarrow> sample" where
  "vm_latest vm = store_latest (cl_store (k_client (vm_session vm)))"

definition view_session_state :: "('u, 'q) view_model \<Rightarrow> string" where
  "view_session_state vm = session_state_name (k_state (vm_session vm))"

definition view_program_name :: "('u, 'q) view_model \<Rightarrow> string" where
  "view_program_name vm = session_program_name (vm_session vm)"

definition view_program_status :: "('u, 'q) view_model \<Rightarrow> string" where
  "view_program_status vm = session_program_status (vm_session vm)"

definition view_temperature :: "('u, 'q) view_model \<Rightarrow> f32" where
  "view_temperature vm = k_display_avg_temp_c (vm_session vm)"

definition view_weight :: "('u, 'q) view_model \<Rightarrow> int" where
  "view_weight vm = sint (s_grams (vm_latest vm))"

definition view_rpm :: "('u, 'q) view_model \<Rightarrow> int" where
  "view_rpm vm = uint (s_rpm (vm_latest vm))"

definition view_lid_state :: "('u, 'q) view_model \<Rightarrow> string" where
  "view_lid_state vm =
     (let flags = s_flags (vm_latest vm)
      in if flags AND kFlagLidLocked \<noteq> 0 then ''locked''
         else if flags AND kFlagLidClosed \<noteq> 0 then ''closed'' else ''open'')"

definition view_hot_bowl :: "('u, 'q) view_model \<Rightarrow> bool" where
  "view_hot_bowl vm = k_hot_bowl (vm_session vm)"

definition view_fault :: "('u, 'q) view_model \<Rightarrow> string" where
  "view_fault vm = fault_name (cl_last_fault (k_client (vm_session vm)))"

definition view_awaiting_user :: "('u, 'q) view_model \<Rightarrow> bool" where
  "view_awaiting_user vm = session_awaiting_user (vm_session vm)"

definition view_has_telemetry :: "('u, 'q) view_model \<Rightarrow> bool" where
  "view_has_telemetry vm = store_has_data (cl_store (k_client (vm_session vm)))"

definition session_progress_current :: "('u, 'w) session \<Rightarrow> nat" where
  "session_progress_current k = (case k_program k of None \<Rightarrow> 0 | Some p \<Rightarrow> program_progress_current p)"

definition session_progress_total :: "('u, 'w) session \<Rightarrow> nat" where
  "session_progress_total k = (case k_program k of None \<Rightarrow> 0 | Some p \<Rightarrow> program_progress_total p)"

definition view_progress_current :: "('u, 'q) view_model \<Rightarrow> int" where
  "view_progress_current vm =
     (let n = session_progress_current (vm_session vm) in if n > 2 ^ 31 - 1 then 2 ^ 31 - 1 else int n)"

definition view_progress_total :: "('u, 'q) view_model \<Rightarrow> int" where
  "view_progress_total vm =
     (let n = session_progress_total (vm_session vm) in if n > 2 ^ 31 - 1 then 2 ^ 31 - 1 else int n)"

section \<open>User actions\<close>

text \<open>Floating-point input in double precision: none if it is not a finite number.\<close>

definition view_start_manual :: "rat option \<Rightarrow> int \<Rightarrow> int \<Rightarrow> ('u, 'q) view_model \<Rightarrow> bool \<times> ('u, 'q) view_model" where
  "view_start_manual temperature_c speed minutes vm =
     (case temperature_c of
        None \<Rightarrow> (False, vm)
      | Some t \<Rightarrow>
          if \<not> vm_connected vm \<or> speed < 0 \<or> speed > 10 \<or> minutes < 1 \<or> minutes > 1440 \<or> (t \<noteq> 0 \<and> (t < 37 \<or> t > 160))
          then (False, vm)
          else (case start_manual (from_celsius (rnd t)) (of_int speed) (of_int minutes * 60) (vm_session vm) of
                  (st, k) \<Rightarrow> (st = Ok, set_session k vm)))"

definition view_start_recipe :: "int \<Rightarrow> ('u, 'q) view_model \<Rightarrow> bool \<times> ('u, 'q) view_model" where
  "view_start_recipe index vm =
     (if \<not> vm_connected vm \<or> index < 0 then (False, vm)
      else case library_at (nat index) (ar_recipes (vm_runtime vm)) of
             None \<Rightarrow> (False, vm)
           | Some r \<Rightarrow> (case start_recipe (Some r) (vm_session vm) of (st, k) \<Rightarrow> (st = Ok, set_session k vm)))"

definition view_next_step :: "('u, 'q) view_model \<Rightarrow> ('u, 'q) view_model" where
  "view_next_step vm =
     (if session_awaiting_user (vm_session vm) then set_session (session_user_next (vm_session vm)) vm else vm)"

definition view_stop :: "('u, 'q) view_model \<Rightarrow> ('u, 'q) view_model" where
  "view_stop vm = set_session (session_stop (vm_session vm)) vm"

definition view_tare :: "'u uart_ops \<Rightarrow> ('u, 'q) view_model \<Rightarrow> bool \<times> ('u, 'q) view_model" where
  "view_tare io vm =
     (if \<not> vm_connected vm then (False, vm)
      else case client_tare io (vm_now vm) (k_client (vm_session vm)) of (st, c) \<Rightarrow> (st = Ok, set_client c vm))"

section \<open>Simulator commands\<close>

definition send_simulator_command :: "'q qt \<Rightarrow> string \<Rightarrow> ('u, 'q) view_model \<Rightarrow> bool \<times> ('u, 'q) view_model" where
  "send_simulator_command qt command vm =
     (if \<not> qt_connected qt (vm_control vm)
      then (False, emit StateChanged (vm\<lparr>vm_simulator_status := ''Simulator controls disconnected''\<rparr>))
      else let bytes = command @ [CHR 0x0A]
           in case qt_write qt bytes (vm_control vm) of
                (written, q) \<Rightarrow>
                  if written \<noteq> int (length bytes)
                  then (False, emit StateChanged (vm\<lparr>vm_control := q, vm_simulator_status := ''Could not send simulator action''\<rparr>))
                  else (True, emit StateChanged (vm\<lparr>vm_control := qt_flush qt q, vm_simulator_status := ''Applying action...''\<rparr>)))"

text \<open>The literal \<open>0.1\<close> in double precision.\<close>

definition tenth_double :: rat where
  "tenth_double = 3602879701896397 / 36028797018963968"

definition view_add_ingredient :: "'q qt \<Rightarrow> rat option \<Rightarrow> string \<Rightarrow> ('u, 'q) view_model \<Rightarrow> bool \<times> ('u, 'q) view_model" where
  "view_add_ingredient qt grams ingredient vm =
     (case grams of
        None \<Rightarrow> (False, vm)
      | Some g \<Rightarrow>
          if g < tenth_double \<or> g > 2200 \<or> ingredient \<notin> set [''water'', ''oil'', ''flour'', ''other''] then (False, vm)
          else send_simulator_command qt (''add '' @ qt_one_decimal qt g @ '' '' @ ingredient) vm)"

definition view_set_lid_open :: "'q qt \<Rightarrow> bool \<Rightarrow> ('u, 'q) view_model \<Rightarrow> bool \<times> ('u, 'q) view_model" where
  "view_set_lid_open qt lid_open vm = send_simulator_command qt (if lid_open then ''lid open'' else ''lid close'') vm"

text \<open>How many lines are there is up to the socket, so the loop could go on for ever.\<close>

partial_function (option) read_responses :: "'q qt \<Rightarrow> string \<Rightarrow> 'q \<Rightarrow> (string \<times> 'q) option" where
  "read_responses qt status q =
     (if qt_can_read_line qt q
      then (case qt_read_line qt q of
              (line, q') \<Rightarrow>
                let response = qt_trimmed qt line
                in read_responses qt (if response = ''ok'' then ''Action applied'' else response) q')
      else Some (status, q))"

declare read_responses.simps [code]

definition view_read_simulator_response :: "'q qt \<Rightarrow> ('u, 'q) view_model \<Rightarrow> ('u, 'q) view_model option" where
  "view_read_simulator_response qt vm =
     map_option (\<lambda>(status, q). emit StateChanged (vm\<lparr>vm_simulator_status := status, vm_control := q\<rparr>))
       (read_responses qt (vm_simulator_status vm) (vm_control vm))"

section \<open>Shutting down\<close>

definition view_finish_shutdown :: "('u, 'q) view_model \<Rightarrow> ('u, 'q) view_model" where
  "view_finish_shutdown vm =
     emit ShutdownComplete (emit StateChanged (vm\<lparr>vm_ready_to_quit := True, vm_timer_active := False\<rparr>))"

definition stopped :: "('u, 'w) session \<Rightarrow> bool" where
  "stopped k \<longleftrightarrow> k_state k = Idle \<or> k_state k = Done"

definition view_request_shutdown :: "('u, 'q) view_model \<Rightarrow> ('u, 'q) view_model" where
  "view_request_shutdown vm =
     (if vm_ready_to_quit vm \<or> vm_shutdown_requested vm then vm
      else if stopped (vm_session vm) then view_finish_shutdown vm
      else set_session (session_stop (vm_session vm))
             (vm\<lparr>vm_shutdown_requested := True, vm_shutdown_deadline_ms := vm_now vm + 1000\<rparr>))"

definition view_check_shutdown :: "('u, 'q) view_model \<Rightarrow> ('u, 'q) view_model" where
  "view_check_shutdown vm =
     (if vm_shutdown_requested vm \<and> (stopped (vm_session vm) \<or> vm_now vm \<ge> vm_shutdown_deadline_ms vm)
      then view_finish_shutdown vm else vm)"

definition view_count_refresh :: "('u \<Rightarrow> bool \<times> 'u) \<Rightarrow> ('u, 'q) view_model \<Rightarrow> ('u, 'q) view_model" where
  "view_count_refresh link_up vm =
     (let d = vm_refresh_divider vm + 1
      in if d \<ge> 25 then view_refresh link_up (vm\<lparr>vm_refresh_divider := 0\<rparr>) else vm\<lparr>vm_refresh_divider := d\<rparr>)"

definition view_tick :: "'u uart_ops \<Rightarrow> ('u \<Rightarrow> bool \<times> 'u) \<Rightarrow> ('u, 'q) view_model \<Rightarrow> ('u, 'q) view_model option" where
  "view_tick io link_up vm =
     (let vm1 = vm\<lparr>vm_now_us := vm_now_us vm + 1000\<rparr>
      in map_option (\<lambda>a. view_check_shutdown (view_count_refresh link_up (vm1\<lparr>vm_runtime := a\<rparr>)))
           (app_tick_1ms app_watchdog_feed io (vm_now vm1) (vm_runtime vm1)))"

text \<open>
  The timer calls \<open>tick\<close> every millisecond while it is active; before each tick other things have happened
  to the line.
\<close>

primrec view_run :: "'u uart_ops \<Rightarrow> ('u \<Rightarrow> bool \<times> 'u) \<Rightarrow> ('u \<Rightarrow> 'u) list \<Rightarrow> ('u, 'q) view_model \<Rightarrow> ('u, 'q) view_model option" where
  "view_run io link_up [] vm = Some vm"
| "view_run io link_up (arrive # rest) vm =
     (if vm_timer_active vm
      then Option.bind
             (view_tick io link_up (set_client ((k_client (vm_session vm))\<lparr>cl_uart := arrive (cl_uart (k_client (vm_session vm)))\<rparr>) vm))
             (view_run io link_up rest)
      else Some vm)"

section \<open>Frames\<close>

lemma vm_simps [simp]:
  "vm_session (set_session k vm) = k" "vm_session (vm\<lparr>vm_connected := up\<rparr>) = vm_session vm"
  "vm_session (emit s vm) = vm_session vm" "vm_session (set_client c vm) = (vm_session vm)\<lparr>k_client := c\<rparr>"
  "vm_session (vm\<lparr>vm_refresh_divider := d\<rparr>) = vm_session vm" "vm_session (vm\<lparr>vm_runtime := a\<rparr>) = ar_session a"
  "vm_session (vm\<lparr>vm_now_us := t\<rparr>) = vm_session vm" "set_session (vm_session vm) vm = vm"
  "vm_session (vm\<lparr>vm_shutdown_requested := r, vm_shutdown_deadline_ms := dl\<rparr>) = vm_session vm"
  "vm_session (view_finish_shutdown vm) = vm_session vm"
  by (simp_all add: vm_session_def set_session_def emit_def set_client_def view_finish_shutdown_def)

text \<open>Everything about the shutdown and the clock that the session does not touch.\<close>

definition shutdown_view :: "('u, 'q) view_model \<Rightarrow> micros \<times> bool \<times> bool \<times> bool \<times> millis \<times> nat" where
  "shutdown_view vm = (vm_now_us vm, vm_timer_active vm, vm_shutdown_requested vm, vm_ready_to_quit vm,
     vm_shutdown_deadline_ms vm, count_list (vm_signals vm) ShutdownComplete)"

lemma shutdown_view_frame [simp]:
  "shutdown_view (set_session k vm) = shutdown_view vm" "shutdown_view (set_client c vm) = shutdown_view vm"
  "shutdown_view (vm\<lparr>vm_connected := up\<rparr>) = shutdown_view vm" "shutdown_view (emit StateChanged vm) = shutdown_view vm"
  "shutdown_view (vm\<lparr>vm_refresh_divider := d\<rparr>) = shutdown_view vm" "shutdown_view (vm\<lparr>vm_runtime := a\<rparr>) = shutdown_view vm"
  by (simp_all add: shutdown_view_def set_session_def set_client_def emit_def)

lemma refresh_view [simp]:
  "shutdown_view (view_refresh link_up vm) = shutdown_view vm" "shutdown_view (view_count_refresh link_up vm) = shutdown_view vm"
  by (simp_all add: view_refresh_def view_count_refresh_def Let_def split: prod.split)

definition view_ok :: "('u \<Rightarrow> bool) \<Rightarrow> ('u, 'q) view_model \<Rightarrow> bool" where
  "view_ok uart_inv vm \<longleftrightarrow> client_inv (k_client (vm_session vm)) \<and> uart_inv (cl_uart (k_client (vm_session vm))) \<and>
     session_inv (vm_session vm)"

lemma session_inv_client: "session_inv (k\<lparr>k_client := c\<rparr>) = session_inv k"
  by (simp add: session_inv_def)

lemma refresh_ok:
  assumes "\<And>u. uart_inv u \<Longrightarrow> uart_inv (snd (link_up u))" "view_ok uart_inv vm"
  shows "view_ok uart_inv (view_count_refresh link_up vm)" "k_state (vm_session (view_count_refresh link_up vm)) = k_state (vm_session vm)"
    "k_motor_done (vm_session (view_count_refresh link_up vm)) = k_motor_done (vm_session vm)"
  using assms(2) assms(1)[of "cl_uart (k_client (vm_session vm))"]
  by (auto simp: view_ok_def view_count_refresh_def view_refresh_def Let_def session_inv_client split: prod.split)

lemma app_tick_returns:
  assumes "uart io rx_q tx_q uart_inv" "client_inv (k_client (ar_session a))" "uart_inv (cl_uart (k_client (ar_session a)))"
    "session_inv (ar_session a)"
  shows "\<exists>a'. app_tick_1ms dog io now a = Some a' \<and> client_inv (k_client (ar_session a')) \<and>
    uart_inv (cl_uart (k_client (ar_session a'))) \<and> session_inv (ar_session a') \<and>
    (ar_divider a + 1 < 10 \<longrightarrow> k_state (ar_session a') = k_state (ar_session a) \<and> k_motor_done (ar_session a') = k_motor_done (ar_session a))"
proof -
  obtain c where c: "client_poll io now (k_client (ar_session a)) = Some c" "client_inv c" "uart_inv (cl_uart c)"
    using client_poll_returns[OF assms(1-3)] by blast
  let ?k = "(ar_session a)\<lparr>k_client := c\<rparr>"
  have k: "session_inv ?k" using assms(4) by (simp add: session_inv_client)
  then show ?thesis
    using c session_tick_client[OF assms(1), of ?k dog now] session_tick_inv[OF k, of dog io now]
    by (auto simp: app_tick_1ms_def app_divide_def Let_def not_less[symmetric])
qed

lemma view_tick_spec:
  assumes "uart io rx_q tx_q uart_inv" and up: "\<And>u. uart_inv u \<Longrightarrow> uart_inv (snd (link_up u))" and ok: "view_ok uart_inv vm"
  shows "\<exists>vm1. view_tick io link_up vm = Some (view_check_shutdown vm1) \<and> view_ok uart_inv vm1 \<and>
    shutdown_view vm1 = shutdown_view (vm\<lparr>vm_now_us := vm_now_us vm + 1000\<rparr>) \<and>
    (ar_divider (vm_runtime vm) + 1 < 10 \<longrightarrow> k_state (vm_session vm1) = k_state (vm_session vm) \<and>
       k_motor_done (vm_session vm1) = k_motor_done (vm_session vm))"
proof -
  let ?vm = "vm\<lparr>vm_now_us := vm_now_us vm + 1000\<rparr>"
  obtain a where a: "app_tick_1ms app_watchdog_feed io (vm_now ?vm) (vm_runtime ?vm) = Some a" "client_inv (k_client (ar_session a))"
    "uart_inv (cl_uart (k_client (ar_session a)))" "session_inv (ar_session a)"
    "ar_divider (vm_runtime vm) + 1 < 10 \<longrightarrow> k_state (ar_session a) = k_state (vm_session vm) \<and> k_motor_done (ar_session a) = k_motor_done (vm_session vm)"
    using app_tick_returns[OF assms(1), of "vm_runtime ?vm" app_watchdog_feed "vm_now ?vm"] ok
    by (auto simp: view_ok_def vm_session_def)
  let ?vm1 = "view_count_refresh link_up (?vm\<lparr>vm_runtime := a\<rparr>)"
  have o: "view_ok uart_inv (?vm\<lparr>vm_runtime := a\<rparr>)" using a(2-4) by (simp add: view_ok_def)
  have "view_tick io link_up vm = Some (view_check_shutdown ?vm1)" using a(1) by (simp add: view_tick_def Let_def)
  then show ?thesis using refresh_ok[OF up o] a(5) by (intro exI[of _ ?vm1]) simp
qed

lemma unat_u32_bound: "unat w < 2 ^ 32" for w :: u32
  using unsigned_less[of w] by simp

lemma request_ok:
  assumes "view_ok uart_inv vm" shows "view_ok uart_inv (view_request_shutdown vm)"
proof -
  have "client_inv (k_client (session_stop (vm_session vm)))" "cl_uart (k_client (session_stop (vm_session vm))) = cl_uart (k_client (vm_session vm))"
    using assms by (auto simp: view_ok_def session_ops_client session_stop_def begin_shutdown_def)
  then show ?thesis using assms session_stop_inv[of "vm_session vm"] by (simp add: view_request_shutdown_def view_ok_def)
qed

lemma to_millis_next:
  assumes "unat us + 1000 < 2 ^ 64" "unat (to_millis us) + 1 < 2 ^ 32"
  shows "unat (to_millis (us + 1000)) = unat (to_millis us) + 1"
  using assms(2) unfolding to_millis_advance[OF assms(1)] by (simp add: unat_word_ariths)

lemma view_run_quiet: "\<not> vm_timer_active vm \<Longrightarrow> view_run io link_up arrivals vm = Some vm"
  by (cases arrivals) simp_all

section \<open>How a shutdown runs\<close>

lemma shutdown_runs:
  assumes u: "uart io rx_q tx_q uart_inv" and up: "\<And>u. uart_inv u \<Longrightarrow> uart_inv (snd (link_up u))"
    and "\<forall>f \<in> set arrivals. \<forall>u. uart_inv u \<longrightarrow> uart_inv (f u)"
    and "view_ok uart_inv vm" "vm_shutdown_requested vm" "\<not> vm_ready_to_quit vm" "vm_timer_active vm"
    and "unat (vm_now vm) + r = unat (vm_shutdown_deadline_ms vm)" "0 < r" "unat (vm_now_us vm) + r * 1000 < 2 ^ 64"
  shows "\<exists>vm'. view_run io link_up arrivals vm = Some vm' \<and> (r \<le> length arrivals \<longrightarrow> vm_ready_to_quit vm') \<and>
    (vm_ready_to_quit vm' \<and> length arrivals < r \<longrightarrow> stopped (vm_session vm')) \<and> session_inv (vm_session vm') \<and>
    vm_timer_active vm' = (\<not> vm_ready_to_quit vm') \<and>
    count_list (vm_signals vm') ShutdownComplete = count_list (vm_signals vm) ShutdownComplete + (if vm_ready_to_quit vm' then 1 else 0)"
  using assms(3-)
proof (induction arrivals arbitrary: vm r)
  case Nil
  then show ?case by (simp add: view_ok_def)
next
  case (Cons f rest)
  let ?vm = "set_client ((k_client (vm_session vm))\<lparr>cl_uart := f (cl_uart (k_client (vm_session vm)))\<rparr>) vm"
  have ok: "view_ok uart_inv ?vm" using Cons.prems(1,2) by (simp add: view_ok_def session_inv_client)
  have v: "shutdown_view ?vm = shutdown_view vm" by simp
  obtain vm1 where t: "view_tick io link_up ?vm = Some (view_check_shutdown vm1)" "view_ok uart_inv vm1"
    "shutdown_view vm1 = shutdown_view (?vm\<lparr>vm_now_us := vm_now_us ?vm + 1000\<rparr>)"
    using view_tick_spec[where link_up = link_up, OF u up ok] by blast
  have s: "vm_now_us vm1 = vm_now_us vm + 1000" "vm_timer_active vm1" "vm_shutdown_requested vm1" "\<not> vm_ready_to_quit vm1"
    "vm_shutdown_deadline_ms vm1 = vm_shutdown_deadline_ms vm" "count_list (vm_signals vm1) ShutdownComplete = count_list (vm_signals vm) ShutdownComplete"
    using t(3) v Cons.prems(3-5) by (simp_all add: shutdown_view_def)
  have us: "unat (vm_now_us vm1) = unat (vm_now_us vm) + 1000"
    using Cons.prems(7,8) unfolding s(1) by (simp add: unat_word_ariths)
  have lt: "unat (vm_now vm) + 1 < 2 ^ 32"
    using Cons.prems(6,7) unat_u32_bound[of "vm_shutdown_deadline_ms vm"] by simp
  have now: "unat (vm_now vm1) = unat (vm_now vm) + 1"
    using to_millis_next[of "vm_now_us vm"] Cons.prems(7,8) lt unfolding vm_now_def s(1) by simp
  have run: "view_run io link_up (f # rest) vm = view_run io link_up rest (view_check_shutdown vm1)"
    using Cons.prems(5) by (simp add: t(1))
  show ?case
  proof (cases "stopped (vm_session vm1) \<or> vm_now vm1 \<ge> vm_shutdown_deadline_ms vm1")
    case True
    then have c: "view_check_shutdown vm1 = view_finish_shutdown vm1" using s(3) by (simp add: view_check_shutdown_def)
    have "view_run io link_up rest (view_finish_shutdown vm1) = Some (view_finish_shutdown vm1)"
      by (rule view_run_quiet) (simp add: view_finish_shutdown_def emit_def)
    moreover have "stopped (vm_session vm1)" if "length (f # rest) < r"
      using True that now Cons.prems(6) s(5) by (auto simp: word_le_nat_alt)
    ultimately show ?thesis
      using t(2) s(6) unfolding run c by (simp add: view_ok_def) (simp add: view_finish_shutdown_def emit_def)
  next
    case False
    then have c: "view_check_shutdown vm1 = vm1" by (simp add: view_check_shutdown_def)
    have "1 < r" using False now Cons.prems(6) s(5) by (auto simp: word_le_nat_alt not_le)
    then have "0 < r - 1" "unat (vm_now vm1) + (r - 1) = unat (vm_shutdown_deadline_ms vm1)" "unat (vm_now_us vm1) + (r - 1) * 1000 < 2 ^ 64"
      using now us s(5) Cons.prems(6,8) by (simp_all add: diff_mult_distrib)
    from Cons.IH[OF _ t(2) s(3,4,2) this(2,1,3)] Cons.prems(1) show ?thesis
      unfolding run c s(6) using \<open>1 < r\<close> by (auto simp: less_diff_conv le_diff_conv)
  qed
qed

section \<open>Properties\<close>


text \<open>A user interface over the in-memory transport at a given time, with a session that is running.\<close>

definition demo_view :: "micros \<Rightarrow> (transport, unit) view_model" where
  "demo_view us =
     \<lparr>vm_now_us = us, vm_runtime = (app_runtime_init transport_init ())\<lparr>ar_session :=
        session_begin 0 (PManual (manual_mode_new 0 1 60)) (session_init (client_init transport_init) ())\<rparr>,
      vm_control = (), vm_timer_active = True, vm_recipe_names = [], vm_simulator_status = [], vm_connected = True,
      vm_shutdown_requested = False, vm_ready_to_quit = False, vm_shutdown_deadline_ms = 0, vm_refresh_divider = 0, vm_signals = []\<rparr>"

lemma demo_view_ok: "view_ok transport_inv (demo_view us)" "k_state (vm_session (demo_view us)) = Running"
  "ar_divider (vm_runtime (demo_view us)) = 0" "k_motor_done (vm_session (demo_view us)) = False"
proof -
  let ?k = "session_init (client_init transport_init) () :: (transport, unit) session"
  have "vm_session (demo_view us) = session_begin 0 (PManual (manual_mode_new 0 1 60)) ?k" by (simp add: demo_view_def vm_session_def)
  moreover have "client_inv (k_client (session_begin 0 p ?k))" "transport_inv (cl_uart (k_client (session_begin 0 p ?k)))" for p
    by (simp_all add: session_begin_def session_init_def client_inv_init) (simp add: client_init_def transport_inv_init)
  moreover have "session_inv (session_begin 0 p ?k)" for p using session_begin_inv session_inv_init by blast
  ultimately show "view_ok transport_inv (demo_view us)" "k_state (vm_session (demo_view us)) = Running"
    "k_motor_done (vm_session (demo_view us)) = False"
    by (simp_all add: view_ok_def) (simp_all add: session_begin_def)
  show "ar_divider (vm_runtime (demo_view us)) = 0" by (simp add: demo_view_def app_runtime_init_def)
qed


text \<open>
  C30: the deadline does not survive the wrap-around of the clock. \<open>tick\<close> compares the time with the
  deadline as unsigned numbers, so within the last second before the 32-bit millisecond clock wraps around
  a shutdown is complete after one tick, before the motor and the heater have been stopped.
\<close>

theorem view_deadline_wraps:
  assumes "2 ^ 32 - 1000 \<le> unat (vm_now vm)" "unat (vm_now vm) + 1 < 2 ^ 32" "unat (vm_now_us vm) + 1000 < 2 ^ 64"
    and "uart io rx_q tx_q uart_inv" "\<And>u. uart_inv u \<Longrightarrow> uart_inv (snd (link_up u))" "view_ok uart_inv vm"
    and "\<not> vm_shutdown_requested vm" "\<not> vm_ready_to_quit vm" "k_state (vm_session vm) = Running" "ar_divider (vm_runtime vm) + 1 < 10"
  shows "\<exists>vm'. view_tick io link_up (view_request_shutdown vm) = Some vm' \<and> vm_ready_to_quit vm' \<and>
    k_state (vm_session vm') = Stopping \<and> \<not> k_motor_done (vm_session vm')"
proof -
  let ?vm = "view_request_shutdown vm"
  have r: "?vm = set_session (session_stop (vm_session vm)) (vm\<lparr>vm_shutdown_requested := True, vm_shutdown_deadline_ms := vm_now vm + 1000\<rparr>)"
    using assms(7-9) by (simp add: view_request_shutdown_def stopped_def)
  have s: "k_state (vm_session ?vm) = Stopping" "\<not> k_motor_done (vm_session ?vm)"
    using assms(9) by (simp_all add: r session_stop_def begin_shutdown_def)
  note ok = request_ok[OF assms(6)]
  obtain vm1 where t: "view_tick io link_up ?vm = Some (view_check_shutdown vm1)"
    "shutdown_view vm1 = shutdown_view (?vm\<lparr>vm_now_us := vm_now_us ?vm + 1000\<rparr>)"
    "ar_divider (vm_runtime ?vm) + 1 < 10 \<longrightarrow> k_state (vm_session vm1) = k_state (vm_session ?vm) \<and> k_motor_done (vm_session vm1) = k_motor_done (vm_session ?vm)"
    using view_tick_spec[where link_up = link_up, OF assms(4,5) ok] by blast
  have v: "vm_now_us vm1 = vm_now_us vm + 1000" "vm_shutdown_requested vm1" "vm_shutdown_deadline_ms vm1 = vm_now vm + 1000"
    using t(2) by (simp_all add: shutdown_view_def r set_session_def)
  have "unat (vm_now vm1) = unat (vm_now vm) + 1"
    using to_millis_next[of "vm_now_us vm"] assms(2,3) unfolding vm_now_def v(1) by simp
  moreover have "unat (vm_now vm + 1000) = unat (vm_now vm) + 1000 - 2 ^ 32"
    using assms(1) unat_u32_bound[of "vm_now vm"] by (simp add: unat_word_ariths mod_if)
  ultimately have "vm_now vm1 \<ge> vm_shutdown_deadline_ms vm1"
    using unat_u32_bound[of "vm_now vm"] unfolding v(3) word_le_nat_alt by simp
  then have "view_check_shutdown vm1 = view_finish_shutdown vm1" using v(2) by (simp add: view_check_shutdown_def)
  then show ?thesis
    using t(1,3) s assms(10) by (simp add: r set_session_def) (simp add: view_finish_shutdown_def emit_def)
qed

theorem view_deadline_wraps_witness:
  "\<exists>vm'. view_tick app_side (\<lambda>u. (True, u)) (view_request_shutdown (demo_view 4294966796000)) = Some vm' \<and> vm_ready_to_quit vm' \<and>
     k_state (vm_session vm') = Stopping \<and> \<not> k_motor_done (vm_session vm')"
proof -
  let ?vm = "demo_view 4294966796000"
  have d: "\<not> vm_shutdown_requested ?vm" "\<not> vm_ready_to_quit ?vm" "vm_now ?vm = 4294966796" "vm_now_us ?vm = 4294966796000"
    by (simp_all add: demo_view_def vm_now_def to_millis_def)
  show ?thesis
    using view_deadline_wraps[of ?vm app_side _ _ _ "\<lambda>u. (True, u)", OF _ _ _ app_uart.uart_axioms _ demo_view_ok(1) d(1,2) demo_view_ok(2)] d(3,4) demo_view_ok(3)
    by simp
qed

text \<open>When a program may be started: not while one runs or stops, nor before a faulted session has stopped.\<close>

definition session_free :: "('u, 'w) session \<Rightarrow> bool" where
  "session_free k \<longleftrightarrow> \<not> (k_state k = Running \<or> k_state k = Stopping \<or> (k_state k = Faulted \<and> \<not> k_motor_done k))"

text \<open>
  The input of a manual program is checked completely. \<open>startManual\<close> accepts exactly a connected
  device that is free, a temperature that is zero or within 37 and 160 degrees, a speed from 0 to 10 and a
  duration from 1 to 1440 minutes; then these values reach the program without wrapping around, and
  otherwise nothing changes.
\<close>

theorem view_manual_checked:
  "(fst (view_start_manual t speed minutes vm) \<longleftrightarrow>
      (\<exists>c. t = Some c \<and> (c = 0 \<or> 37 \<le> c \<and> c \<le> 160)) \<and> vm_connected vm \<and> 0 \<le> speed \<and> speed \<le> 10 \<and>
      1 \<le> minutes \<and> minutes \<le> 1440 \<and> session_free (vm_session vm)) \<and>
    (\<not> fst (view_start_manual t speed minutes vm) \<longrightarrow> snd (view_start_manual t speed minutes vm) = vm) \<and>
    (fst (view_start_manual t speed minutes vm) \<longrightarrow>
      (\<exists>m. k_pending (vm_session (snd (view_start_manual t speed minutes vm))) = Some (PManual m) \<and>
         (if t = Some 0 then sint (man_temp m) = 0 else 370 \<le> sint (man_temp m) \<and> sint (man_temp m) \<le> 1600) \<and>
         unat (man_dial m) = nat speed \<and> unat (man_duration_ms m) = nat minutes * 60000))"
proof (cases "\<exists>c. t = Some c \<and> (c = 0 \<or> 37 \<le> c \<and> c \<le> 160) \<and> vm_connected vm \<and> 0 \<le> speed \<and> speed \<le> 10 \<and> 1 \<le> minutes \<and> minutes \<le> 1440")
  case False
  then have "view_start_manual t speed minutes vm = (False, vm)"
    by (auto simp: view_start_manual_def split: option.split)
  then show ?thesis using False by auto
next
  case True
  then obtain c where c: "t = Some c" "c = 0 \<or> 37 \<le> c \<and> c \<le> 160" and i: "vm_connected vm" "0 \<le> speed" "speed \<le> 10" "1 \<le> minutes" "minutes \<le> 1440"
    by blast
  let ?m = "manual_mode_new (from_celsius (rnd c)) (of_int speed) (of_int minutes * 60)"
  have e: "view_start_manual t speed minutes vm = (case start_program (Some (PManual ?m)) (vm_session vm) of (st, k) \<Rightarrow> (st = Ok, set_session k vm))"
    using c i by (auto simp: view_start_manual_def start_manual_def)
  have temp: "if c = 0 then sint (man_temp ?m) = 0 else 370 \<le> sint (man_temp ?m) \<and> sint (man_temp ?m) \<le> 1600"
  proof (cases "c = 0")
    case False
    then have "of_int 37 \<le> rnd c" "rnd c \<le> of_int 160" using c(2) by (intro b32.rd_ge b32.rd_le; simp)+
    then show ?thesis using False from_celsius_cooking[of "rnd c"] by (simp add: manual_mode_new_def)
  qed (simp add: manual_mode_new_def from_celsius_def fmul_def)
  obtain s where s: "speed = int s" "s \<le> 10" using i(2,3) by (metis nat_0_le nat_le_iff of_nat_numeral)
  obtain n where n: "minutes = int n" "n \<le> 1440" using i(4,5) by (metis nat_0_le nat_le_iff of_nat_numeral order_trans zero_le_one)
  have dial: "unat (man_dial ?m) = nat speed" using s by (simp add: manual_mode_new_def unat_of_nat)
  have "man_duration_ms ?m = of_nat (n * 60000)" by (simp add: manual_mode_new_def n(1))
  then have duration: "unat (man_duration_ms ?m) = nat minutes * 60000" using n by (simp only: unat_of_nat) simp
  show ?thesis
    using c i temp dial duration unfolding e by (auto simp: start_program_def session_free_def)
qed

theorem view_manual_checked_witness:
  "let vm = set_session (session_init (client_init transport_init) ()) (demo_view 0)
   in fst (view_start_manual (Some 60) 10 1440 vm) \<and>
      (\<exists>m. k_pending (vm_session (snd (view_start_manual (Some 60) 10 1440 vm))) = Some (PManual m) \<and>
         370 \<le> sint (man_temp m) \<and> unat (man_duration_ms m) = 86400000) \<and>
      view_start_manual (Some 36) 10 1440 vm = (False, vm)"
proof -
  let ?vm = "set_session (session_init (client_init transport_init) ()) (demo_view 0)"
  have f: "session_free (vm_session ?vm)" "vm_connected ?vm"
    by (simp_all add: session_free_def session_init_def) (simp add: demo_view_def set_session_def)
  show ?thesis
    unfolding Let_def
    using view_manual_checked[of "Some 60" 10 1440 ?vm] view_manual_checked[of "Some 36" 10 1440 ?vm] f
    by (auto simp: prod_eq_iff)
qed

end
