(* ===== verification/Ui_Process.thy ===== *)
theory Ui_Process
  imports View_Model Socket_Transport
begin

text \<open>
  \<open>src/apps/ui/culina_ui_main.cpp\<close>: the desktop process around the view model. Setting up Qt and loading
  the QML module are left out; \<open>exec\<close> is the event loop, whose timers are the steps here. Shown here: a
  started process meets the conditions under which its view model quits in time, over every operating system
  that keeps the contract of a byte stream, a failed start leaves no descriptor open, and a smoke test is
  decided after 200 timeouts.
\<close>

section \<open>Start\<close>

record ui_options =
  ui_socket_path :: string
  ui_control_socket_path :: string
  ui_recipe_dir :: string
  ui_smoke_test :: bool

definition ui_options_init :: ui_options where
  "ui_options_init = \<lparr>ui_socket_path = ''/tmp/c1link.sock'', ui_control_socket_path = ''/tmp/culina-control.sock'',
     ui_recipe_dir = ''data/recipes'', ui_smoke_test = False\<rparr>"

fun ui_arguments :: "string list \<Rightarrow> ui_options \<Rightarrow> ui_options option" where
  "ui_arguments [] opts = Some opts"
| "ui_arguments [arg] opts = (if arg = ''--smoke-test'' then Some (opts\<lparr>ui_smoke_test := True\<rparr>) else None)"
| "ui_arguments (arg # val # args) opts =
     (if arg = ''--socket'' then ui_arguments args (opts\<lparr>ui_socket_path := val\<rparr>)
      else if arg = ''--control-socket'' then ui_arguments args (opts\<lparr>ui_control_socket_path := val\<rparr>)
      else if arg = ''--recipes'' then ui_arguments args (opts\<lparr>ui_recipe_dir := val\<rparr>)
      else if arg = ''--smoke-test'' then ui_arguments (val # args) (opts\<lparr>ui_smoke_test := True\<rparr>)
      else None)"

text \<open>
  The exit status and what has been closed, or the view model and whether the smoke test is on. The
  transport is moved into the view model; what is left of it is destroyed at the end of \<open>main\<close>.
\<close>

definition ui_start ::
  "'k posix \<Rightarrow> 'q qt \<Rightarrow> (string \<Rightarrow> string list option) \<Rightarrow> (string \<Rightarrow> c_file option) \<Rightarrow> string list \<Rightarrow> 'q \<Rightarrow> 'k \<Rightarrow>
   (int \<times> 'k) + (bool \<times> (socket_transport \<times> 'k, 'q) view_model)" where
  "ui_start px qt opendir fopen args q k =
     (case ui_arguments args ui_options_init of
        None \<Rightarrow> Inl (2, k)
      | Some opts \<Rightarrow>
          (case transport_connected px (transport_connect_to px (Some (ui_socket_path opts)) k) of
             (False, link, k1) \<Rightarrow> Inl (1, transport_destroy px link k1)
           | (True, link, k1) \<Rightarrow>
               Inr (ui_smoke_test opts,
                 view_model_new qt (transport_connected px) opendir fopen (fst (transport_move link), k1)
                   (ui_control_socket_path opts) (ui_recipe_dir opts) q)))"

section \<open>Smoke test\<close>

record smoke_test =
  sm_active :: bool
  sm_attempts :: int
  sm_exit :: "int option"

definition smoke_init :: smoke_test where
  "smoke_init = \<lparr>sm_active = True, sm_attempts = 0, sm_exit = None\<rparr>"

text \<open>One timeout of the timer of 10 ms.\<close>

definition smoke_timeout :: "smoke_test \<times> ('u, 'q) view_model \<Rightarrow> smoke_test \<times> ('u, 'q) view_model" where
  "smoke_timeout p =
     (case p of (sm, vm) \<Rightarrow>
        if \<not> sm_active sm then (sm, vm)
        else if view_has_telemetry vm then (sm\<lparr>sm_active := False\<rparr>, view_request_shutdown vm)
        else if sm_attempts sm + 1 \<ge> 200 then (sm\<lparr>sm_attempts := sm_attempts sm + 1, sm_exit := Some 1\<rparr>, vm)
        else (sm\<lparr>sm_attempts := sm_attempts sm + 1\<rparr>, vm))"

text \<open>Timeouts, and what happens to the view model before each of them.\<close>

definition smoke_run :: "(('u, 'q) view_model \<Rightarrow> ('u, 'q) view_model) list \<Rightarrow> ('u, 'q) view_model \<Rightarrow> smoke_test \<times> ('u, 'q) view_model" where
  "smoke_run events vm = fold (\<lambda>f (sm, vm). smoke_timeout (sm, f vm)) events (smoke_init, vm)"

section \<open>Results\<close>

lemma connect_connected:
  assumes "transport_connected px (transport_connect_to px path k) = (up, t, k1)"
  shows "transport_connect_to px path k = (t, k1)" "connecting (t, k1)"
  using assms connecting_accept[OF connect_to_connecting, of px px path k] connect_to_connecting[of px path k]
  by (auto simp: transport_connected_def split: prod.splits)

lemma ui_start_fails_clean:
  assumes "descriptors px opn" "ui_start px qt opendir fopen args q k = Inl (code, k')"
  shows "code \<in> {1, 2} \<and> opn k' = opn k"
proof (cases "ui_arguments args ui_options_init")
  case None
  then show ?thesis using assms(2) by (simp add: ui_start_def)
next
  case (Some opts)
  obtain up link k1 where c: "transport_connected px (transport_connect_to px (Some (ui_socket_path opts)) k) = (up, link, k1)"
    by (metis prod.collapse)
  have "accounted opn (opn k) (link, k1)"
    using connect_to_accounted[OF assms(1), of k "Some (ui_socket_path opts)"] unfolding connect_connected(1)[OF c] .
  then have "opn (transport_destroy px link k1) = opn k" by (rule destroy_accounted[OF assms(1)])
  then show ?thesis using assms(2) by (auto simp: ui_start_def Some c split: bool.splits)
qed

lemma view_model_new_ok:
  assumes "uart_inv u" "\<And>u. uart_inv u \<Longrightarrow> uart_inv (snd (link_up u))"
  shows "view_ok uart_inv (view_model_new qt link_up opendir fopen u control dir q) \<and>
    vm_timer_active (view_model_new qt link_up opendir fopen u control dir q) \<and>
    \<not> vm_shutdown_requested (view_model_new qt link_up opendir fopen u control dir q) \<and>
    \<not> vm_ready_to_quit (view_model_new qt link_up opendir fopen u control dir q) \<and>
    vm_now_us (view_model_new qt link_up opendir fopen u control dir q) = 0"
proof -
  obtain st lib where l: "load_directory opendir fopen dir library_init = (st, lib)" by fastforce
  obtain up u' where r: "link_up u = (up, u')" by fastforce
  have "uart_inv u'" using assms(2)[OF assms(1)] r by simp
  moreover have "session_inv (session_init c w)" "client_inv (client_init u)" "cl_uart (client_init u) = u" for c :: "'a mcu_client" and w :: unit
    by (simp_all add: session_inv_init client_inv_init) (simp add: client_init_def)
  ultimately show ?thesis
    by (simp add: view_model_new_def l Let_def view_refresh_def set_client_def set_session_def emit_def vm_session_def view_ok_def
        app_runtime_init_def attach_ota_def r) (simp add: session_init_def session_inv_def r client_inv_def client_init_def)
qed

lemma ui_start_ok:
  assumes "ui_start px qt opendir fopen args q k = Inr (smoke, vm)"
  shows "view_ok connecting vm \<and> vm_timer_active vm \<and> \<not> vm_shutdown_requested vm \<and> \<not> vm_ready_to_quit vm \<and> vm_now_us vm = 0"
proof -
  obtain opts where o: "ui_arguments args ui_options_init = Some opts"
    using assms by (auto simp: ui_start_def split: option.splits)
  obtain up link k1 where c: "transport_connected px (transport_connect_to px (Some (ui_socket_path opts)) k) = (up, link, k1)"
    by (metis prod.collapse)
  have "connecting (fst (transport_move link), k1)"
    using connect_connected(2)[OF c] by (simp add: connecting_def transport_move_def)
  note ok = view_model_new_ok[where uart_inv = connecting and link_up = "transport_connected px", OF this connecting_connected]
  have "vm = view_model_new qt (transport_connected px) opendir fopen (fst (transport_move link), k1) (ui_control_socket_path opts) (ui_recipe_dir opts) q"
    using assms by (cases up) (simp_all add: ui_start_def o c)
  then show ?thesis using ok by simp
qed

text \<open>After 200 timeouts a smoke test has asked for the shutdown or the process exits with status 1.\<close>

lemma smoke_run_decides:
  assumes "200 \<le> length events"
  shows "\<not> sm_active (fst (smoke_run events vm)) \<or> sm_exit (fst (smoke_run events vm)) = Some 1"
proof -
  have "\<not> sm_active (fst (smoke_run es vm)) \<or> sm_exit (fst (smoke_run es vm)) = Some 1 \<or> sm_attempts (fst (smoke_run es vm)) = int (length es) \<and> length es < 200" for es
  proof (induction es rule: rev_induct)
    case Nil
    then show ?case by (simp add: smoke_run_def smoke_init_def)
  next
    case (snoc f es)
    obtain sm vm' where s: "smoke_run es vm = (sm, vm')" by fastforce
    have "smoke_run (es @ [f]) vm = smoke_timeout (sm, f vm')" using s by (simp add: smoke_run_def)
    then show ?case using snoc s by (auto simp: smoke_timeout_def)
  qed
  then show ?thesis using assms by (metis not_le)
qed

end
