(* ===== verification/Spec2Isabelle.thy ===== *)
theory Spec2Isabelle
  imports Timed_Program Sim_Process Logging Recipe_Format Capture_Decoder App_Process Mcu_Process Ui_Process
begin

text \<open>
  The firmware of the Culina C-100 cooking appliance, as a library of theories.

  The program and its parts. Two processors share one appliance. The safety MCU (\<open>src/mcu\<close>) samples the
  sensors every millisecond, drives the motor and the heater, enforces the interlocks and answers the
  requests it gets. The application processor (\<open>src/app\<close>) runs cooking sessions and talks to the MCU
  over the C1-Link protocol (\<open>src/protocol\<close>), a framed byte stream on a serial line (\<open>src/hal\<close>). The
  simulated board (\<open>src/sim\<close>) stands for the hardware; \<open>src/system\<close> puts board, MCU and application into one
  lockstep simulation, and \<open>src/cli\<close> drives that from a console or from scripts.

  Data. Structures and classes are records, enumerations datatypes (an enumeration that travels in a byte
  has its own conversions, and a byte outside the named values stays representable), integers words of
  their width with wrap-around, \<open>float\<close> values rationals on which every operation rounds to binary32 as the
  code does (\<open>Binary32\<close>; the values that occur are finite, conversions from text can also give infinities
  and NaN, see \<open>C_Text\<close>). Character arrays and \<open>std::string\<close>s are character lists. Classes reached through
  interface pointers are records of operations over an abstract state (\<open>Hal\<close>). Loops over input that need
  not end are options, and results that they return are theorems.

  Theories, in the order of the imports, with the sources they translate:

  \<^item> \<open>Prelude\<close>: hints and generic lemmas on words, lists and rounding. \<open>Binary32\<close>: rounding to 24 bits.
  \<^item> \<open>Common\<close>: \<open>common/result.h\<close>, \<open>time_types.h\<close>, \<open>units.h\<close>. \<open>Crc16\<close>: \<open>crc16.cpp\<close>. \<open>Ring_Buffer\<close>:
    \<open>ring_buffer.h\<close>, with the queue it implements as an abstract specification.
  \<^item> \<open>Hal\<close>: the interfaces of \<open>hal/\<close>, the laws of a serial line as the locale \<open>uart\<close>, and
    \<open>sim/in_memory_transport.h\<close>, both ends of which are interpretations of it.
  \<^item> \<open>C1link\<close>, \<open>Frame_Codec\<close>, \<open>Link\<close>: \<open>protocol/\<close>: fields and frames, writer and parser, buffered
    sending and polling. The protocol lemmas hold in the locale \<open>uart\<close>, so for every serial line.
  \<^item> \<open>Interlocks\<close>, \<open>Heater_Pid\<close>, \<open>Motor_Controller\<close>, \<open>Telemetry_Publisher\<close>, \<open>Command_Handler\<close>,
    \<open>Safety_Mcu\<close>: \<open>mcu/\<close>, one theory per class; \<open>Mcu_Safety\<close> holds the guarantees of the tick.
  \<^item> \<open>Sim_Models\<close>, \<open>Sim_Board\<close>: the device models and the board of \<open>sim/\<close>.
  \<^item> \<open>Telemetry_Store\<close>, \<open>Ota_Updater\<close>, \<open>Mcu_Client\<close>, \<open>Programs\<close>, \<open>Cooking_Controller\<close>: \<open>app/\<close>.
  \<^item> \<open>Recipe\<close>, \<open>C_Text\<close>, \<open>Recipe_Parser\<close>, \<open>Recipe_Format\<close>, \<open>Recipe_Library\<close>: \<open>app/recipe/\<close>; \<open>C_Text\<close> holds
    the functions of the C library the parsers call, \<open>Recipe_Format\<close> a printer of the documented format.
  \<^item> \<open>System_Sim\<close>: \<open>app/application_runtime.cpp\<close> and \<open>system/system_sim.cpp\<close>, the whole device.
  \<^item> \<open>Parse_Number\<close>, \<open>Commands\<close>: \<open>common/parse_number.h\<close>, \<open>cli/commands.cpp\<close>, \<open>cli/script_runner.cpp\<close>.
  \<^item> \<open>Session_Spec\<close>: the protocol of the cooking controller as an abstract step relation, and that the
    controller refines it. \<open>Lockstep_Line\<close>, \<open>Lockstep\<close>, \<open>Safe_Stop\<close>, \<open>Timed_Program\<close>: no code of their own; the
    lemmas on the composition of MCU and application over the line of the simulated device.
  \<^item> \<open>Socket_Transport\<close>, \<open>Control_Server\<close>: \<open>sim/socket_transport.cpp\<close>, \<open>sim/sim_control_server.cpp\<close>. The
    system calls are the fields of the record \<open>posix\<close> over an abstract state of the operating system; what
    POSIX documents of them are the predicates \<open>descriptors\<close>, \<open>byte_stream\<close>, \<open>listener_stream\<close> and
    \<open>packet_stream\<close>, under which a socket meets the locale \<open>uart\<close>.
  \<^item> \<open>App_Process\<close>, \<open>Mcu_Process\<close>: \<open>apps/culina_app_main.cpp\<close>, \<open>apps/culina_mcu_main.cpp\<close>, the processes.
  \<^item> \<open>Sim_Process\<close>: \<open>apps/culina_sim_main.cpp\<close>, \<open>cli/repl.cpp\<close> and the status line of \<open>cli/commands.cpp\<close>.
  \<^item> \<open>View_Model\<close>, \<open>Ui_Process\<close>: \<open>apps/ui/device_view_model.cpp\<close>, over a record of what it uses of Qt, and
    \<open>apps/ui/culina_ui_main.cpp\<close>.
  \<^item> \<open>Logging\<close>: \<open>common/logging.cpp\<close>; the calls of the logger are left out of the other theories.
  \<^item> \<open>Capture_Decoder\<close>: \<open>tools/c1link_dump.cpp\<close>.

  What the lemmas show. The protocol: the parser is sound for every byte stream and the writer's frames
  come back; a link loses or duplicates nothing. The MCU: after every tick, whatever bytes arrive, speed and
  heat respect the interlocks, faults latch and switch everything off (SR-001 to SR-005, SR-007, SR-008 of
  \<open>docs/\<close>), and the tick returns. The application: requests are correlated, retried and given up in time;
  a program starts only behind an acknowledged stop; the recipes it runs are in range. The device: in every
  reachable state the next millisecond returns and the watchdog has not tripped (SR-006), also under every
  script; MCU and application move in lockstep, so that every request is answered within the next
  millisecond, a stop has switched the outputs of the board off 60 ms later, for good, and so has the end
  of a program or recipe that ends by time, whatever faults occur. The processes: the MCU process serves for ever over every operating system that keeps the socket
  contracts, and its board stays safe without them; the application and the user interface quit in time, and
  report success only behind an acknowledged stop; descriptors are neither leaked nor closed twice.

  Bounds. Statements about time exclude only the overflow of the 64-bit microsecond counter; the 32-bit
  millisecond clock does wrap around. The polling loops need no fuel: they are partial functions, shown to
  return for every serial line that runs dry. A shutdown takes at most five ticks, three for the two requests
  and their replies and two more when a fault starts it over, stated as less than 60 ms; a step of a recipe
  has 50 ms for its requests. The contract of a listening socket allows one connection for each poll: its
  successor comes later. The C library is the one of a 64-bit GNU system: \<open>long\<close> has 64 bits and an inexact
  subnormal \<open>strtof\<close> result is a range error.

  Not modelled: which messages are logged, what is printed on the terminal (but the status line), sleeping and reading the real-time clock, the
  socket option against \<open>SIGPIPE\<close>, and Qt with its QML files; they are listed with the reasons in the
  project's component list.
\<close>

end
